(* ===== verification/Prelude.thy ===== *)
theory Prelude
  imports Main "HOL-Library.Word"
begin

text \<open>
  Shared vocabulary of the development: what a C++ computation can fail with, the result
  type every fallible operation returns, the collections of rewrite rules the component
  theories extend, and list facts used by several of them.

  \<^item> \<open>cpp_error\<close> has one constructor per kind of failure the sources can run into: the
    standard exceptions they throw or that the library throws for them, the process exits of
    \<^verbatim>\<open>std::quick_exit\<close> and of a failed \<^verbatim>\<open>assert\<close>, and \<open>Undefined_behaviour\<close>, the outcome of a read or write outside an
    object or of a signed overflow, for which C++ promises nothing.
  \<^item> No function of the controller catches an exception, so \<open>Inl e\<close> at the top of a
    connection is the end of the process (\<^verbatim>\<open>std::terminate\<close>).
\<close>

datatype cpp_error =
    Out_of_range
  | Invalid_argument string
  | Runtime_error string
  | Length_error
  | Bad_optional_access
  | Quick_exit
  | Assert_failed
  | Undefined_behaviour

type_synonym 'a result = "cpp_error + 'a"

named_theorems cpp_simps \<open>rewrite rules of the C++ library model\<close>
named_theorems layout_simps \<open>rewrite rules for byte and field layouts\<close>

definition bind_result :: "'a result \<Rightarrow> ('a \<Rightarrow> 'b result) \<Rightarrow> 'b result" where
  "bind_result r f = (case r of Inl e \<Rightarrow> Inl e | Inr a \<Rightarrow> f a)"

lemma bind_result_simps [simp]:
  "bind_result (Inl e) f = Inl e"
  "bind_result (Inr a) f = f a"
  by (simp_all add: bind_result_def)

lemma bind_result_eq_Inr_iff:
  "bind_result r f = Inr b \<longleftrightarrow> (\<exists>a. r = Inr a \<and> f a = Inr b)"
  by (cases r) simp_all

lemma bind_result_eq_Inl_iff:
  "bind_result r f = Inl e \<longleftrightarrow> r = Inl e \<or> (\<exists>a. r = Inr a \<and> f a = Inl e)"
  by (cases r) simp_all

lemma bind_result_cong [fundef_cong]:
  "r = r' \<Longrightarrow> (\<And>a. r' = Inr a \<Longrightarrow> f a = f' a) \<Longrightarrow> bind_result r f = bind_result r' f'"
  by (cases r') simp_all

section \<open>Lists\<close>

lemma takeWhile_append_stop:
  "\<lbrakk>\<forall>x\<in>set xs. P x; \<not> P y\<rbrakk> \<Longrightarrow> takeWhile P (xs @ y # ys) = xs"
  by (induction xs) auto

lemma dropWhile_append_stop:
  "\<lbrakk>\<forall>x\<in>set xs. P x; \<not> P y\<rbrakk> \<Longrightarrow> dropWhile P (xs @ y # ys) = y # ys"
  by (induction xs) auto

lemma drop_prefix: "s = p @ r \<Longrightarrow> n = length p \<Longrightarrow> drop n s = r"
  by simp

lemma take_prefix: "s = p @ r \<Longrightarrow> n = length p \<Longrightarrow> take n s = p"
  by simp

lemma map_upt_distinct_lookup:
  assumes "inj_on f {..<n}"
  shows "map_of (map (\<lambda>i. (f i, i)) [0..<n]) k = Some i \<longleftrightarrow> i < n \<and> f i = k"
proof -
  have "distinct (map fst (map (\<lambda>i. (f i, i)) [0..<n]))"
    using assms by (auto simp: distinct_map o_def atLeast0LessThan)
  then show ?thesis
    by (auto simp: map_of_eq_Some_iff)
qed

end
