(* ===== verification/Cpp_String.thy ===== *)
theory Cpp_String
  imports Prelude
begin

text \<open>
  The part of \<^verbatim>\<open>std::string\<close>, \<^verbatim>\<open>std::string_view\<close>, \<^verbatim>\<open>std::stringstream\<close> and \<^verbatim>\<open><cctype>\<close> the
  sources use. A string is its list of bytes, and HOL's \<^typ>\<open>char\<close> is an 8-bit byte.

  A position of type \<^verbatim>\<open>size_t\<close> is a \<^typ>\<open>nat\<close>; the result of a search is a \<^typ>\<open>nat option\<close>,
  where \<open>None\<close> stands for \<^verbatim>\<open>npos\<close> (the largest \<^verbatim>\<open>size_t\<close>). The sources compute with \<^verbatim>\<open>npos\<close>
  without testing it, so the two computations they make are written out: \<open>after\<close> is
  \<^verbatim>\<open>pos + 1\<close>, which wraps to 0 at \<^verbatim>\<open>npos\<close>, and \<open>substr_between\<close> is \<^verbatim>\<open>s.substr(a, b - a)\<close>,
  where a \<^verbatim>\<open>b\<close> that is \<^verbatim>\<open>npos\<close> or lies before \<^verbatim>\<open>a\<close> gives an unsigned difference that is longer
  than any string in memory, so the substring runs to the end.

  The lemmas relate the index-based searches to the reference function \<open>split_on\<close>, which the
  delimiter loops of the components are proved to compute.
\<close>

section \<open>Searching\<close>

fun index_of :: "char \<Rightarrow> string \<Rightarrow> nat option" where
  "index_of c [] = None"
| "index_of c (x # xs) = (if x = c then Some 0 else map_option Suc (index_of c xs))"

definition find_from :: "char \<Rightarrow> string \<Rightarrow> nat \<Rightarrow> nat option" where
  "find_from c s start = map_option (\<lambda>i. start + i) (index_of c (drop start s))"

definition find_last_of :: "char \<Rightarrow> string \<Rightarrow> nat option" where
  "find_last_of c s = map_option (\<lambda>i. length s - 1 - i) (index_of c (rev s))"

definition after :: "nat option \<Rightarrow> nat" where
  "after p = (case p of None \<Rightarrow> 0 | Some i \<Rightarrow> i + 1)"

lemma after_simps [simp]: "after None = 0" "after (Some i) = i + 1"
  by (simp_all add: after_def)

lemma index_of_None_iff [cpp_simps]: "index_of c s = None \<longleftrightarrow> c \<notin> set s"
  by (induction s) auto

lemma index_of_append_stop [simp]:
  "c \<notin> set xs \<Longrightarrow> index_of c (xs @ c # ys) = Some (length xs)"
  by (induction xs) auto

lemma index_of_notin [simp]: "c \<notin> set s \<Longrightarrow> index_of c s = None"
  by (simp add: index_of_None_iff)

lemma index_of_SomeD:
  "index_of c s = Some i \<Longrightarrow>
     i < length s \<and> s ! i = c \<and> c \<notin> set (take i s) \<and> s = take i s @ c # drop (Suc i) s"
proof (induction s arbitrary: i)
  case (Cons x xs)
  then show ?case by (cases i) (auto split: if_splits)
qed simp

lemma find_from_0: "find_from c s 0 = index_of c s"
  by (simp add: find_from_def option.map_ident)

lemma find_from_SomeD:
  assumes "find_from c s a = Some b"
  shows "a \<le> b" and "b < length s" and "index_of c (drop a s) = Some (b - a)"
proof -
  from assms obtain i where i: "index_of c (drop a s) = Some i" "b = a + i"
    by (auto simp: find_from_def)
  from index_of_SomeD [OF i(1)] have "i < length s - a" by simp
  with i show "a \<le> b" "b < length s" "index_of c (drop a s) = Some (b - a)"
    by simp_all
qed

lemma find_from_append [simp]:
  "find_from c (pre @ s) (length pre) = map_option (\<lambda>i. length pre + i) (index_of c s)"
  by (simp add: find_from_def)

lemma find_last_of_append [simp]:
  assumes "c \<notin> set t"
  shows "find_last_of c (s @ c # t) = Some (length s)"
  using assms by (simp add: find_last_of_def)

lemma find_last_of_None_iff: "find_last_of c s = None \<longleftrightarrow> c \<notin> set s"
  by (simp add: find_last_of_def index_of_None_iff)

section \<open>Substrings\<close>

definition substr :: "string \<Rightarrow> nat \<Rightarrow> nat \<Rightarrow> string result" where
  "substr s pos n = (if length s < pos then Inl Out_of_range else Inr (take n (drop pos s)))"

definition substr_from :: "string \<Rightarrow> nat \<Rightarrow> string result" where
  "substr_from s pos = (if length s < pos then Inl Out_of_range else Inr (drop pos s))"

definition substr_between :: "string \<Rightarrow> nat \<Rightarrow> nat option \<Rightarrow> string result" where
  "substr_between s a b =
     (case b of
        None \<Rightarrow> substr_from s a
      | Some e \<Rightarrow> if a \<le> e then substr s a (e - a) else substr_from s a)"

lemma substr_between_find [simp]:
  "find_from c s a = Some b \<Longrightarrow>
     substr_between s a (Some b) = Inr (take (b - a) (drop a s))"
  using find_from_SomeD(1,2) [of c s a b] by (simp add: substr_between_def substr_def)

lemma substr_from_le [simp]: "a \<le> length s \<Longrightarrow> substr_from s a = Inr (drop a s)"
  by (simp add: substr_from_def)

lemma substr_length: "substr s a n = Inr t \<Longrightarrow> length t \<le> length s"
  by (auto simp: substr_def split: if_splits)

lemma substr_from_length: "substr_from s a = Inr t \<Longrightarrow> length t \<le> length s"
  by (auto simp: substr_from_def split: if_splits)

lemma substr_between_length: "substr_between s a b = Inr t \<Longrightarrow> length t \<le> length s"
  using substr_length substr_from_length by (auto simp: substr_between_def split: option.splits if_splits)

section \<open>The reference splitting function\<close>

fun split_on :: "char \<Rightarrow> string \<Rightarrow> string list" where
  "split_on c [] = [[]]"
| "split_on c (x # xs) =
     (if x = c then [] # split_on c xs
      else (case split_on c xs of [] \<Rightarrow> [[x]] | t # ts \<Rightarrow> (x # t) # ts))"

lemma split_on_not_Nil [simp]: "split_on c s \<noteq> []"
  by (induction s) (auto split: list.splits)

lemma split_on_notin [simp]: "c \<notin> set s \<Longrightarrow> split_on c s = [s]"
  by (induction s) auto

lemma split_on_append [simp]:
  "c \<notin> set t \<Longrightarrow> split_on c (t @ c # s) = t # split_on c s"
  by (induction t) auto

lemma split_on_parts: "t \<in> set (split_on c s) \<Longrightarrow> c \<notin> set t"
proof (induction s arbitrary: t)
  case (Cons x xs)
  then show ?case by (cases "split_on c xs") (auto split: if_splits)
qed simp

lemma split_on_length: "t \<in> set (split_on c s) \<Longrightarrow> length t \<le> length s"
proof (induction s arbitrary: t)
  case (Cons x xs)
  then show ?case by (cases "split_on c xs") (fastforce split: if_splits)+
qed simp

lemma split_on_index_None: "index_of c s = None \<Longrightarrow> split_on c s = [s]"
  by (simp add: index_of_None_iff)

lemma split_on_index_Some:
  assumes "index_of c s = Some i"
  shows "split_on c s = take i s # split_on c (drop (Suc i) s)"
proof -
  from index_of_SomeD [OF assms]
  have "s = take i s @ c # drop (Suc i) s" and nin: "c \<notin> set (take i s)" by blast+
  then have "split_on c s = split_on c (take i s @ c # drop (Suc i) s)" by simp
  with nin show ?thesis by simp
qed

fun join_with :: "char \<Rightarrow> string list \<Rightarrow> string" where
  "join_with c [] = []"
| "join_with c [t] = t"
| "join_with c (t # ts) = t @ c # join_with c ts"

lemma join_split_on [simp]: "join_with c (split_on c s) = s"
proof (induction s)
  case (Cons x xs)
  obtain t ts where ts: "split_on c xs = t # ts" by (cases "split_on c xs") auto
  with Cons show ?case by (cases ts) auto
qed simp

lemma split_join_on:
  "ts \<noteq> [] \<Longrightarrow> \<forall>t\<in>set ts. c \<notin> set t \<Longrightarrow> split_on c (join_with c ts) = ts"
  by (induction c ts rule: join_with.induct) auto

section \<open>Character classes and case conversion\<close>

definition is_space :: "char \<Rightarrow> bool" where
  "is_space c = (let n = (of_char c :: nat) in n = 32 \<or> (9 \<le> n \<and> n \<le> 13))"

definition to_lower :: "char \<Rightarrow> char" where
  "to_lower c = (let n = (of_char c :: nat) in if 65 \<le> n \<and> n \<le> 90 then char_of (n + 32) else c)"

lemma to_lower_idem [simp]: "to_lower (to_lower c) = to_lower c"
  by (simp add: to_lower_def Let_def)

section \<open>C strings and stream extraction\<close>

text \<open>\<open>c_str\<close>: the bytes a \<^verbatim>\<open>const char*\<close> denotes, up to the terminating null byte.\<close>

definition c_str :: "string \<Rightarrow> string" where
  "c_str s = takeWhile (\<lambda>c. c \<noteq> CHR 0x00) s"

text \<open>
  \<open>next_token\<close> is \<^verbatim>\<open>stream >> std::string\<close>: skip white space, then take bytes up to the next
  white space; \<open>None\<close> is the failed extraction at the end of the stream.
\<close>

definition next_token :: "string \<Rightarrow> (string \<times> string) option" where
  "next_token s =
     (case dropWhile is_space s of
        [] \<Rightarrow> None
      | r \<Rightarrow> Some (takeWhile (\<lambda>c. \<not> is_space c) r, dropWhile (\<lambda>c. \<not> is_space c) r))"

lemma next_token_shorter: "next_token s = Some (t, r) \<Longrightarrow> length r < length s"
proof -
  assume a: "next_token s = Some (t, r)"
  then obtain x xs where x: "dropWhile is_space s = x # xs" and r: "r = dropWhile (\<lambda>c. \<not> is_space c) (x # xs)"
    by (auto simp: next_token_def split: list.splits)
  from x have "\<not> is_space x" by (metis dropWhile_eq_Cons_conv)
  with r have "length r \<le> length xs" by (simp add: length_dropWhile_le)
  moreover have "Suc (length xs) \<le> length s" using x length_dropWhile_le [of is_space s] by simp
  ultimately show ?thesis by simp
qed

lemma next_token_length: "next_token s = Some (t, r) \<Longrightarrow> length t \<le> length s \<and> length r \<le> length s"
proof -
  assume a: "next_token s = Some (t, r)"
  let ?u = "dropWhile is_space s"
  have "t = takeWhile (\<lambda>c. \<not> is_space c) ?u \<and> r = dropWhile (\<lambda>c. \<not> is_space c) ?u"
    using a by (auto simp: next_token_def split: list.splits)
  then have "length t \<le> length ?u" "length r \<le> length ?u" by (simp_all add: length_takeWhile_le length_dropWhile_le)
  with length_dropWhile_le [of is_space s] show ?thesis by simp
qed

lemma next_token_word:
  assumes "t \<noteq> []" "\<forall>c\<in>set t. \<not> is_space c" "is_space x"
  shows "next_token (t @ x # r) = Some (t, x # r)"
proof -
  obtain y ys where t: "t = y # ys" using assms(1) by (cases t) auto
  have "takeWhile (\<lambda>c. \<not> is_space c) (t @ x # r) = t"
    using assms(2,3) by (intro takeWhile_append_stop) auto
  moreover have "dropWhile (\<lambda>c. \<not> is_space c) (t @ x # r) = x # r"
    using assms(2,3) by (intro dropWhile_append_stop) auto
  moreover have "dropWhile is_space (t @ x # r) = t @ x # r" using t assms(2) by simp
  ultimately show ?thesis using t by (simp add: next_token_def)
qed

lemma next_token_last:
  assumes "t \<noteq> []" "\<forall>c\<in>set t. \<not> is_space c"
  shows "next_token t = Some (t, [])"
proof -
  obtain y ys where t: "t = y # ys" using assms(1) by (cases t) auto
  have "takeWhile (\<lambda>c. \<not> is_space c) t = t" "dropWhile (\<lambda>c. \<not> is_space c) t = []"
    using assms(2) by (auto simp: takeWhile_eq_all_conv dropWhile_eq_Nil_conv)
  then show ?thesis using t assms(2) by (simp add: next_token_def)
qed

lemma next_token_skip [simp]: "is_space x \<Longrightarrow> next_token (x # s) = next_token s"
  by (simp add: next_token_def)

end
