(* ===== verification/Cpp_Number.thy ===== *)
theory Cpp_Number
  imports Cpp_String
begin

text \<open>
  Numbers as the sources read, print and store them: \<^verbatim>\<open>std::to_string\<close>, \<^verbatim>\<open>std::stoi\<close>,
  \<^verbatim>\<open>std::stoll\<close>, \<^verbatim>\<open>std::stoul\<close> and \<^verbatim>\<open>std::stoull\<close> (base 10, C locale), and the little-endian bytes of the
  fixed-width integers that are copied into messages and files (the targets are x86-64).

  A signed 32- or 64-bit value is an \<^typ>\<open>int\<close> in its range. The conversions from text check
  that range and raise \<open>Out_of_range\<close>, or \<open>Invalid_argument\<close> when there is no digit;
  \<^verbatim>\<open>stoull\<close> accepts a minus sign and negates modulo \<open>2 ^ 64\<close>, as \<^verbatim>\<open>strtoull\<close> does.
  The main lemmas are the round trips \<open>stoll_to_string\<close>, \<open>stoull_to_string\<close> and
  \<open>le_val_le_bytes\<close>.
\<close>

section \<open>Ranges\<close>

definition int32_range :: "int \<Rightarrow> bool" where
  "int32_range i \<longleftrightarrow> - (2 ^ 31) \<le> i \<and> i < 2 ^ 31"

definition int64_range :: "int \<Rightarrow> bool" where
  "int64_range i \<longleftrightarrow> - (2 ^ 63) \<le> i \<and> i < 2 ^ 63"

section \<open>Decimal text\<close>

definition digit_char :: "nat \<Rightarrow> char" where
  "digit_char d = char_of (48 + d)"

definition is_digit :: "char \<Rightarrow> bool" where
  "is_digit c = (let n = (of_char c :: nat) in 48 \<le> n \<and> n \<le> 57)"

definition digit_val :: "char \<Rightarrow> nat" where
  "digit_val c = of_char c - 48"

fun dec_nat :: "nat \<Rightarrow> string" where
  "dec_nat n = (if n < 10 then [digit_char n] else dec_nat (n div 10) @ [digit_char (n mod 10)])"

declare dec_nat.simps [simp del]

definition to_string :: "int \<Rightarrow> string" where
  "to_string i = (if i < 0 then CHR ''-'' # dec_nat (nat (- i)) else dec_nat (nat i))"

definition digits_val :: "string \<Rightarrow> nat" where
  "digits_val s = foldl (\<lambda>a c. 10 * a + digit_val c) 0 s"

text \<open>\<open>scan_int\<close>: the sign and the magnitude of the longest numeric prefix, as \<^verbatim>\<open>strtol\<close> reads it.\<close>

definition scan_int :: "string \<Rightarrow> (bool \<times> nat) option" where
  "scan_int s =
     (let r = dropWhile is_space s;
          neg = (case r of c # _ \<Rightarrow> c = CHR ''-'' | [] \<Rightarrow> False);
          u = (case r of c # cs \<Rightarrow> if c = CHR ''-'' \<or> c = CHR ''+'' then cs else r | [] \<Rightarrow> r);
          ds = takeWhile is_digit u
      in if ds = [] then None else Some (neg, digits_val ds))"

definition signed_of :: "bool \<times> nat \<Rightarrow> int" where
  "signed_of p = (if fst p then - int (snd p) else int (snd p))"

definition stoi :: "string \<Rightarrow> int result" where
  "stoi s =
     (case scan_int s of
        None \<Rightarrow> Inl (Invalid_argument ''stoi'')
      | Some p \<Rightarrow> if int32_range (signed_of p) then Inr (signed_of p) else Inl Out_of_range)"

definition stoll :: "string \<Rightarrow> int result" where
  "stoll s =
     (case scan_int s of
        None \<Rightarrow> Inl (Invalid_argument ''stoll'')
      | Some p \<Rightarrow> if int64_range (signed_of p) then Inr (signed_of p) else Inl Out_of_range)"

definition stoull :: "string \<Rightarrow> 64 word result" where
  "stoull s =
     (case scan_int s of
        None \<Rightarrow> Inl (Invalid_argument ''stoull'')
      | Some p \<Rightarrow> if snd p < 2 ^ 64 then Inr (of_int (signed_of p)) else Inl Out_of_range)"

definition stoul :: "string \<Rightarrow> 64 word result" where
  "stoul s =
     (case scan_int s of
        None \<Rightarrow> Inl (Invalid_argument ''stoul'')
      | Some p \<Rightarrow> if snd p < 2 ^ 64 then Inr (of_int (signed_of p)) else Inl Out_of_range)"

lemma digit_char_props [simp]:
  assumes "d < 10"
  shows "is_digit (digit_char d)" and "digit_val (digit_char d) = d"
  using assms by (simp_all add: is_digit_def digit_char_def digit_val_def Let_def)

lemma is_digit_not_special:
  assumes "is_digit c"
  shows "\<not> is_space c" and "c \<notin> {CHR ''-'', CHR ''+'', CHR ''|'', CHR '','', CHR '' '', CHR ''.'', CHR ''/''}"
  using assms by (auto simp: is_digit_def is_space_def Let_def)

lemma dec_nat_not_Nil [simp]: "dec_nat n \<noteq> []"
  by (subst dec_nat.simps) simp

lemma dec_nat_digits: "c \<in> set (dec_nat n) \<Longrightarrow> is_digit c"
proof (induction n rule: dec_nat.induct)
  case (1 n)
  then show ?case
    by (cases "n < 10") (auto simp: dec_nat.simps [of n])
qed

lemma digits_val_snoc [simp]: "digits_val (s @ [c]) = 10 * digits_val s + digit_val c"
  by (simp add: digits_val_def)

lemma digits_val_dec_nat [simp]: "digits_val (dec_nat n) = n"
proof (induction n rule: dec_nat.induct)
  case (1 n)
  show ?case
  proof (cases "n < 10")
    case True
    then show ?thesis by (simp add: dec_nat.simps [of n] digits_val_def)
  next
    case False
    with 1 show ?thesis by (simp add: dec_nat.simps [of n])
  qed
qed

lemma dec_nat_inj [simp]: "dec_nat m = dec_nat n \<longleftrightarrow> m = n"
  by (metis digits_val_dec_nat)

lemma dec_nat_length: "0 < k \<Longrightarrow> n < 10 ^ k \<Longrightarrow> length (dec_nat n) \<le> k"
proof (induction k arbitrary: n)
  case (Suc k)
  show ?case
  proof (cases "n < 10")
    case False
    then have "n div 10 < 10 ^ k" "0 < k" using Suc.prems by (auto simp: less_mult_imp_div_less intro!: gr0I)
    with Suc.IH [of "n div 10"] False show ?thesis by (simp add: dec_nat.simps [of n])
  qed (simp add: dec_nat.simps [of n])
qed simp

lemma takeWhile_dec_nat [simp]: "takeWhile is_digit (dec_nat n) = dec_nat n"
  by (simp add: takeWhile_eq_all_conv dec_nat_digits)

lemma scan_int_dec_nat:
  "scan_int (dec_nat n) = Some (False, n)" "scan_int (CHR ''-'' # dec_nat n) = Some (True, n)"
proof -
  obtain c cs where d: "dec_nat n = c # cs" by (cases "dec_nat n") auto
  then have c: "is_digit c" using dec_nat_digits [of c n] by simp
  have tw: "takeWhile is_digit (c # cs) = dec_nat n" using takeWhile_dec_nat [of n] d by simp
  have minus: "\<not> is_space (CHR ''-'')" by (simp add: is_space_def)
  show "scan_int (dec_nat n) = Some (False, n)"
    using is_digit_not_special [OF c] tw by (simp add: scan_int_def d Let_def) (simp add: d [symmetric])
  show "scan_int (CHR ''-'' # dec_nat n) = Some (True, n)"
    using minus by (simp add: scan_int_def Let_def)
qed

lemma scan_int_to_string: "map_option signed_of (scan_int (to_string i)) = Some i"
  by (cases "i < 0") (simp_all add: to_string_def scan_int_dec_nat signed_of_def)

lemma stoll_to_string [simp]: "int64_range i \<Longrightarrow> stoll (to_string i) = Inr i"
  using scan_int_to_string [of i] by (auto simp: stoll_def split: option.splits)

lemma stoull_to_string [simp]: "stoull (to_string (uint w)) = Inr (w :: 64 word)"
proof -
  have "to_string (uint w) = dec_nat (unat w)" by (simp add: to_string_def)
  moreover have "unat w < 2 ^ 64" using unsigned_less [of w, where ?'a = nat] by simp
  ultimately show ?thesis by (simp add: stoull_def scan_int_dec_nat signed_of_def)
qed

lemma stoll_range: "stoll s = Inr i \<Longrightarrow> int64_range i"
  by (auto simp: stoll_def split: option.splits if_splits)

lemma stoi_range: "stoi s = Inr i \<Longrightarrow> int32_range i"
  by (auto simp: stoi_def split: option.splits if_splits)

lemma to_string_clean:
  "c \<in> set (to_string i) \<Longrightarrow> c \<noteq> CHR ''|'' \<and> c \<noteq> CHR '','' \<and> c \<noteq> CHR '' ''"
  by (auto simp: to_string_def split: if_splits dest!: dec_nat_digits is_digit_not_special(2))

lemma to_string_not_Nil [simp]: "to_string i \<noteq> []"
  by (simp add: to_string_def)

lemma to_string_length: "int64_range i \<Longrightarrow> length (to_string i) \<le> 20"
  using dec_nat_length [of 19 "nat i"] dec_nat_length [of 19 "nat (- i)"]
  by (auto simp: to_string_def int64_range_def nat_less_iff)

lemma to_string_uint_length: "length (to_string (uint (w :: 64 word))) \<le> 20"
proof -
  have "unat w < 2 ^ 64" by (rule order_less_le_trans [OF unsigned_less]) simp
  then have "unat w < 10 ^ 20" by simp
  then show ?thesis using dec_nat_length [of 20 "unat w"] by (simp add: to_string_def)
qed

lemma to_string_inj [simp]: "to_string i = to_string j \<longleftrightarrow> i = j"
  by (metis option.inject scan_int_to_string)

section \<open>Fixed-width integers as bytes\<close>

fun le_bytes :: "nat \<Rightarrow> nat \<Rightarrow> string" where
  "le_bytes 0 v = []"
| "le_bytes (Suc k) v = char_of (v mod 256) # le_bytes k (v div 256)"

fun le_val :: "string \<Rightarrow> nat" where
  "le_val [] = 0"
| "le_val (c # cs) = of_char c + 256 * le_val cs"

definition be_bytes :: "nat \<Rightarrow> nat \<Rightarrow> string" where
  "be_bytes k v = rev (le_bytes k v)"

definition be_val :: "string \<Rightarrow> nat" where
  "be_val s = le_val (rev s)"

text \<open>The two's complement reading of \<open>w\<close> unsigned bits, and its inverse.\<close>

definition to_signed :: "nat \<Rightarrow> nat \<Rightarrow> int" where
  "to_signed w n = (if n < 2 ^ (w - 1) then int n else int n - 2 ^ w)"

definition from_signed :: "nat \<Rightarrow> int \<Rightarrow> nat" where
  "from_signed w i = nat (i mod 2 ^ w)"

lemma length_le_bytes [simp]: "length (le_bytes k v) = k"
  by (induction k arbitrary: v) auto

lemma length_be_bytes [simp]: "length (be_bytes k v) = k"
  by (simp add: be_bytes_def)

lemma le_val_le_bytes [simp, layout_simps]: "le_val (le_bytes k v) = v mod 256 ^ k"
proof (induction k arbitrary: v)
  case (Suc k)
  then show ?case by (simp add: mod_mult2_eq)
qed simp

lemma be_val_be_bytes [simp, layout_simps]: "be_val (be_bytes k v) = v mod 256 ^ k"
  by (simp add: be_val_def be_bytes_def)

lemma to_signed_from_signed_64 [simp]: "int64_range i \<Longrightarrow> to_signed 64 (from_signed 64 i) = i"
proof -
  assume r: "int64_range i"
  show ?thesis
  proof (cases "i < 0")
    case True
    have "i mod 2 ^ 64 = (i + 2 ^ 64) mod 2 ^ 64" by simp
    also have "\<dots> = i + 2 ^ 64" using r True by (intro mod_pos_pos_trivial) (simp_all add: int64_range_def)
    finally have "i mod 2 ^ 64 = i + 2 ^ 64" .
    then show ?thesis using r True by (simp add: to_signed_def from_signed_def int64_range_def)
  next
    case False
    then show ?thesis using r by (simp add: to_signed_def from_signed_def int64_range_def)
  qed
qed

lemma from_signed_64_bound [simp]: "from_signed 64 i < 18446744073709551616"
  by (simp add: from_signed_def)

text \<open>Integer division as C++ has it, truncating towards zero.\<close>

definition trunc_div :: "int \<Rightarrow> int \<Rightarrow> int" where
  "trunc_div a b = (if a < 0 then - ((- a) div b) else a div b)"

lemma int_div_bounds:
  fixes x b :: int
  assumes "0 < b" "0 \<le> x"
  shows "0 \<le> x div b" and "x div b \<le> x"
  using assms zdiv_mono2 [of x 1 b] by (simp_all add: pos_imp_zdiv_nonneg_iff)

lemma trunc_div_int64:
  assumes "0 < b" "int64_range a"
  shows "int64_range (trunc_div a b)"
proof (cases "a < 0")
  case True
  then have "0 \<le> (- a) div b" "(- a) div b \<le> - a"
    using assms(1) int_div_bounds [of b "- a"] by simp_all
  with True assms(2) show ?thesis by (simp add: trunc_div_def int64_range_def)
next
  case False
  then have "0 \<le> a div b" "a div b \<le> a"
    using assms(1) int_div_bounds [of b a] by simp_all
  with False assms(2) show ?thesis by (simp add: trunc_div_def int64_range_def)
qed

end
