(* ===== verification/Gdpr_Metadata.thy ===== *)
theory Gdpr_Metadata
  imports Cpp_Number
begin

text \<open>
  \<^verbatim>\<open>gdpr_metadata.hpp\<close>: the layout of a stored value and the conversions of its fields.

  A stored value is the text \<^verbatim>\<open>user|encryption|purposes|objections|origin|expiration|share|log|value\<close>.
  Purposes and objections are a \<^verbatim>\<open>std::bitset<64>\<close>, here a \<^typ>\<open>64 word\<close>. The clock reading
  \<^verbatim>\<open>std::chrono::system_clock::now()\<close> is an argument (\<open>now\<close>, in nanoseconds since the epoch, the
  unit of libstdc++'s system clock).

  Three functions of the program walk over the fields of a stored value with the same loop
  (\<^verbatim>\<open>while (count < limit && (end = value.find('|', start)) != npos)\<close>); they differ in the limit and
  in the \<^verbatim>\<open>switch\<close> of the body. \<open>field_loop\<close> is that loop with the body as an argument, and
  \<open>field_loop_fields\<close> the one lemma about it that the three clients use.
\<close>

section \<open>Constants and field numbers\<close>

definition num_purposes :: nat where "num_purposes = 64"
definition metadata_prefix_fields :: nat where "metadata_prefix_fields = 8"

datatype metadata_fields = usr | encr | pur | obj | org | exp | shr | log | val | max_gdpr_field_guard

definition field_at :: "nat \<Rightarrow> metadata_fields" where
  "field_at n =
     (if n = 0 then usr else if n = 1 then encr else if n = 2 then pur else if n = 3 then obj
      else if n = 4 then org else if n = 5 then exp else if n = 6 then shr else if n = 7 then log
      else if n = 8 then val else max_gdpr_field_guard)"

definition field_guard :: nat where "field_guard = 9"

section \<open>Purposes\<close>

definition purpose_name :: "nat \<Rightarrow> string" where
  "purpose_name i = ''purpose'' @ to_string (int i)"

definition pur_index :: "string \<rightharpoonup> nat" where
  "pur_index = map_of (map (\<lambda>i. (purpose_name i, i)) [0..<num_purposes])"

text \<open>
  \<^verbatim>\<open>get_pur()[bit_key]\<close> indexes a copy of the map with \<^verbatim>\<open>operator[]\<close>, which inserts and returns 0
  for a key that is not there.
\<close>

definition get_pur_index :: "string \<Rightarrow> nat" where
  "get_pur_index k = (case pur_index k of Some i \<Rightarrow> i | None \<Rightarrow> 0)"

fun set_bitmap :: "64 word \<Rightarrow> string list \<Rightarrow> 64 word" where
  "set_bitmap bits [] = bits"
| "set_bitmap bits (k # ks) = set_bitmap (set_bit (get_pur_index k) bits) ks"

definition get_purposes_string :: "64 word \<Rightarrow> string" where
  "get_purposes_string bits =
     concat (map (\<lambda>i. if bit bits i then purpose_name i @ '','' else []) [0..<num_purposes])"

function split_comma_loop :: "string \<Rightarrow> nat \<Rightarrow> string list \<Rightarrow> string list result" where
  "split_comma_loop str start res =
     (case find_from (CHR '','') str start of
        None \<Rightarrow> bind_result (substr_from str start) (\<lambda>t. Inr (res @ [t]))
      | Some e \<Rightarrow> bind_result (substr_between str start (Some e))
                   (\<lambda>t. split_comma_loop str (e + 1) (res @ [t])))"
  by pat_completeness auto
termination
proof (relation "measure (\<lambda>(str, start, res). length str - start)", goal_cases)
  case (2 str start res e t)
  then show ?case using find_from_SomeD(1,2) [OF 2(1)] by simp
qed simp

declare split_comma_loop.simps [simp del]

definition split_comma_string :: "string \<Rightarrow> string list result" where
  "split_comma_string str = split_comma_loop str 0 []"

lemma split_comma_loop_split_on:
  "start \<le> length str \<Longrightarrow>
     split_comma_loop str start res = Inr (res @ split_on (CHR '','') (drop start str))"
proof (induction str start res rule: split_comma_loop.induct)
  case (1 str start res)
  show ?case
  proof (cases "find_from (CHR '','') str start")
    case None
    then have "index_of (CHR '','') (drop start str) = None" by (simp add: find_from_def)
    with None 1(2) show ?thesis
      by (simp add: split_comma_loop.simps [of str start] split_on_index_None)
  next
    case (Some e)
    note e = find_from_SomeD [OF Some]
    from "1.IH" [OF Some] e(2) Some
    have "split_comma_loop str (e + 1) (res @ [take (e - start) (drop start str)]) =
        Inr ((res @ [take (e - start) (drop start str)]) @ split_on (CHR '','') (drop (e + 1) str))"
      by simp
    with Some e split_on_index_Some [OF e(3)] show ?thesis
      by (simp add: split_comma_loop.simps [of str start])
  qed
qed

lemma split_comma_string_eq [cpp_simps]: "split_comma_string s = Inr (split_on (CHR '','') s)"
  by (simp add: split_comma_string_def split_comma_loop_split_on)

lemma purpose_name_inj: "inj_on purpose_name A"
  by (auto simp: inj_on_def purpose_name_def)

lemma pur_index_eq: "pur_index k = Some i \<longleftrightarrow> i < 64 \<and> k = purpose_name i"
  unfolding pur_index_def num_purposes_def by (subst map_upt_distinct_lookup) (auto intro: purpose_name_inj)

lemma pur_index_purpose [simp]: "i < 64 \<Longrightarrow> get_pur_index (purpose_name i) = i"
  using pur_index_eq [of "purpose_name i" i] by (simp add: get_pur_index_def)

lemma get_pur_index_unknown: "(\<forall>i<64. k \<noteq> purpose_name i) \<Longrightarrow> get_pur_index k = 0"
  using pur_index_eq [of k] by (auto simp: get_pur_index_def split: option.splits)

lemma get_pur_index_less: "get_pur_index k < 64"
  using pur_index_eq [of k] by (auto simp: get_pur_index_def split: option.splits)

lemma bit_set_bitmap:
  "bit (set_bitmap bits ks) i \<longleftrightarrow> bit bits i \<or> (\<exists>k\<in>set ks. get_pur_index k = i)"
proof (induction ks arbitrary: bits)
  case (Cons k ks)
  have "bit (set_bit (get_pur_index k) bits) i \<longleftrightarrow> get_pur_index k = i \<or> bit bits i"
    using get_pur_index_less [of k] by (auto simp: bit_simps)
  with Cons show ?case by auto
qed simp

section \<open>Booleans\<close>

definition equals_ignore_case :: "string \<Rightarrow> string \<Rightarrow> bool" where
  "equals_ignore_case lhs rhs \<longleftrightarrow> length lhs = length rhs \<and> list_all2 (\<lambda>a b. to_lower a = to_lower b) lhs rhs"

definition str_to_bool :: "string \<Rightarrow> bool result" where
  "str_to_bool str =
     (if equals_ignore_case str ''true'' then Inr True
      else if equals_ignore_case str ''false'' then Inr False
      else Inl (Runtime_error (''Invalid string value: '' @ str)))"

definition bool_to_str :: "bool \<Rightarrow> string" where
  "bool_to_str b = (if b then ''true'' else ''false'')"

lemma str_to_bool_to_str: "str_to_bool (bool_to_str b) = Inr b"
  by (cases b) (simp_all add: str_to_bool_def bool_to_str_def equals_ignore_case_def)

section \<open>Expiration times\<close>

definition s2ns :: int where "s2ns = 1000000000"

text \<open>
  The addition is made in nanoseconds, the common type of the clock and of \<^verbatim>\<open>std::chrono::seconds\<close>,
  on a signed 64-bit count; an overflow is undefined behaviour.
\<close>

definition get_expiration_time :: "int \<Rightarrow> int \<Rightarrow> int result" where
  "get_expiration_time now secs_from_now =
     (if secs_from_now = 0 then Inr 0
      else if int64_range (secs_from_now * s2ns) \<and> int64_range (now + secs_from_now * s2ns)
      then Inr (trunc_div (now + secs_from_now * s2ns) s2ns)
      else Inl Undefined_behaviour)"

lemma get_expiration_time_range: "get_expiration_time now n = Inr t \<Longrightarrow> int64_range t"
  by (auto simp: get_expiration_time_def s2ns_def intro!: trunc_div_int64 split: if_splits)
    (simp add: int64_range_def)

section \<open>Separating the metadata from the value\<close>

definition remove_gdpr_metadata :: "string \<Rightarrow> string" where
  "remove_gdpr_metadata v =
     (case find_last_of (CHR ''|'') v of
        Some i \<Rightarrow> if i + 1 < length v then drop (i + 1) v else v
      | None \<Rightarrow> v)"

definition preserve_only_gdpr_metadata :: "string \<Rightarrow> string" where
  "preserve_only_gdpr_metadata v =
     (case find_last_of (CHR ''|'') v of
        Some i \<Rightarrow> if i + 1 < length v then take (i + 1) v else v
      | None \<Rightarrow> v)"

lemma remove_gdpr_metadata_append:
  assumes "CHR ''|'' \<notin> set v" "v \<noteq> []"
  shows "remove_gdpr_metadata (p @ CHR ''|'' # v) = v"
  using assms by (simp add: remove_gdpr_metadata_def)

lemma preserve_only_gdpr_metadata_append:
  assumes "CHR ''|'' \<notin> set v"
  shows "preserve_only_gdpr_metadata (p @ CHR ''|'' # v) = p @ ''|''"
  using assms by (simp add: preserve_only_gdpr_metadata_def)

section \<open>The loop over the fields\<close>

function field_loop ::
  "nat \<Rightarrow> (nat \<Rightarrow> string \<Rightarrow> 'a \<Rightarrow> 'a result) \<Rightarrow> string \<Rightarrow> nat \<Rightarrow> nat \<Rightarrow> 'a \<Rightarrow> ('a \<times> nat \<times> nat) result" where
  "field_loop limit body v start count acc =
     (if count < limit then
        (case find_from (CHR ''|'') v start of
           None \<Rightarrow> Inr (acc, start, count)
         | Some e \<Rightarrow>
             bind_result (substr_between v start (Some e)) (\<lambda>token.
             bind_result (body count token acc) (\<lambda>acc'.
               field_loop limit body v (e + 1) (count + 1) acc')))
      else Inr (acc, start, count))"
  by pat_completeness auto
termination
  by (relation "measure (\<lambda>(limit, body, v, start, count, acc). limit - count)") auto

declare field_loop.simps [simp del]

text \<open>The body run over a list of tokens, and the text the tokens come from.\<close>

fun run_fields :: "(nat \<Rightarrow> string \<Rightarrow> 'a \<Rightarrow> 'a result) \<Rightarrow> nat \<Rightarrow> string list \<Rightarrow> 'a \<Rightarrow> 'a result" where
  "run_fields body count [] acc = Inr acc"
| "run_fields body count (t # ts) acc =
     bind_result (body count t acc) (run_fields body (Suc count) ts)"

definition fields_text :: "string list \<Rightarrow> string" where
  "fields_text ts = concat (map (\<lambda>t. t @ ''|'') ts)"

abbreviation clean :: "string \<Rightarrow> bool" where
  "clean t \<equiv> CHR ''|'' \<notin> set t"

lemma fields_text_simps [simp]:
  "fields_text [] = []" "fields_text (t # ts) = t @ CHR ''|'' # fields_text ts"
  "fields_text (ts @ us) = fields_text ts @ fields_text us"
  by (simp_all add: fields_text_def)

lemma field_loop_fields_from:
  assumes "\<forall>t\<in>set ts. clean t"
    and "count + length ts = limit \<or> (count + length ts < limit \<and> clean rest)"
  shows "field_loop limit body (pre @ fields_text ts @ rest) (length pre) count acc =
    bind_result (run_fields body count ts acc)
      (\<lambda>a. Inr (a, length (pre @ fields_text ts), count + length ts))"
  using assms
proof (induction ts arbitrary: pre count acc)
  case Nil
  then show ?case by (auto simp: field_loop.simps [where count = count])
next
  case (Cons t ts)
  have more: "count < limit" using Cons.prems(2) by auto
  have found: "find_from (CHR ''|'') (pre @ fields_text (t # ts) @ rest) (length pre) = Some (length pre + length t)"
    using Cons.prems(1) by simp
  have step: "field_loop limit body (pre @ fields_text (t # ts) @ rest) (length pre) count acc =
    bind_result (body count t acc)
      (field_loop limit body (pre @ fields_text (t # ts) @ rest) (length pre + length t + 1) (count + 1))"
    using more substr_between_find [OF found] unfolding field_loop.simps [where count = count] found
    by (simp add: bind_result_def split: sum.splits)
  have IH: "field_loop limit body ((pre @ t @ ''|'') @ fields_text ts @ rest)
      (length (pre @ t @ ''|'')) (Suc count) a =
    bind_result (run_fields body (Suc count) ts a)
      (\<lambda>b. Inr (b, length ((pre @ t @ ''|'') @ fields_text ts), Suc count + length ts))" for a
    using Cons.prems by (intro Cons.IH) auto
  show ?case
    unfolding step using IH by (cases "body count t acc") (simp_all add: ac_simps)
qed

lemma field_loop_fields:
  assumes "\<forall>t\<in>set ts. clean t" and "length ts = limit \<or> (length ts < limit \<and> clean rest)"
  shows "field_loop limit body (fields_text ts @ rest) 0 0 acc =
    bind_result (run_fields body 0 ts acc) (\<lambda>a. Inr (a, length (fields_text ts), length ts))"
  using field_loop_fields_from [where pre = "[]" and count = 0] assms by simp

text \<open>Every text is of that form: at most \<open>n\<close> clean fields, then the rest.\<close>

lemma fields_text_exists:
  "\<exists>ts rest. s = fields_text ts @ rest \<and> (\<forall>t\<in>set ts. clean t) \<and>
     (length ts = n \<or> (length ts < n \<and> clean rest))"
proof (induction n arbitrary: s)
  case 0
  show ?case by (rule exI [of _ "[]"], rule exI [of _ s]) simp
next
  case (Suc n)
  show ?case
  proof (cases "clean s")
    case True
    then show ?thesis by (intro exI [of _ "[]"] exI [of _ s]) simp
  next
    case False
    then obtain t r where s: "s = t @ CHR ''|'' # r" "clean t" by (metis split_list_first)
    obtain ts rest where "r = fields_text ts @ rest" "\<forall>t\<in>set ts. clean t"
      "length ts = n \<or> (length ts < n \<and> clean rest)" using Suc.IH [of r] by blast
    with s show ?thesis by (intro exI [of _ "t # ts"] exI [of _ rest]) auto
  qed
qed

end
