(* ===== verification/Codec.thy ===== *)
theory Codec
  imports Gdpr_Metadata
begin

text \<open>
  The contract of an encoder and a decoder: on the values the encoder is meant for, decoding gives
  the value back. Every component that writes text or bytes for another component to read is
  an instance; this theory interprets it for the number and boolean conversions, the message and
  encryption theories for theirs. The client facts (injectivity, no confusion of encodings)
  are proved once here.
\<close>

locale codec =
  fixes encode :: "'a \<Rightarrow> string"
    and decode :: "string \<Rightarrow> 'a result"
    and valid :: "'a \<Rightarrow> bool"
  assumes decode_encode: "valid x \<Longrightarrow> decode (encode x) = Inr x"
begin

lemma encode_inj_on: "inj_on encode {x. valid x}"
  by (rule inj_onI) (metis decode_encode mem_Collect_eq sum.inject(2))

lemma encode_eq_iff: "valid x \<Longrightarrow> valid y \<Longrightarrow> encode x = encode y \<longleftrightarrow> x = y"
  by (metis decode_encode sum.inject(2))

lemma decode_encode_all:
  "\<forall>x\<in>set xs. valid x \<Longrightarrow> map decode (map encode xs) = map Inr xs"
  by (simp add: decode_encode)

end

interpretation int64_text: codec to_string stoll int64_range
  by unfold_locales simp

interpretation bitset_text: codec "\<lambda>w. to_string (uint w)" stoull "\<lambda>_. True"
  by unfold_locales simp

interpretation bool_text: codec bool_to_str str_to_bool "\<lambda>_. True"
  by unfold_locales (rule str_to_bool_to_str)

end
