(* ===== verification/Cipher_Engine.thy ===== *)
theory Cipher_Engine
  imports Codec
begin

text \<open>
  \<^verbatim>\<open>encryption/cipher_engine.hpp\<close>: AES-128-GCM encryption of stored values and log entries.

  OpenSSL is not part of the repository: its calls are the fields of the record \<open>openssl\<close>, one per
  call of the source, each returning \<open>None\<close> where the call reports failure. \<open>evp_seal\<close> and
  \<open>evp_open\<close> are the call sequences of \<^verbatim>\<open>encrypt\<close> and \<^verbatim>\<open>decrypt\<close>, \<open>encrypt\<close> and \<open>decrypt\<close> the two
  functions. The initialization vector \<^verbatim>\<open>RAND_bytes\<close> produces is an argument (\<open>None\<close> when the call
  fails). The container is \<^verbatim>\<open>iv (12) | mac (16) | length (4, little endian) | ciphertext\<close>;
  \<open>decrypt\<close> reads it without looking at the size of its input, so an input that ends too early is
  \<open>Undefined_behaviour\<close>.

  What the code relies on is the locale \<open>openssl_contract\<close>: a sealed text opens, under the same key
  and vector, to what was sealed. In it the container is a \<open>codec\<close>.
\<close>

datatype cipher_key_type = db_key | log_key | max_key

record cipher_engine =
  ce_db_key :: string
  ce_log_key :: string

record encrypt_result =
  er_ciphertext :: string
  er_success :: bool

record decrypt_result =
  dr_plaintext :: string
  dr_success :: bool

definition encryption_key_len :: nat where "encryption_key_len = 16"
definition initialization_vector_len :: nat where "initialization_vector_len = 12"
definition tag_len :: nat where "tag_len = 16"

definition default_engine :: cipher_engine where
  "default_engine =
     \<lparr>ce_db_key = ''012345678901234'' @ [CHR 0x00], ce_log_key = ''123401234567890'' @ [CHR 0x00]\<rparr>"

section \<open>Keys\<close>

definition get_encryption_key :: "cipher_engine \<Rightarrow> cipher_key_type \<Rightarrow> string option" where
  "get_encryption_key eng kt =
     (case kt of db_key \<Rightarrow> Some (ce_db_key eng) | log_key \<Rightarrow> Some (ce_log_key eng) | max_key \<Rightarrow> None)"

definition set_key :: "cipher_engine \<Rightarrow> cipher_key_type \<Rightarrow> string \<Rightarrow> cipher_engine" where
  "set_key eng kt k =
     (case kt of db_key \<Rightarrow> eng\<lparr>ce_db_key := k\<rparr> | log_key \<Rightarrow> eng\<lparr>ce_log_key := k\<rparr> | max_key \<Rightarrow> eng)"

definition init_encryption_key ::
  "cipher_engine \<Rightarrow> string \<Rightarrow> cipher_key_type \<Rightarrow> bool \<times> cipher_engine" where
  "init_encryption_key eng encryption_key kt =
     (if encryption_key \<noteq> [] then
        (case get_encryption_key eng kt of
           None \<Rightarrow> (False, eng)
         | Some _ \<Rightarrow>
             if length encryption_key \<noteq> encryption_key_len then (False, eng)
             else (True, set_key eng kt encryption_key))
      else (True, eng))"

definition engine_inv :: "cipher_engine \<Rightarrow> bool" where
  "engine_inv eng \<longleftrightarrow> length (ce_db_key eng) = encryption_key_len \<and> length (ce_log_key eng) = encryption_key_len"

section \<open>The calls into OpenSSL\<close>

record 'c openssl =
  ctx_new :: "'c option"
  encrypt_init :: "'c \<Rightarrow> string \<Rightarrow> string \<Rightarrow> 'c option"
  encrypt_update :: "'c \<Rightarrow> string \<Rightarrow> int \<Rightarrow> ('c \<times> string) option"
  encrypt_final :: "'c \<Rightarrow> ('c \<times> string) option"
  get_tag :: "'c \<Rightarrow> nat \<Rightarrow> string option"
  decrypt_init :: "'c \<Rightarrow> string \<Rightarrow> string \<Rightarrow> 'c option"
  decrypt_update :: "'c \<Rightarrow> string \<Rightarrow> int \<Rightarrow> ('c \<times> string) option"
  set_tag :: "'c \<Rightarrow> nat \<Rightarrow> string \<Rightarrow> 'c option"
  decrypt_final :: "'c \<Rightarrow> ('c \<times> string) option"

text \<open>\<^verbatim>\<open>static_cast<int>\<close> of a size, and the four bytes of an \<^verbatim>\<open>int\<close>.\<close>

definition int_of_size :: "nat \<Rightarrow> int" where
  "int_of_size n = to_signed 32 (n mod 2 ^ 32)"

definition evp_seal :: "'c openssl \<Rightarrow> string \<Rightarrow> string \<Rightarrow> string \<Rightarrow> (string \<times> string) option" where
  "evp_seal ossl key iv input =
     Option.bind (ctx_new ossl) (\<lambda>ctx.
     Option.bind (encrypt_init ossl ctx key iv) (\<lambda>ctx.
     Option.bind (encrypt_update ossl ctx input (int_of_size (length input))) (\<lambda>(ctx, c1).
     Option.bind (encrypt_final ossl ctx) (\<lambda>(ctx, c2).
     Option.bind (get_tag ossl ctx tag_len) (\<lambda>mac. Some (c1 @ c2, mac))))))"

definition evp_open :: "'c openssl \<Rightarrow> string \<Rightarrow> string \<Rightarrow> string \<Rightarrow> int \<Rightarrow> string \<Rightarrow> string option" where
  "evp_open ossl key iv input len mac =
     Option.bind (ctx_new ossl) (\<lambda>ctx.
     Option.bind (decrypt_init ossl ctx key iv) (\<lambda>ctx.
     Option.bind (decrypt_update ossl ctx input len) (\<lambda>(ctx, p1).
     Option.bind (set_tag ossl ctx tag_len mac) (\<lambda>ctx.
     Option.bind (decrypt_final ossl ctx) (\<lambda>(ctx, p2). Some (p1 @ p2))))))"

section \<open>encrypt and decrypt\<close>

definition container :: "string \<Rightarrow> string \<Rightarrow> string \<Rightarrow> string" where
  "container iv mac ct = iv @ mac @ le_bytes 4 (length ct) @ ct"

definition encrypt ::
  "'c openssl \<Rightarrow> cipher_engine \<Rightarrow> string option \<Rightarrow> string \<Rightarrow> cipher_key_type \<Rightarrow> encrypt_result" where
  "encrypt ossl eng iv input kt =
     (let failed = \<lparr>er_ciphertext = [], er_success = False\<rparr>
      in case get_encryption_key eng kt of
           None \<Rightarrow> failed
         | Some key \<Rightarrow>
             (case iv of
                None \<Rightarrow> failed
              | Some v \<Rightarrow>
                  (case evp_seal ossl key v input of
                     None \<Rightarrow> failed
                   | Some (ct, mac) \<Rightarrow> \<lparr>er_ciphertext = container v mac ct, er_success = True\<rparr>)))"

definition decrypt ::
  "'c openssl \<Rightarrow> cipher_engine \<Rightarrow> string \<Rightarrow> cipher_key_type \<Rightarrow> decrypt_result result" where
  "decrypt ossl eng ciphertext kt =
     (let failed = \<lparr>dr_plaintext = [], dr_success = False\<rparr>
      in case get_encryption_key eng kt of
           None \<Rightarrow> Inr failed
         | Some key \<Rightarrow>
             if length ciphertext < 32 then Inl Undefined_behaviour
             else
               let iv = take 12 ciphertext;
                   mac = take 16 (drop 12 ciphertext);
                   len = to_signed 32 (le_val (take 4 (drop 28 ciphertext)));
                   enc = drop 32 ciphertext
               in if int (length enc) < len then Inl Undefined_behaviour
                  else (case evp_open ossl key iv (take (nat len) enc) len mac of
                          None \<Rightarrow> Inr failed
                        | Some p \<Rightarrow> Inr \<lparr>dr_plaintext = p, dr_success = True\<rparr>))"

section \<open>Facts\<close>

lemma get_key_set_key [simp]:
  "get_encryption_key (set_key eng kt k) kt' =
     (if kt' = kt \<and> kt \<noteq> max_key then Some k else get_encryption_key eng kt')"
  by (cases kt; cases kt') (simp_all add: get_encryption_key_def set_key_def)

lemma get_key_length:
  "engine_inv eng \<Longrightarrow> get_encryption_key eng kt = Some k \<Longrightarrow> length k = encryption_key_len"
  by (auto simp: get_encryption_key_def engine_inv_def split: cipher_key_type.splits)

lemma container_parts:
  assumes "length iv = 12" "length mac = 16" "length ct < 2 ^ 31"
  shows "take 12 (container iv mac ct) = iv" "take 16 (drop 12 (container iv mac ct)) = mac"
    "to_signed 32 (le_val (take 4 (drop 28 (container iv mac ct)))) = int (length ct)"
    "drop 32 (container iv mac ct) = ct" "32 \<le> length (container iv mac ct)"
proof -
  have c: "container iv mac ct = (iv @ mac) @ le_bytes 4 (length ct) @ ct"
    "container iv mac ct = (iv @ mac @ le_bytes 4 (length ct)) @ ct" by (simp_all add: container_def)
  have "drop 28 (container iv mac ct) = le_bytes 4 (length ct) @ ct"
    using c(1) assms by (intro drop_prefix) auto
  then show "to_signed 32 (le_val (take 4 (drop 28 (container iv mac ct)))) = int (length ct)"
    using assms(3) by (simp add: to_signed_def)
  show "drop 32 (container iv mac ct) = ct" using c(2) assms by (intro drop_prefix) auto
  show "take 12 (container iv mac ct) = iv" "take 16 (drop 12 (container iv mac ct)) = mac"
    "32 \<le> length (container iv mac ct)" using assms by (simp_all add: container_def)
qed

text \<open>
  What the code relies on in OpenSSL, for keys of 16 and vectors of 12 bytes: sealing an input of
  less than \<open>2 ^ 31\<close> bytes yields a ciphertext of the same length and a 16-byte tag, and these open
  under the same key and vector to the input.
\<close>

locale openssl_contract =
  fixes ossl :: "'c openssl"
  assumes seal_open:
    "\<lbrakk>length key = encryption_key_len; length iv = initialization_vector_len; length input < 2 ^ 31;
      evp_seal ossl key iv input = Some (ct, mac)\<rbrakk> \<Longrightarrow>
     length ct = length input \<and> length mac = tag_len \<and>
     evp_open ossl key iv ct (int (length ct)) mac = Some input"
begin

lemma decrypt_encrypt:
  assumes "engine_inv eng" "length iv = initialization_vector_len" "length input < 2 ^ 31"
    and "er_success (encrypt ossl eng (Some iv) input kt)"
  shows "decrypt ossl eng (er_ciphertext (encrypt ossl eng (Some iv) input kt)) kt =
    Inr \<lparr>dr_plaintext = input, dr_success = True\<rparr>"
proof -
  from assms(4) obtain key ct mac where k: "get_encryption_key eng kt = Some key"
    and s: "evp_seal ossl key iv input = Some (ct, mac)"
    by (auto simp: encrypt_def Let_def split: option.splits)
  have e: "er_ciphertext (encrypt ossl eng (Some iv) input kt) = container iv mac ct"
    using k s by (simp add: encrypt_def)
  have l: "length ct = length input" "length mac = 16"
    and o: "evp_open ossl key iv ct (int (length ct)) mac = Some input"
    using seal_open [OF get_key_length [OF assms(1) k] assms(2,3) s] unfolding tag_len_def by blast+
  have iv: "length iv = 12" using assms(2) by (simp add: initialization_vector_len_def)
  have ct: "length ct < 2 ^ 31" using l assms(3) by simp
  show ?thesis
    unfolding e decrypt_def k Let_def container_parts [OF iv l(2) ct]
    using container_parts(5) [OF iv l(2) ct] o by simp
qed

end

text \<open>
  A concrete stand-in for the library, for the witnesses: the context is the data of the call
  sequence, the ciphertext is the plaintext and the tag is the key.
\<close>

definition plain_openssl :: "string openssl" where
  "plain_openssl =
     \<lparr>ctx_new = Some [],
      encrypt_init = (\<lambda>c key iv. Some key),
      encrypt_update = (\<lambda>c s len. Some (c, s)),
      encrypt_final = (\<lambda>c. Some (c, [])),
      get_tag = (\<lambda>c n. Some (take n c)),
      decrypt_init = (\<lambda>c key iv. Some key),
      decrypt_update = (\<lambda>c s len. Some (c, s)),
      set_tag = (\<lambda>c n t. if t = take n c then Some c else None),
      decrypt_final = (\<lambda>c. Some (c, []))\<rparr>"

interpretation plain_ossl: openssl_contract plain_openssl
  by unfold_locales
    (auto simp: plain_openssl_def evp_seal_def evp_open_def tag_len_def encryption_key_len_def)

end
