(* ===== verification/Kv_Client.thy ===== *)
theory Kv_Client
  imports Cipher_Engine
begin

text \<open>
  \<^verbatim>\<open>kv_client/kv_client.hpp\<close>: the interface of a key-value backend and the encrypting operations the
  controllers call.

  The virtual functions \<^verbatim>\<open>get\<close>, \<^verbatim>\<open>put\<close>, \<^verbatim>\<open>del\<close>, \<^verbatim>\<open>getm\<close> and \<^verbatim>\<open>putm\<close> are the fields of the record
  \<open>kv_backend\<close>, over a type of database states; a backend fills it with its overrides. The
  compile-time switch \<^verbatim>\<open>ENCRYPTION_ENABLED\<close> is the field \<open>ke_encryption\<close> of \<open>kv_env\<close>. The vector a
  call of \<^verbatim>\<open>encrypt\<close> draws is an argument of the two writing operations.

  Two interfaces are stated as locales. \<open>kv_contract\<close> is what a backend promises over the map of
  its stored pairs, and \<open>gdpr_store\<close> what the five \<^verbatim>\<open>gdpr_\<close> operations promise the controllers over
  the map of plaintext pairs. The two sublocales prove the second from the first, once without
  encryption and once with it.
\<close>

section \<open>Backends\<close>

record 'd kv_backend =
  kb_get :: "'d \<Rightarrow> string \<Rightarrow> string option result"
  kb_put :: "'d \<Rightarrow> string \<Rightarrow> string \<Rightarrow> (bool \<times> 'd) result"
  kb_del :: "'d \<Rightarrow> string \<Rightarrow> (bool \<times> 'd) result"
  kb_getm :: "'d \<Rightarrow> string \<Rightarrow> string option result"
  kb_putm :: "'d \<Rightarrow> string \<Rightarrow> string \<Rightarrow> (bool \<times> 'd) result"

record ('d, 'c) kv_env =
  ke_backend :: "'d kv_backend"
  ke_encryption :: bool
  ke_ossl :: "'c openssl"
  ke_engine :: cipher_engine

section \<open>The operations of the controllers\<close>

definition decrypted :: "('d, 'c) kv_env \<Rightarrow> string option \<Rightarrow> string option result" where
  "decrypted env encrypted_value =
     (case encrypted_value of
        None \<Rightarrow> Inr None
      | Some c \<Rightarrow> bind_result (decrypt (ke_ossl env) (ke_engine env) c db_key)
          (\<lambda>r. Inr (if dr_success r then Some (dr_plaintext r) else None)))"

definition gdpr_get :: "('d, 'c) kv_env \<Rightarrow> 'd \<Rightarrow> string \<Rightarrow> string option result" where
  "gdpr_get env d key =
     (if \<not> ke_encryption env then kb_get (ke_backend env) d key
      else bind_result (kb_get (ke_backend env) d key) (decrypted env))"

text \<open>
  A key is reported as not there in two cases: the backend has nothing under it, or, with encryption,
  what it has does not decrypt.
\<close>

definition absent :: "('d, 'c) kv_env \<Rightarrow> 'd \<Rightarrow> string \<Rightarrow> bool" where
  "absent env d key \<longleftrightarrow> kb_get (ke_backend env) d key = Inr None"

definition undecryptable :: "('d, 'c) kv_env \<Rightarrow> 'd \<Rightarrow> string \<Rightarrow> bool" where
  "undecryptable env d key \<longleftrightarrow> ke_encryption env \<and>
     (\<exists>c r. kb_get (ke_backend env) d key = Inr (Some c) \<and> decrypt (ke_ossl env) (ke_engine env) c db_key = Inr r \<and>
        \<not> dr_success r)"

lemma gdpr_get_None: "gdpr_get env d key = Inr None \<longleftrightarrow> absent env d key \<or> undecryptable env d key"
  by (auto simp: gdpr_get_def absent_def undecryptable_def decrypted_def bind_result_eq_Inr_iff
      split: option.splits if_splits)

definition gdpr_put ::
  "('d, 'c) kv_env \<Rightarrow> string option \<Rightarrow> 'd \<Rightarrow> string \<Rightarrow> string \<Rightarrow> (bool \<times> 'd) result" where
  "gdpr_put env iv d key v =
     (if \<not> ke_encryption env then kb_put (ke_backend env) d key v
      else let r = encrypt (ke_ossl env) (ke_engine env) iv v db_key
           in if er_success r then kb_put (ke_backend env) d key (er_ciphertext r) else Inr (False, d))"

definition gdpr_del :: "('d, 'c) kv_env \<Rightarrow> 'd \<Rightarrow> string \<Rightarrow> (bool \<times> 'd) result" where
  "gdpr_del env d key = kb_del (ke_backend env) d key"

definition gdpr_getm :: "('d, 'c) kv_env \<Rightarrow> 'd \<Rightarrow> string \<Rightarrow> string option result" where
  "gdpr_getm env d key =
     (if \<not> ke_encryption env then kb_getm (ke_backend env) d key
      else bind_result (kb_getm (ke_backend env) d key) (decrypted env))"

definition gdpr_putm ::
  "('d, 'c) kv_env \<Rightarrow> string option \<Rightarrow> 'd \<Rightarrow> string \<Rightarrow> string \<Rightarrow> (bool \<times> 'd) result" where
  "gdpr_putm env iv d key v =
     (if \<not> ke_encryption env then kb_putm (ke_backend env) d key v
      else let r = encrypt (ke_ossl env) (ke_engine env) iv v db_key
           in if er_success r then kb_put (ke_backend env) d key (er_ciphertext r) else Inr (False, d))"

section \<open>What a backend promises\<close>

text \<open>
  \<open>view d\<close> is the map of the stored pairs. The laws bind the backend only for the keys and values it
  can carry, and a write may be refused or may raise; what it must not do is to report success
  without the effect or a refusal with one.
\<close>

locale kv_contract =
  fixes be :: "'d kv_backend"
    and view :: "'d \<Rightarrow> string \<rightharpoonup> string"
    and inv :: "'d \<Rightarrow> bool"
    and key_ok :: "string \<Rightarrow> bool"
    and val_ok :: "string \<Rightarrow> bool"
  assumes get_law: "\<lbrakk>inv d; key_ok k\<rbrakk> \<Longrightarrow> kb_get be d k = Inr (view d k)"
    and getm_law: "\<lbrakk>inv d; key_ok k\<rbrakk> \<Longrightarrow> kb_getm be d k = Inr (view d k)"
    and put_law: "\<lbrakk>inv d; key_ok k; val_ok v; kb_put be d k v = Inr (b, d')\<rbrakk> \<Longrightarrow>
        inv d' \<and> view d' = (if b then (view d)(k \<mapsto> v) else view d)"
    and del_law: "\<lbrakk>inv d; key_ok k; kb_del be d k = Inr (b, d')\<rbrakk> \<Longrightarrow>
        inv d' \<and> view d' = (if b then (view d)(k := None) else view d)"

locale kv_contract_m = kv_contract +
  assumes putm_law: "\<lbrakk>inv d; key_ok k; val_ok v; kb_putm be d k v = Inr (b, d')\<rbrakk> \<Longrightarrow>
        inv d' \<and> view d' = (if b then (view d)(k \<mapsto> v) else view d)"

section \<open>What the controllers rely on\<close>

locale gdpr_store =
  fixes env :: "('d, 'c) kv_env"
    and pairs :: "'d \<Rightarrow> string \<rightharpoonup> string"
    and store_inv :: "'d \<Rightarrow> bool"
    and store_key :: "string \<Rightarrow> bool"
    and store_val :: "string \<Rightarrow> bool"
  assumes gget: "\<lbrakk>store_inv d; store_key k\<rbrakk> \<Longrightarrow> gdpr_get env d k = Inr (pairs d k)"
    and ggetm: "\<lbrakk>store_inv d; store_key k\<rbrakk> \<Longrightarrow> gdpr_getm env d k = Inr (pairs d k)"
    and gput: "\<lbrakk>store_inv d; store_key k; store_val v; length iv = initialization_vector_len;
        gdpr_put env (Some iv) d k v = Inr (b, d')\<rbrakk> \<Longrightarrow>
        store_inv d' \<and> pairs d' = (if b then (pairs d)(k \<mapsto> v) else pairs d)"
    and gputm: "\<lbrakk>store_inv d; store_key k; store_val v; length iv = initialization_vector_len;
        gdpr_putm env (Some iv) d k v = Inr (b, d')\<rbrakk> \<Longrightarrow>
        store_inv d' \<and> pairs d' = (if b then (pairs d)(k \<mapsto> v) else pairs d)"
    and gdel: "\<lbrakk>store_inv d; store_key k; gdpr_del env d k = Inr (b, d')\<rbrakk> \<Longrightarrow>
        store_inv d' \<and> pairs d' = (if b then (pairs d)(k := None) else pairs d)"
begin

lemma put_get:
  "\<lbrakk>store_inv d; store_key k; store_val v; length iv = initialization_vector_len;
    gdpr_put env (Some iv) d k v = Inr (True, d')\<rbrakk> \<Longrightarrow> gdpr_get env d' k = Inr (Some v)"
  using gget gput by fastforce

lemma put_get_other:
  "\<lbrakk>store_inv d; store_key k; store_key k'; k' \<noteq> k; store_val v; length iv = initialization_vector_len;
    gdpr_put env (Some iv) d k v = Inr (b, d')\<rbrakk> \<Longrightarrow> gdpr_get env d' k' = gdpr_get env d k'"
  by (metis (no_types, lifting) fun_upd_other gget gput)

lemma del_get:
  "\<lbrakk>store_inv d; store_key k; gdpr_del env d k = Inr (True, d')\<rbrakk> \<Longrightarrow> gdpr_get env d' k = Inr None"
  using gget gdel by fastforce

end

section \<open>The store without encryption\<close>

definition plain_env :: "'d kv_backend \<Rightarrow> ('d, 'c) kv_env \<Rightarrow> ('d, 'c) kv_env" where
  "plain_env be env = env\<lparr>ke_backend := be, ke_encryption := False\<rparr>"

sublocale kv_contract_m \<subseteq> plain: gdpr_store "plain_env be env" view inv key_ok val_ok
  for env :: "('a, 'c) kv_env"
proof unfold_locales
  fix d k
  assume "inv d" "key_ok k"
  then show "gdpr_get (plain_env be env) d k = Inr (view d k)"
    and "gdpr_getm (plain_env be env) d k = Inr (view d k)"
    by (simp_all add: plain_env_def gdpr_get_def gdpr_getm_def get_law getm_law)
next
  fix d k b d'
  assume "inv d" "key_ok k" "gdpr_del (plain_env be env) d k = Inr (b, d')"
  then show "inv d' \<and> view d' = (if b then (view d)(k := None) else view d)"
    using del_law [of d k b d'] by (simp add: plain_env_def gdpr_del_def)
next
  fix d k v iv b d'
  assume k: "inv d" "key_ok k" "val_ok v"
  show "inv d' \<and> view d' = (if b then (view d)(k \<mapsto> v) else view d)"
    if "gdpr_put (plain_env be env) (Some iv) d k v = Inr (b, d')"
    using put_law [OF k, of b d'] that by (simp add: plain_env_def gdpr_put_def)
  show "inv d' \<and> view d' = (if b then (view d)(k \<mapsto> v) else view d)"
    if "gdpr_putm (plain_env be env) (Some iv) d k v = Inr (b, d')"
    using putm_law [OF k, of b d'] that by (simp add: plain_env_def gdpr_putm_def)
qed

section \<open>The store with encryption\<close>

definition sealed_env :: "'d kv_backend \<Rightarrow> 'c openssl \<Rightarrow> cipher_engine \<Rightarrow> ('d, 'c) kv_env" where
  "sealed_env be ossl eng =
     \<lparr>ke_backend = be, ke_encryption = True, ke_ossl = ossl, ke_engine = eng\<rparr>"

definition opened :: "'c openssl \<Rightarrow> cipher_engine \<Rightarrow> string \<Rightarrow> string option" where
  "opened ossl eng c =
     (case decrypt ossl eng c db_key of
        Inr r \<Rightarrow> if dr_success r then Some (dr_plaintext r) else None
      | Inl _ \<Rightarrow> None)"

definition sealed_view ::
  "'c openssl \<Rightarrow> cipher_engine \<Rightarrow> ('d \<Rightarrow> string \<rightharpoonup> string) \<Rightarrow> 'd \<Rightarrow> string \<rightharpoonup> string" where
  "sealed_view ossl eng view d k = Option.bind (view d k) (opened ossl eng)"

text \<open>Every stored text can be read by \<^verbatim>\<open>decrypt\<close> without leaving its bounds.\<close>

definition readable ::
  "'c openssl \<Rightarrow> cipher_engine \<Rightarrow> ('d \<Rightarrow> string \<rightharpoonup> string) \<Rightarrow> 'd \<Rightarrow> bool" where
  "readable ossl eng view d \<longleftrightarrow> (\<forall>k c. view d k = Some c \<longrightarrow> (\<exists>r. decrypt ossl eng c db_key = Inr r))"

locale sealed_kv = kv_contract be view inv key_ok val_ok + openssl_contract ossl
  for be :: "'d kv_backend" and view inv key_ok val_ok and ossl :: "'c openssl" +
  fixes eng :: cipher_engine
  assumes keys: "engine_inv eng"
    and sealed_val_ok: "32 \<le> length c \<Longrightarrow> length c < 2 ^ 30 \<Longrightarrow> val_ok c"
begin

lemma decrypted_view:
  assumes "readable ossl eng view d"
  shows "decrypted (sealed_env be ossl eng) (view d k) = Inr (sealed_view ossl eng view d k)"
proof (cases "view d k")
  case (Some c)
  with assms obtain r where "decrypt ossl eng c db_key = Inr r" by (auto simp: readable_def)
  with Some show ?thesis by (simp add: decrypted_def sealed_env_def sealed_view_def opened_def)
qed (simp add: decrypted_def sealed_view_def)

lemma encrypt_stored:
  assumes "length v < 2 ^ 29" "length iv = initialization_vector_len"
    and s: "er_success (encrypt ossl eng (Some iv) v db_key)"
  shows "val_ok (er_ciphertext (encrypt ossl eng (Some iv) v db_key))"
    and "opened ossl eng (er_ciphertext (encrypt ossl eng (Some iv) v db_key)) = Some v"
    and "\<exists>r. decrypt ossl eng (er_ciphertext (encrypt ossl eng (Some iv) v db_key)) db_key = Inr r"
proof -
  let ?c = "er_ciphertext (encrypt ossl eng (Some iv) v db_key)"
  from s obtain key ct mac where k: "get_encryption_key eng db_key = Some key"
    and se: "evp_seal ossl key iv v = Some (ct, mac)"
    by (auto simp: encrypt_def Let_def split: option.splits)
  have v31: "length v < 2 ^ 31" using assms(1) by simp
  have "length ct = length v" "length mac = 16"
    using seal_open [OF get_key_length [OF keys k] assms(2) v31 se] by (simp_all add: tag_len_def)
  moreover have "?c = container iv mac ct" using k se by (simp add: encrypt_def)
  ultimately have "32 \<le> length ?c" "length ?c < 2 ^ 30"
    using assms(1,2) by (simp_all add: container_def initialization_vector_len_def)
  then show "val_ok ?c" by (rule sealed_val_ok)
  show "opened ossl eng ?c = Some v" "\<exists>r. decrypt ossl eng ?c db_key = Inr r"
    using decrypt_encrypt [OF keys assms(2) v31 s] by (simp_all add: opened_def)
qed

lemma gdpr_put_sealed:
  assumes d: "inv d" "readable ossl eng view d" and k: "key_ok k"
    and v: "length v < 2 ^ 29" "length iv = initialization_vector_len"
    and p: "gdpr_put (sealed_env be ossl eng) (Some iv) d k v = Inr (b, d')"
  shows "(inv d' \<and> readable ossl eng view d') \<and>
    sealed_view ossl eng view d' =
      (if b then (sealed_view ossl eng view d)(k \<mapsto> v) else sealed_view ossl eng view d)"
proof (cases "er_success (encrypt ossl eng (Some iv) v db_key)")
  case True
  let ?c = "er_ciphertext (encrypt ossl eng (Some iv) v db_key)"
  from True p have put: "kb_put be d k ?c = Inr (b, d')"
    by (simp add: gdpr_put_def sealed_env_def)
  note c = encrypt_stored [OF v True]
  from put_law [OF d(1) k c(1) put]
  have "inv d'" "view d' = (if b then (view d)(k \<mapsto> ?c) else view d)" by blast+
  then show ?thesis using c(2,3) d(2)
    by (auto simp: readable_def sealed_view_def fun_eq_iff)
next
  case False
  with p d show ?thesis by (simp add: gdpr_put_def sealed_env_def)
qed

lemma gdpr_putm_sealed_eq:
  "gdpr_putm (sealed_env be ossl eng) = gdpr_put (sealed_env be ossl eng)"
  by (simp add: fun_eq_iff gdpr_putm_def gdpr_put_def sealed_env_def)

lemma gdpr_del_sealed:
  assumes d: "inv d" "readable ossl eng view d" and k: "key_ok k"
    and p: "gdpr_del (sealed_env be ossl eng) d k = Inr (b, d')"
  shows "(inv d' \<and> readable ossl eng view d') \<and>
    sealed_view ossl eng view d' =
      (if b then (sealed_view ossl eng view d)(k := None) else sealed_view ossl eng view d)"
proof -
  have "kb_del be d k = Inr (b, d')" using p by (simp add: gdpr_del_def sealed_env_def)
  from del_law [OF d(1) k this]
  have "inv d'" "view d' = (if b then (view d)(k := None) else view d)" by blast+
  then show ?thesis using d(2) by (auto simp: readable_def sealed_view_def fun_eq_iff)
qed

end

sublocale sealed_kv \<subseteq> sealed: gdpr_store "sealed_env be ossl eng" "sealed_view ossl eng view"
  "\<lambda>d. inv d \<and> readable ossl eng view d" key_ok "\<lambda>v. length v < 2 ^ 29"
proof unfold_locales
  fix d k
  assume "inv d \<and> readable ossl eng view d" "key_ok k"
  then show "gdpr_get (sealed_env be ossl eng) d k = Inr (sealed_view ossl eng view d k)"
    and "gdpr_getm (sealed_env be ossl eng) d k = Inr (sealed_view ossl eng view d k)"
    using get_law [of d k] getm_law [of d k] decrypted_view [of d k]
    by (simp_all add: gdpr_get_def gdpr_getm_def) (simp_all add: sealed_env_def)
next
  fix d k b d'
  assume "inv d \<and> readable ossl eng view d" "key_ok k" "gdpr_del (sealed_env be ossl eng) d k = Inr (b, d')"
  then show "(inv d' \<and> readable ossl eng view d') \<and> sealed_view ossl eng view d' =
      (if b then (sealed_view ossl eng view d)(k := None) else sealed_view ossl eng view d)"
    by (intro gdpr_del_sealed) auto
next
  fix d k b d' and v iv :: string
  assume d: "inv d \<and> readable ossl eng view d" and k: "key_ok k" and v: "length v < 2 ^ 29"
    and iv: "length iv = initialization_vector_len"
  show *: "(inv d' \<and> readable ossl eng view d') \<and> sealed_view ossl eng view d' =
      (if b then (sealed_view ossl eng view d)(k \<mapsto> v) else sealed_view ossl eng view d)"
    if "gdpr_put (sealed_env be ossl eng) (Some iv) d k v = Inr (b, d')"
    using d k v iv that by (intro gdpr_put_sealed) auto
  show "(inv d' \<and> readable ossl eng view d') \<and> sealed_view ossl eng view d' =
      (if b then (sealed_view ossl eng view d)(k \<mapsto> v) else sealed_view ossl eng view d)"
    if "gdpr_putm (sealed_env be ossl eng) (Some iv) d k v = Inr (b, d')"
    using that unfolding gdpr_putm_sealed_eq by (rule *)
qed

section \<open>Stores that always answer\<close>

text \<open>
  A backend whose writes return, with whatever status, for every key and value it can carry; the
  encrypting operations over it then return as well.
\<close>

locale kv_contract_live = kv_contract +
  assumes put_returns: "\<lbrakk>inv d; key_ok k; val_ok v\<rbrakk> \<Longrightarrow> \<exists>b d'. kb_put be d k v = Inr (b, d')"
    and del_returns: "\<lbrakk>inv d; key_ok k\<rbrakk> \<Longrightarrow> \<exists>b d'. kb_del be d k = Inr (b, d')"

locale gdpr_store_live = gdpr_store +
  assumes gput_returns: "\<lbrakk>store_inv d; store_key k; store_val v; length iv = initialization_vector_len\<rbrakk> \<Longrightarrow>
        \<exists>b d'. gdpr_put env (Some iv) d k v = Inr (b, d')"
    and gputm_returns: "\<lbrakk>store_inv d; store_key k; store_val v; length iv = initialization_vector_len\<rbrakk> \<Longrightarrow>
        \<exists>b d'. gdpr_putm env (Some iv) d k v = Inr (b, d')"
    and gdel_returns: "\<lbrakk>store_inv d; store_key k\<rbrakk> \<Longrightarrow> \<exists>b d'. gdpr_del env d k = Inr (b, d')"

locale sealed_kv_live = sealed_kv be view inv key_ok val_ok ossl eng + kv_contract_live be view inv key_ok val_ok
  for be :: "'d kv_backend" and view inv key_ok val_ok and ossl :: "'c openssl" and eng
begin

lemma gdpr_put_returns:
  assumes "inv d" "key_ok k" "length v < 2 ^ 29" "length iv = initialization_vector_len"
  shows "\<exists>b d'. gdpr_put (sealed_env be ossl eng) (Some iv) d k v = Inr (b, d')"
proof (cases "er_success (encrypt ossl eng (Some iv) v db_key)")
  case True
  from put_returns [OF assms(1,2) encrypt_stored(1) [OF assms(3,4) True]] True
  show ?thesis by (simp add: gdpr_put_def sealed_env_def)
qed (auto simp: gdpr_put_def sealed_env_def)

end

sublocale sealed_kv_live \<subseteq> sealed_live: gdpr_store_live "sealed_env be ossl eng" "sealed_view ossl eng view"
  "\<lambda>d. inv d \<and> readable ossl eng view d" key_ok "\<lambda>v. length v < 2 ^ 29"
proof unfold_locales
  fix d k and v iv :: string
  assume d: "inv d \<and> readable ossl eng view d" and k: "key_ok k"
  show "\<exists>b d'. gdpr_del (sealed_env be ossl eng) d k = Inr (b, d')"
    using del_returns [of d k] d k by (simp add: gdpr_del_def sealed_env_def)
  assume v: "length v < 2 ^ 29" and iv: "length iv = initialization_vector_len"
  show "\<exists>b d'. gdpr_put (sealed_env be ossl eng) (Some iv) d k v = Inr (b, d')"
    and "\<exists>b d'. gdpr_putm (sealed_env be ossl eng) (Some iv) d k v = Inr (b, d')"
    using gdpr_put_returns [of d k v iv] d k v iv unfolding gdpr_putm_sealed_eq by auto
qed

text \<open>The same without encryption.\<close>

locale kv_contract_m_live = kv_contract_m + kv_contract_live +
  assumes putm_returns: "\<lbrakk>inv d; key_ok k; val_ok v\<rbrakk> \<Longrightarrow> \<exists>b d'. kb_putm be d k v = Inr (b, d')"

sublocale kv_contract_m_live \<subseteq> plain_live: gdpr_store_live "plain_env be env" view inv key_ok val_ok
  for env :: "('a, 'c) kv_env"
proof unfold_locales
  fix d k and v iv :: string
  assume d: "inv d" and k: "key_ok k"
  show "\<exists>b d'. gdpr_del (plain_env be env) d k = Inr (b, d')"
    using del_returns [OF d k] by (simp add: plain_env_def gdpr_del_def)
  assume v: "val_ok v" and "length iv = initialization_vector_len"
  show "\<exists>b d'. gdpr_put (plain_env be env) (Some iv) d k v = Inr (b, d')"
    and "\<exists>b d'. gdpr_putm (plain_env be env) (Some iv) d k v = Inr (b, d')"
    using put_returns [OF d k v] putm_returns [OF d k v] by (simp_all add: plain_env_def gdpr_put_def gdpr_putm_def)
qed

end
