(* ===== verification/Query.thy ===== *)
theory Query
  imports Gdpr_Metadata
begin

text \<open>
  \<^verbatim>\<open>query.hpp\<close> and \<^verbatim>\<open>query.cpp\<close>: the parser of a client request such as
  \<^verbatim>\<open>query(put("key","value"))&sessionKey("user1")&objPur("purpose0,purpose1")\<close>.

  The record \<open>query\<close> has the members of the class \<^verbatim>\<open>query\<close> (\<^verbatim>\<open>m_cmd\<close> is \<open>q_cmd\<close>, and so on); the
  getters of the class are its selectors. \<open>query_of_input\<close> is the constructor that parses: it cuts
  the input at every \<^verbatim>\<open>&\<close> and hands each part to \<open>process_predicate\<close>. What the constructor throws
  is the error of the result. The lemmas give the parser's result on every request of the
  documented shape (\<open>query_of_input_predicates\<close>, \<open>process_predicate_query\<close>,
  \<open>process_predicate_option\<close>) and on malformed ones.
\<close>

record query =
  q_cmd :: string
  q_key :: string
  q_value :: string
  q_user_key :: "string option"
  q_purpose :: "64 word option"
  q_objection :: "64 word option"
  q_origin :: "string option"
  q_expiration :: "int option"
  q_share :: "string option"
  q_monitor :: "bool option"
  q_cond_purpose :: "64 word"
  q_cond_objection :: "64 word"
  q_cond_origin :: string
  q_cond_expiration :: int
  q_cond_share :: string
  q_cond_monitor :: bool
  q_log_key :: string

definition policy_predicates :: "string list" where
  "policy_predicates =
     [''eq'', ''le'', ''lt'', ''ge'', ''gt'', ''sessionKey'', ''sessionKeyIs'', ''objExp'', ''objExpIs'',
      ''objPur'', ''objPurIs'', ''objOrig'', ''objOrigIs'', ''objShare'', ''objShareIs'',
      ''objObjections'', ''objObjectionsIs'', ''objOwner'', ''objOwnerIs'', ''monitor'', ''query'']"

definition empty_query :: query where
  "empty_query =
     \<lparr>q_cmd = [], q_key = [], q_value = [], q_user_key = None, q_purpose = None, q_objection = None,
      q_origin = None, q_expiration = None, q_share = None, q_monitor = None, q_cond_purpose = 0,
      q_cond_objection = 0, q_cond_origin = [], q_cond_expiration = 0, q_cond_share = [],
      q_cond_monitor = False, q_log_key = []\<rparr>"

text \<open>The constructor of the performance test, and the line \<^verbatim>\<open>print\<close> writes.\<close>

definition query_of_parts :: "string \<Rightarrow> string \<Rightarrow> string \<Rightarrow> query" where
  "query_of_parts user_key key cmd = empty_query\<lparr>q_cmd := cmd, q_key := key, q_user_key := Some user_key\<rparr>"

definition query_print :: "query \<Rightarrow> string" where
  "query_print q = q_cmd q @ '' '' @ q_key q @ '' '' @ q_value q @ [CHR 0x0A]"

section \<open>The command\<close>

definition extract_key :: "string \<Rightarrow> string result" where
  "extract_key q =
     (let open_quote = find_from (CHR 0x22) q 0;
          close_quote = find_from (CHR 0x22) q (after open_quote)
      in case (open_quote, close_quote) of
           (Some a, Some b) \<Rightarrow> if b \<le> a then Inr [] else substr q (a + 1) (b - a - 1)
         | _ \<Rightarrow> Inr [])"

definition extract_value :: "string \<Rightarrow> string result" where
  "extract_value q =
     (let first_quote = find_from (CHR 0x22) q 0;
          second_quote = find_from (CHR 0x22) q (after first_quote);
          third_quote = find_from (CHR 0x22) q (after second_quote);
          fourth_quote = find_from (CHR 0x22) q (after third_quote)
      in case (first_quote, second_quote, third_quote, fourth_quote) of
           (Some _, Some _, Some c, Some d) \<Rightarrow>
             if d \<le> c then Inr [] else substr q (c + 1) (d - c - 1)
         | _ \<Rightarrow> Inr [])"

definition parse_query :: "query \<Rightarrow> string \<Rightarrow> query result" where
  "parse_query q reg_query_args =
     (if q_cmd q = ''getlogs'' then
        bind_result (extract_key reg_query_args) (\<lambda>k. Inr (q\<lparr>q_log_key := k\<rparr>))
      else if q_cmd q = ''put'' then
        bind_result (extract_value reg_query_args) (\<lambda>v.
        bind_result (extract_key reg_query_args) (\<lambda>k. Inr (q\<lparr>q_value := v, q_key := k\<rparr>)))
      else
        bind_result (extract_key reg_query_args) (\<lambda>k. Inr (q\<lparr>q_key := k\<rparr>)))"

section \<open>The options\<close>

definition parse_option :: "query \<Rightarrow> string \<Rightarrow> string \<Rightarrow> query result" where
  "parse_option q opt v =
     (if opt = ''sessionKey'' then Inr (q\<lparr>q_user_key := Some v\<rparr>)
      else if opt = ''objOrig'' then Inr (q\<lparr>q_origin := Some v\<rparr>)
      else if opt = ''objShare'' then Inr (q\<lparr>q_share := Some v\<rparr>)
      else if opt = ''objExp'' then
        bind_result (stoi v) (\<lambda>n. Inr (q\<lparr>q_expiration := Some n\<rparr>))
      else if opt = ''objPur'' then
        bind_result (split_comma_string v) (\<lambda>ks. Inr (q\<lparr>q_purpose := Some (set_bitmap 0 ks)\<rparr>))
      else if opt = ''objObjections'' then
        bind_result (split_comma_string v) (\<lambda>ks. Inr (q\<lparr>q_objection := Some (set_bitmap 0 ks)\<rparr>))
      else if opt = ''monitor'' then
        bind_result (str_to_bool v) (\<lambda>b. Inr (q\<lparr>q_monitor := Some b\<rparr>))
      else if opt = ''objOrigIs'' then Inr (q\<lparr>q_cond_origin := v\<rparr>)
      else if opt = ''objShareIs'' then Inr (q\<lparr>q_cond_share := v\<rparr>)
      else if opt = ''objExpIs'' then
        bind_result (stoi v) (\<lambda>n. Inr (q\<lparr>q_cond_expiration := n\<rparr>))
      else if opt = ''objPurIs'' then
        bind_result (split_comma_string v)
          (\<lambda>ks. Inr (q\<lparr>q_cond_purpose := set_bitmap (q_cond_purpose q) ks\<rparr>))
      else if opt = ''objObjectionsIs'' then
        bind_result (split_comma_string v)
          (\<lambda>ks. Inr (q\<lparr>q_cond_objection := set_bitmap (q_cond_objection q) ks\<rparr>))
      else if opt = ''monitorIs'' then
        bind_result (str_to_bool v) (\<lambda>b. Inr (q\<lparr>q_cond_monitor := b\<rparr>))
      else Inl (Invalid_argument (''Error: predicate '' @ opt @ '' not supported.'')))"

definition supported_options :: "string list" where
  "supported_options =
     [''sessionKey'', ''objOrig'', ''objShare'', ''objExp'', ''objPur'', ''objObjections'', ''monitor'',
      ''objOrigIs'', ''objShareIs'', ''objExpIs'', ''objPurIs'', ''objObjectionsIs'', ''monitorIs'']"

section \<open>Predicates and the whole request\<close>

text \<open>
  \<^verbatim>\<open>pred_val.substr(1, pred_val.length() - 2)\<close>: the unsigned subtraction wraps for a text shorter than
  two bytes, and the substring then runs to the end.
\<close>

definition strip_quotes :: "string \<Rightarrow> string result" where
  "strip_quotes s = (if 2 \<le> length s then substr s 1 (length s - 2) else substr_from s 1)"

definition process_predicate :: "query \<Rightarrow> string \<Rightarrow> query result" where
  "process_predicate q predicate =
     (let pred_attr_end = find_from (CHR ''('') predicate 0;
          pred_val_end = find_last_of (CHR '')'') predicate
      in bind_result (substr_between predicate 0 pred_attr_end) (\<lambda>pred_attr.
         bind_result (substr_between predicate (after pred_attr_end) pred_val_end) (\<lambda>pred_val.
         if pred_attr = ''query'' then
           bind_result (substr_between pred_val 0 (find_from (CHR ''('') pred_val 0)) (\<lambda>cmd.
           let q' = q\<lparr>q_cmd := map to_lower cmd\<rparr>
           in if q_cmd q' = ''exit'' then Inr q' else parse_query q' pred_val)
         else
           bind_result (strip_quotes pred_val) (parse_option q pred_attr))))"

function query_loop :: "string \<Rightarrow> nat \<Rightarrow> query \<Rightarrow> query result" where
  "query_loop input start q =
     (case find_from (CHR ''&'') input start of
        None \<Rightarrow> bind_result (substr_from input start) (process_predicate q)
      | Some pos \<Rightarrow>
          bind_result (substr_between input start (Some pos)) (\<lambda>p.
          bind_result (process_predicate q p) (\<lambda>q'. query_loop input (pos + 1) q')))"
  by pat_completeness auto
termination
proof (relation "measure (\<lambda>(input, start, q). length input - start)", goal_cases)
  case (2 input start q pos p q')
  then show ?case using find_from_SomeD(1,2) [OF 2(1)] by simp
qed simp

declare query_loop.simps [simp del]

definition query_of_input :: "string \<Rightarrow> query result" where
  "query_of_input input = query_loop input 0 empty_query"

section \<open>Facts about the parser\<close>

text \<open>The request is the list of its predicates, each processed in turn.\<close>

fun process_all :: "query \<Rightarrow> string list \<Rightarrow> query result" where
  "process_all q [] = Inr q"
| "process_all q (p # ps) = bind_result (process_predicate q p) (\<lambda>q'. process_all q' ps)"

lemma query_loop_split_on:
  "start \<le> length input \<Longrightarrow>
     query_loop input start q = process_all q (split_on (CHR ''&'') (drop start input))"
proof (induction input start q rule: query_loop.induct)
  case (1 input start q)
  show ?case
  proof (cases "find_from (CHR ''&'') input start")
    case None
    then have "index_of (CHR ''&'') (drop start input) = None" by (simp add: find_from_def)
    with None 1(2) show ?thesis
      by (cases "process_predicate q (drop start input)")
        (simp_all add: query_loop.simps [of input start] split_on_index_None)
  next
    case (Some e)
    note e = find_from_SomeD [OF Some]
    have IH: "process_predicate q (take (e - start) (drop start input)) = Inr q' \<Longrightarrow>
      query_loop input (e + 1) q' = process_all q' (split_on (CHR ''&'') (drop (e + 1) input))" for q'
      using "1.IH" [OF Some] substr_between_find [OF Some] e(2) by simp
    show ?thesis
      using IH Some e split_on_index_Some [OF e(3)]
      by (cases "process_predicate q (take (e - start) (drop start input))")
        (simp_all add: query_loop.simps [of input start])
  qed
qed

lemma query_of_input_split: "query_of_input s = process_all empty_query (split_on (CHR ''&'') s)"
  by (simp add: query_of_input_def query_loop_split_on)

lemma query_of_input_predicates:
  "ps \<noteq> [] \<Longrightarrow> \<forall>p\<in>set ps. CHR ''&'' \<notin> set p \<Longrightarrow>
     query_of_input (join_with (CHR ''&'') ps) = process_all empty_query ps"
  by (simp add: query_of_input_split split_join_on)

lemma process_all_append:
  "process_all q (ps @ rs) = bind_result (process_all q ps) (\<lambda>q'. process_all q' rs)"
proof (induction ps arbitrary: q)
  case (Cons p ps)
  then show ?case by (cases "process_predicate q p") simp_all
qed simp

text \<open>An attribute and an argument between the outermost parentheses.\<close>

lemma predicate_parts:
  assumes "CHR ''('' \<notin> set attr"
  shows "find_from (CHR ''('') (attr @ CHR ''('' # arg @ '')'') 0 = Some (length attr)"
    and "find_last_of (CHR '')'') (attr @ CHR ''('' # arg @ '')'') = Some (length attr + 1 + length arg)"
  using assms find_last_of_append [of "CHR '')''" "[]" "attr @ CHR ''('' # arg"]
  by (simp_all add: find_from_0)

lemma process_predicate_shape:
  assumes "CHR ''('' \<notin> set attr"
  shows "process_predicate q (attr @ CHR ''('' # arg @ '')'') =
    (if attr = ''query'' then
       bind_result (substr_between arg 0 (find_from (CHR ''('') arg 0)) (\<lambda>cmd.
         let q' = q\<lparr>q_cmd := map to_lower cmd\<rparr>
         in if q_cmd q' = ''exit'' then Inr q' else parse_query q' arg)
     else bind_result (strip_quotes arg) (parse_option q attr))"
proof -
  have "substr_between (attr @ CHR ''('' # arg @ '')'') 0 (Some (length attr)) = Inr attr"
    by (simp add: substr_between_def substr_def)
  moreover have "substr_between (attr @ CHR ''('' # arg @ '')'') (Suc (length attr))
      (Some (length attr + 1 + length arg)) = Inr arg"
    by (simp add: substr_between_def substr_def)
  ultimately show ?thesis
    unfolding process_predicate_def Let_def predicate_parts [OF assms] by simp
qed

lemma strip_quotes_quoted [simp]: "strip_quotes (CHR 0x22 # v @ [CHR 0x22]) = Inr v"
  by (simp add: strip_quotes_def substr_def)

text \<open>An option \<^verbatim>\<open>name("value")\<close>; the value may hold any byte but the separator.\<close>

lemma process_predicate_option:
  assumes "CHR ''('' \<notin> set name" "name \<noteq> ''query''"
  shows "process_predicate q (name @ CHR ''('' # (CHR 0x22 # v @ [CHR 0x22]) @ '')'') = parse_option q name v"
  using assms by (simp add: process_predicate_shape del: append_Cons)

lemma extract_key_quoted:
  assumes "CHR 0x22 \<notin> set c" "CHR 0x22 \<notin> set k"
  shows "extract_key (c @ CHR 0x22 # k @ CHR 0x22 # rest) = Inr k"
proof -
  have 1: "find_from (CHR 0x22) (c @ CHR 0x22 # k @ CHR 0x22 # rest) 0 = Some (length c)"
    using assms by (simp add: find_from_0)
  have 2: "find_from (CHR 0x22) (c @ CHR 0x22 # k @ CHR 0x22 # rest) (length c + 1) = Some (length c + 1 + length k)"
    using assms find_from_append [of "CHR 0x22" "c @ [CHR 0x22]" "k @ CHR 0x22 # rest"] by simp
  show ?thesis using 1 2 by (simp add: extract_key_def substr_def)
qed

lemma extract_value_quoted:
  assumes "CHR 0x22 \<notin> set c" "CHR 0x22 \<notin> set k" "CHR 0x22 \<notin> set m" "CHR 0x22 \<notin> set v"
  shows "extract_value (c @ CHR 0x22 # k @ CHR 0x22 # m @ CHR 0x22 # v @ CHR 0x22 # rest) = Inr v"
proof -
  let ?s = "c @ CHR 0x22 # k @ CHR 0x22 # m @ CHR 0x22 # v @ CHR 0x22 # rest"
  let ?i = "length c + 1" let ?j = "length c + 1 + length k + 1"
  let ?l = "length c + 1 + length k + 1 + length m + 1"
  have 1: "find_from (CHR 0x22) ?s 0 = Some (length c)"
    using assms by (simp add: find_from_0)
  have 2: "find_from (CHR 0x22) ?s ?i = Some (?i + length k)"
    using assms find_from_append [of "CHR 0x22" "c @ [CHR 0x22]"] by simp
  have 3: "find_from (CHR 0x22) ?s ?j = Some (?j + length m)"
    using assms find_from_append [of "CHR 0x22" "c @ CHR 0x22 # k @ [CHR 0x22]"] by simp
  have 4: "find_from (CHR 0x22) ?s ?l = Some (?l + length v)"
    using assms find_from_append [of "CHR 0x22" "c @ CHR 0x22 # k @ CHR 0x22 # m @ [CHR 0x22]"]
    by (simp add: ac_simps)
  have "?s = (c @ CHR 0x22 # k @ CHR 0x22 # m @ [CHR 0x22]) @ v @ CHR 0x22 # rest"
    and "?l = length (c @ CHR 0x22 # k @ CHR 0x22 # m @ [CHR 0x22])" by simp_all
  then have "drop ?l ?s = v @ CHR 0x22 # rest" by (rule drop_prefix)
  then have 5: "substr ?s ?l (length v) = Inr v" by (simp add: substr_def)
  show ?thesis using 1 2 3 4 5 by (simp add: extract_value_def)
qed

text \<open>A command \<^verbatim>\<open>cmd("key")\<close> or \<^verbatim>\<open>cmd("key","value")\<close>.\<close>

definition command1 :: "string \<Rightarrow> string \<Rightarrow> string" where
  "command1 cmd k = ''query('' @ cmd @ CHR ''('' # CHR 0x22 # k @ CHR 0x22 # ''))''"

definition command2 :: "string \<Rightarrow> string \<Rightarrow> string \<Rightarrow> string" where
  "command2 cmd k v =
     ''query('' @ cmd @ CHR ''('' # CHR 0x22 # k @ CHR 0x22 # CHR '','' # CHR 0x22 # v @ CHR 0x22 # ''))''"

lemma process_predicate_query:
  assumes "CHR ''('' \<notin> set cmd" "map to_lower cmd \<noteq> ''exit''"
  shows "process_predicate q (''query'' @ CHR ''('' # (cmd @ CHR ''('' # args) @ '')'') =
    parse_query (q\<lparr>q_cmd := map to_lower cmd\<rparr>) (cmd @ CHR ''('' # args)"
proof -
  have a: "CHR ''('' \<notin> set ''query''" by simp
  have "substr_between (cmd @ CHR ''('' # args) 0 (find_from (CHR ''('') (cmd @ CHR ''('' # args) 0) = Inr cmd"
    using assms(1) by (simp add: find_from_0 substr_between_def substr_def)
  with assms(2) show ?thesis
    unfolding process_predicate_shape [OF a] by (simp add: Let_def)
qed

lemma process_predicate_command1:
  assumes "CHR ''('' \<notin> set cmd" "CHR 0x22 \<notin> set cmd" "map to_lower cmd \<notin> {''exit'', ''put''}"
    and "CHR 0x22 \<notin> set k"
  shows "process_predicate q (command1 cmd k) =
    Inr (if map to_lower cmd = ''getlogs'' then q\<lparr>q_cmd := ''getlogs'', q_log_key := k\<rparr>
         else q\<lparr>q_cmd := map to_lower cmd, q_key := k\<rparr>)"
proof -
  have "command1 cmd k = ''query'' @ CHR ''('' # (cmd @ CHR ''('' # CHR 0x22 # k @ CHR 0x22 # '')'') @ '')''"
    by (simp add: command1_def)
  moreover have "extract_key (cmd @ CHR ''('' # CHR 0x22 # k @ CHR 0x22 # '')'') = Inr k"
    using extract_key_quoted [of "cmd @ ''(''" k "'')''"] assms by simp
  ultimately show ?thesis
    using assms process_predicate_query [OF assms(1), of q "CHR 0x22 # k @ CHR 0x22 # '')''"]
    by (simp add: parse_query_def)
qed

text \<open>Any text without quotes may stand between the arguments of a put, such as a comma and a blank.\<close>

definition command_sep :: "string \<Rightarrow> string \<Rightarrow> string \<Rightarrow> string \<Rightarrow> string" where
  "command_sep cmd k m v = ''query('' @ cmd @ CHR ''('' # CHR 0x22 # k @ CHR 0x22 # m @ CHR 0x22 # v @ CHR 0x22 # ''))''"

lemma command2_sep: "command2 cmd k v = command_sep cmd k '','' v"
  by (simp add: command2_def command_sep_def)

lemma process_predicate_sep:
  assumes "map to_lower cmd = ''put''" "CHR ''('' \<notin> set cmd" "CHR 0x22 \<notin> set cmd"
    and "CHR 0x22 \<notin> set k" "CHR 0x22 \<notin> set m" "CHR 0x22 \<notin> set v"
  shows "process_predicate q (command_sep cmd k m v) = Inr (q\<lparr>q_cmd := ''put'', q_key := k, q_value := v\<rparr>)"
proof -
  let ?a = "cmd @ CHR ''('' # CHR 0x22 # k @ CHR 0x22 # m @ CHR 0x22 # v @ CHR 0x22 # '')''"
  have "command_sep cmd k m v = ''query'' @ CHR ''('' # ?a @ '')''" by (simp add: command_sep_def)
  moreover have "extract_key ?a = Inr k"
    using extract_key_quoted [of "cmd @ ''(''" k "m @ CHR 0x22 # v @ CHR 0x22 # '')''"] assms by simp
  moreover have "extract_value ?a = Inr v"
    using extract_value_quoted [of "cmd @ ''(''" k m v "'')''"] assms by simp
  ultimately show ?thesis
    using assms process_predicate_query
      [OF assms(2), of q "CHR 0x22 # k @ CHR 0x22 # m @ CHR 0x22 # v @ CHR 0x22 # '')''"]
    by (simp add: parse_query_def)
qed

lemma process_predicate_put:
  assumes "map to_lower cmd = ''put''" "CHR ''('' \<notin> set cmd" "CHR 0x22 \<notin> set cmd"
    and "CHR 0x22 \<notin> set k" "CHR 0x22 \<notin> set v"
  shows "process_predicate q (command2 cmd k v) = Inr (q\<lparr>q_cmd := ''put'', q_key := k, q_value := v\<rparr>)"
  using process_predicate_sep [OF assms(1-4) _ assms(5), of "'',''"] by (simp add: command2_sep)

lemma parse_option_unsupported:
  "opt \<notin> set supported_options \<Longrightarrow>
     parse_option q opt v = Inl (Invalid_argument (''Error: predicate '' @ opt @ '' not supported.''))"
  by (simp add: parse_option_def supported_options_def)

text \<open>No option touches the command, the key, the value or the log key.\<close>

lemma parse_option_frame:
  assumes "parse_option q opt v = Inr q'"
  shows "q_cmd q' = q_cmd q \<and> q_key q' = q_key q \<and> q_value q' = q_value q \<and> q_log_key q' = q_log_key q"
  using assms by (auto simp: parse_option_def bind_result_eq_Inr_iff split: if_splits)

section \<open>The type of a parsed request\<close>

text \<open>
  The command is in lower case, keys and values have no quotation mark, and the numbers are 32-bit
  integers.
\<close>

definition query_typed :: "query \<Rightarrow> bool" where
  "query_typed q \<longleftrightarrow> map to_lower (q_cmd q) = q_cmd q \<and> CHR 0x22 \<notin> set (q_key q) \<and> CHR 0x22 \<notin> set (q_value q) \<and>
     CHR 0x22 \<notin> set (q_log_key q) \<and> pred_option int32_range (q_expiration q) \<and> int32_range (q_cond_expiration q)"

lemma find_from_between:
  assumes "find_from c s a = Some b"
  shows "c \<notin> set (take (b - a) (drop a s))"
  using index_of_SomeD [OF find_from_SomeD(3) [OF assms]] by simp

lemma quoted_part:
  assumes "find_from (CHR 0x22) s (a + 1) = Some b" "substr s (a + 1) (b - a - 1) = Inr t"
  shows "CHR 0x22 \<notin> set t"
  using find_from_between [OF assms(1)] assms(2) by (auto simp: substr_def split: if_splits)

lemma extract_key_typed: "extract_key s = Inr k \<Longrightarrow> CHR 0x22 \<notin> set k"
  using quoted_part by (auto simp: extract_key_def Let_def split: option.splits if_splits)

lemma extract_value_typed: "extract_value s = Inr v \<Longrightarrow> CHR 0x22 \<notin> set v"
  using quoted_part by (auto simp: extract_value_def Let_def split: option.splits if_splits)

lemma parse_query_typed:
  "query_typed q \<Longrightarrow> parse_query q s = Inr q' \<Longrightarrow> query_typed q'"
  by (auto simp: parse_query_def query_typed_def bind_result_eq_Inr_iff
      dest: extract_key_typed extract_value_typed split: if_splits)

lemma parse_option_typed:
  "query_typed q \<Longrightarrow> parse_option q opt v = Inr q' \<Longrightarrow> query_typed q'"
  unfolding parse_option_def query_typed_def
  by (auto simp: bind_result_eq_Inr_iff dest: stoi_range split: if_split_asm)

text \<open>What a predicate can do to the request: set the command, its arguments or one option.\<close>

lemma process_predicate_cases:
  assumes "process_predicate q s = Inr q'"
  obtains (command) c where "q' = q\<lparr>q_cmd := map to_lower c\<rparr>"
    | (arguments) c v where "length v \<le> length s" "parse_query (q\<lparr>q_cmd := map to_lower c\<rparr>) v = Inr q'"
    | (option) attr v where "length v \<le> length s" "parse_option q attr v = Inr q'"
proof -
  let ?command = "\<lambda>v cmd. if q_cmd (q\<lparr>q_cmd := map to_lower cmd\<rparr>) = ''exit'' then Inr (q\<lparr>q_cmd := map to_lower cmd\<rparr>)
      else parse_query (q\<lparr>q_cmd := map to_lower cmd\<rparr>) v"
  obtain attr v a b where sv: "substr_between s a b = Inr v"
    and r: "(if attr = ''query'' then bind_result (substr_between v 0 (find_from (CHR ''('') v 0)) (?command v)
        else bind_result (strip_quotes v) (parse_option q attr)) = Inr q'"
    using assms unfolding process_predicate_def Let_def bind_result_eq_Inr_iff [of "substr_between s a b" for a b]
    by (elim exE conjE) rule
  have v: "length v \<le> length s" using sv by (rule substr_between_length)
  show thesis
  proof (cases "attr = ''query''")
    case True
    with r obtain c where "(if map to_lower c = ''exit'' then Inr (q\<lparr>q_cmd := map to_lower c\<rparr>)
        else parse_query (q\<lparr>q_cmd := map to_lower c\<rparr>) v) = Inr q'"
      by (auto simp: bind_result_eq_Inr_iff Let_def)
    then have "q' = q\<lparr>q_cmd := map to_lower c\<rparr> \<or> parse_query (q\<lparr>q_cmd := map to_lower c\<rparr>) v = Inr q'"
      by (metis sum.inject(2))
    with v show thesis using command arguments by blast
  next
    case False
    with r obtain u where "strip_quotes v = Inr u" "parse_option q attr u = Inr q'" by (auto simp: bind_result_eq_Inr_iff)
    moreover from this(1) have "length u \<le> length v"
      using substr_length substr_from_length by (auto simp: strip_quotes_def split: if_splits)
    ultimately show thesis using v option by (metis order_trans)
  qed
qed

lemma process_predicate_typed:
  assumes "query_typed q" "process_predicate q s = Inr q'"
  shows "query_typed q'"
proof -
  have cmd: "query_typed (q\<lparr>q_cmd := map to_lower c\<rparr>)" for c using assms(1) by (simp add: query_typed_def)
  from assms(2) show ?thesis
    by (cases rule: process_predicate_cases) (use cmd parse_query_typed [OF cmd] parse_option_typed [OF assms(1)] in blast)+
qed

lemma query_of_input_typed:
  assumes "query_of_input s = Inr q"
  shows "query_typed q"
proof -
  have "process_all q0 ps = Inr q \<Longrightarrow> query_typed q0 \<Longrightarrow> query_typed q" for q0 ps
    by (induction ps arbitrary: q0) (auto simp: bind_result_eq_Inr_iff dest: process_predicate_typed)
  moreover have "query_typed empty_query" by (simp add: query_typed_def empty_query_def int32_range_def)
  ultimately show ?thesis using assms by (simp add: query_of_input_split)
qed

text \<open>No text of a parsed request is longer than the input.\<close>

definition query_within :: "nat \<Rightarrow> query \<Rightarrow> bool" where
  "query_within n q \<longleftrightarrow> length (q_key q) \<le> n \<and> length (q_value q) \<le> n \<and> pred_option (\<lambda>s. length s \<le> n) (q_user_key q) \<and>
     pred_option (\<lambda>s. length s \<le> n) (q_origin q) \<and> pred_option (\<lambda>s. length s \<le> n) (q_share q)"

lemma extract_key_length: "extract_key s = Inr k \<Longrightarrow> length k \<le> length s"
  using substr_length by (auto simp: extract_key_def Let_def split: option.splits if_splits)

lemma extract_value_length: "extract_value s = Inr v \<Longrightarrow> length v \<le> length s"
  using substr_length by (auto simp: extract_value_def Let_def split: option.splits if_splits)

lemma parse_query_within:
  "\<lbrakk>query_within n q; length s \<le> n; parse_query q s = Inr q'\<rbrakk> \<Longrightarrow> query_within n q'"
  by (auto simp: parse_query_def query_within_def bind_result_eq_Inr_iff
      dest: extract_key_length extract_value_length split: if_splits)

lemma parse_option_within:
  "\<lbrakk>query_within n q; length v \<le> n; parse_option q opt v = Inr q'\<rbrakk> \<Longrightarrow> query_within n q'"
  unfolding parse_option_def query_within_def
  by (auto simp: bind_result_eq_Inr_iff split: if_split_asm)

lemma process_predicate_within:
  assumes "query_within n q" "length s \<le> n" "process_predicate q s = Inr q'"
  shows "query_within n q'"
proof -
  have cmd: "query_within n (q\<lparr>q_cmd := map to_lower c\<rparr>)" for c using assms(1) by (simp add: query_within_def)
  from assms(3) show ?thesis
  proof (cases rule: process_predicate_cases)
    case (arguments c v)
    then show ?thesis using parse_query_within [OF cmd] assms(2) by (meson order_trans)
  next
    case (option attr v)
    then show ?thesis using parse_option_within [OF assms(1)] assms(2) by (meson order_trans)
  qed (simp add: cmd)
qed

lemma query_of_input_within:
  assumes "query_of_input s = Inr q"
  shows "query_within (length s) q"
proof -
  have "process_all q0 ps = Inr q \<Longrightarrow> query_within n q0 \<Longrightarrow> \<forall>p\<in>set ps. length p \<le> n \<Longrightarrow> query_within n q" for q0 ps n
    by (induction ps arbitrary: q0) (auto simp: bind_result_eq_Inr_iff dest: process_predicate_within)
  moreover have "query_within (length s) empty_query" by (simp add: query_within_def empty_query_def)
  ultimately show ?thesis using assms split_on_length [of _ "CHR ''&''" s] by (simp add: query_of_input_split)
qed

end
