(* ===== verification/Default_Policy.thy ===== *)
theory Default_Policy
  imports Gdpr_Metadata
begin

text \<open>
  \<^verbatim>\<open>default_policy.hpp\<close> and \<^verbatim>\<open>default_policy.cpp\<close>: the policy a client sends when it connects, a
  text such as \<^verbatim>\<open>user_policy -sessionKey user0 -encryption true -purpose purpose0,purpose1 ...\<close>.

  The record has the members of the class \<^verbatim>\<open>default_policy\<close>, the getters are its selectors.
  \<open>option_loop\<close> is the extraction loop over the \<^verbatim>\<open>stringstream\<close>, with the \<^verbatim>\<open>unordered_map\<close> as a map,
  and \<open>default_policy_of_input\<close> the parsing constructor. \<open>option_loop_render\<close> says what the loop
  collects from a text written by the policy compiler.
\<close>

record default_policy =
  dp_user_key :: string
  dp_encryption :: bool
  dp_purpose :: "64 word"
  dp_objection :: "64 word"
  dp_origin :: string
  dp_expiration :: int
  dp_share :: string
  dp_monitor :: bool

definition empty_policy :: default_policy where
  "empty_policy =
     \<lparr>dp_user_key = [], dp_encryption = False, dp_purpose = 0, dp_objection = 0, dp_origin = [],
      dp_expiration = 0, dp_share = [], dp_monitor = False\<rparr>"

function option_loop :: "string \<Rightarrow> (string \<rightharpoonup> string) \<Rightarrow> (string \<rightharpoonup> string)" where
  "option_loop stream m =
     (case next_token stream of
        None \<Rightarrow> m
      | Some (opt, stream1) \<Rightarrow>
          if opt \<noteq> [] \<and> hd opt = CHR ''-'' then
            (case next_token stream1 of
               None \<Rightarrow> m(opt \<mapsto> [])
             | Some (v, stream2) \<Rightarrow> option_loop stream2 (m(opt \<mapsto> v)))
          else option_loop stream1 m)"
  by pat_completeness auto
termination
  by (relation "measure (\<lambda>(stream, m). length stream)")
    (auto dest!: next_token_shorter)

declare option_loop.simps [simp del]

definition policy_options :: "string list" where
  "policy_options = [''-sessionKey'', ''-encryption'', ''-purpose'', ''-objection'',
                     ''-origin'', ''-expTime'', ''-objShare'', ''-monitor'']"

definition check_policy :: "(string \<rightharpoonup> string) \<Rightarrow> unit result" where
  "check_policy m =
     (case filter (\<lambda>opt. m opt = None) policy_options of
        [] \<Rightarrow> Inr ()
      | opt # _ \<Rightarrow> Inl (Invalid_argument (''Error: option '' @ opt @ '' not provided.'')))"

text \<open>\<^verbatim>\<open>option_map[key]\<close>, which yields an empty string for a missing key.\<close>

definition opt_at :: "(string \<rightharpoonup> string) \<Rightarrow> string \<Rightarrow> string" where
  "opt_at m k = (case m k of Some v \<Rightarrow> v | None \<Rightarrow> [])"

definition default_policy_of_input :: "string \<Rightarrow> default_policy result" where
  "default_policy_of_input input =
     (let option_map = option_loop input Map.empty
      in bind_result (check_policy option_map) (\<lambda>_.
         bind_result (stoll (opt_at option_map ''-expTime'')) (\<lambda>expiration.
         bind_result (str_to_bool (opt_at option_map ''-encryption'')) (\<lambda>encryption.
         bind_result (str_to_bool (opt_at option_map ''-monitor'')) (\<lambda>monitor.
         bind_result (split_comma_string (opt_at option_map ''-purpose'')) (\<lambda>purposes.
         bind_result (split_comma_string (opt_at option_map ''-objection'')) (\<lambda>objections.
           Inr \<lparr>dp_user_key = opt_at option_map ''-sessionKey'',
                dp_encryption = encryption,
                dp_purpose = set_bitmap 0 purposes,
                dp_objection = set_bitmap 0 objections,
                dp_origin = opt_at option_map ''-origin'',
                dp_expiration = expiration,
                dp_share = opt_at option_map ''-objShare'',
                dp_monitor = monitor\<rparr>)))))))"

section \<open>Facts about the extraction loop\<close>

text \<open>A word is a non-empty text without white space; the policy compiler writes \<^verbatim>\<open> -opt value\<close>.\<close>

definition word_text :: "string \<Rightarrow> bool" where
  "word_text t \<longleftrightarrow> t \<noteq> [] \<and> (\<forall>c\<in>set t. \<not> is_space c)"

definition render_options :: "(string \<times> string) list \<Rightarrow> string" where
  "render_options ps = concat (map (\<lambda>(opt, v). CHR '' '' # opt @ CHR '' '' # v) ps)"

lemma is_space_blank [simp]: "is_space (CHR '' '')"
  by (simp add: is_space_def)

lemma render_options_simps [simp]:
  "render_options [] = []"
  "render_options ((opt, v) # ps) = CHR '' '' # opt @ CHR '' '' # v @ render_options ps"
  by (simp_all add: render_options_def)

lemma next_token_word_render:
  "word_text t \<Longrightarrow> next_token (t @ render_options ps) = Some (t, render_options ps)"
  by (cases ps) (auto simp: word_text_def next_token_last intro!: next_token_word)

lemma option_loop_render:
  assumes "\<forall>(opt, v)\<in>set ps. word_text opt \<and> hd opt = CHR ''-'' \<and> word_text v"
  shows "option_loop (render_options ps) m = m ++ map_of (rev ps)"
  using assms
proof (induction ps arbitrary: m)
  case Nil
  then show ?case by (simp add: option_loop.simps [of "[]"] next_token_def)
next
  case (Cons p ps)
  obtain opt v where p: "p = (opt, v)" by (cases p)
  with Cons.prems have w: "word_text opt" "hd opt = CHR ''-''" "word_text v" by auto
  have "next_token (opt @ CHR '' '' # v @ render_options ps) = Some (opt, CHR '' '' # v @ render_options ps)"
    using w(1) by (intro next_token_word) (auto simp: word_text_def)
  moreover have "next_token (CHR '' '' # v @ render_options ps) = Some (v, render_options ps)"
    using w(3) by (simp add: next_token_word_render)
  ultimately have "option_loop (render_options (p # ps)) m = option_loop (render_options ps) (m(opt \<mapsto> v))"
    using w p by (simp add: option_loop.simps [of "CHR '' '' # opt @ CHR '' '' # v @ render_options ps"] word_text_def)
  also have "\<dots> = m(opt \<mapsto> v) ++ map_of (rev ps)" using Cons by simp
  also have "\<dots> = m ++ map_of (rev (p # ps))"
    using p by (simp add: map_add_def fun_eq_iff split: option.splits)
  finally show ?case .
qed

lemma check_policy_Inr: "check_policy m = Inr () \<longleftrightarrow> set policy_options \<subseteq> dom m"
proof -
  have "check_policy m = Inr () \<longleftrightarrow> filter (\<lambda>opt. m opt = None) policy_options = []"
    by (simp add: check_policy_def split: list.splits)
  also have "\<dots> \<longleftrightarrow> set policy_options \<subseteq> dom m" by (auto simp: filter_empty_conv)
  finally show ?thesis .
qed

lemma default_policy_range:
  "default_policy_of_input input = Inr p \<Longrightarrow> int64_range (dp_expiration p)"
  by (auto simp: default_policy_of_input_def Let_def bind_result_eq_Inr_iff dest: stoll_range)

text \<open>No text of a parsed policy is longer than the input.\<close>

lemma option_loop_length:
  assumes "option_loop stream m k = Some x" "length stream \<le> n" "\<forall>k x. m k = Some x \<longrightarrow> length x \<le> n"
  shows "length x \<le> n"
  using assms
proof (induction stream m rule: option_loop.induct)
  case (1 stream m)
  show ?case
  proof (cases "next_token stream")
    case None
    with 1 show ?thesis by (simp add: option_loop.simps [of stream])
  next
    case (Some or)
    obtain opt rest where o: "next_token stream = Some (opt, rest)" using Some by (cases or) auto
    then have r: "length rest \<le> n" using next_token_length 1(4) by (meson order_trans)
    show ?thesis
    proof (cases "opt \<noteq> [] \<and> hd opt = CHR ''-''")
      case True
      show ?thesis
      proof (cases "next_token rest")
        case None
        with True o 1(3,5) show ?thesis by (auto simp: option_loop.simps [of stream] split: if_splits)
      next
        case (Some vr)
        obtain v rest2 where v: "next_token rest = Some (v, rest2)" using Some by (cases vr) auto
        then have l: "length v \<le> n" "length rest2 \<le> n" using next_token_length r by (meson order_trans)+
        have "option_loop rest2 (m(opt \<mapsto> v)) k = Some x"
          using 1(3) True o v by (simp add: option_loop.simps [of stream])
        moreover have "\<forall>k x. (m(opt \<mapsto> v)) k = Some x \<longrightarrow> length x \<le> n" using 1(5) l by simp
        ultimately show ?thesis by (rule 1(1) [OF o refl True v refl _ l(2)])
      qed
    next
      case False
      with o r 1 show ?thesis by (auto simp: option_loop.simps [of stream])
    qed
  qed
qed

definition policy_within :: "nat \<Rightarrow> default_policy \<Rightarrow> bool" where
  "policy_within n p \<longleftrightarrow> length (dp_user_key p) \<le> n \<and> length (dp_origin p) \<le> n \<and> length (dp_share p) \<le> n"

lemma default_policy_within:
  assumes "default_policy_of_input s = Inr p"
  shows "policy_within (length s) p"
proof -
  have "length (opt_at (option_loop s Map.empty) k) \<le> length s" for k
    using option_loop_length [of s Map.empty k _ "length s"] by (auto simp: opt_at_def split: option.splits)
  with assms show ?thesis by (auto simp: default_policy_of_input_def policy_within_def Let_def bind_result_eq_Inr_iff)
qed

end
