(* ===== verification/Gdpr_Filter.thy ===== *)
theory Gdpr_Filter
  imports Query Default_Policy
begin

unbundle bit_operations_syntax

text \<open>
  \<^verbatim>\<open>gdpr_filter.hpp\<close> and \<^verbatim>\<open>gdpr_filter.cpp\<close>: the access check.

  \<open>gdpr_filter_of\<close> is the constructor that reads the eight metadata fields of a stored value, and
  \<open>validate\<close> decides whether a request may use the value; its parts are \<open>validate_session_key\<close>
  (with the loop over the comma-separated share list), \<open>validate_pur\<close>, \<open>validate_obj\<close> and
  \<open>validate_exp_time\<close>.

  The specification side is \<open>record_of\<close>, the text of a value with given metadata, and
  \<open>permitted\<close>, the rule the check is meant to implement, stated over sets of purposes and of users.
  \<open>gdpr_filter_of_record\<close> and \<open>validate_iff_permitted\<close> connect the two.
\<close>

record gdpr_filter =
  f_valid :: bool
  f_user_key :: string
  f_encryption :: bool
  f_purpose :: "64 word"
  f_objection :: "64 word"
  f_origin :: string
  f_expiration :: int
  f_share :: string
  f_monitor :: bool

definition empty_filter :: gdpr_filter where
  "empty_filter =
     \<lparr>f_valid = False, f_user_key = [], f_encryption = False, f_purpose = 0, f_objection = 0,
      f_origin = [], f_expiration = 0, f_share = [], f_monitor = False\<rparr>"

section \<open>Reading the metadata\<close>

definition filter_field :: "nat \<Rightarrow> string \<Rightarrow> gdpr_filter \<Rightarrow> gdpr_filter result" where
  "filter_field count token f =
     (case field_at count of
        usr \<Rightarrow> Inr (f\<lparr>f_user_key := token\<rparr>)
      | encr \<Rightarrow> Inr (f\<lparr>f_encryption := (token = ''1'')\<rparr>)
      | pur \<Rightarrow> bind_result (stoull token) (\<lambda>w. Inr (f\<lparr>f_purpose := w\<rparr>))
      | obj \<Rightarrow> bind_result (stoull token) (\<lambda>w. Inr (f\<lparr>f_objection := w\<rparr>))
      | org \<Rightarrow> Inr (f\<lparr>f_origin := token\<rparr>)
      | exp \<Rightarrow> bind_result (stoll token) (\<lambda>i. Inr (f\<lparr>f_expiration := i\<rparr>))
      | shr \<Rightarrow> Inr (f\<lparr>f_share := token\<rparr>)
      | log \<Rightarrow> Inr (f\<lparr>f_monitor := (token = ''1'')\<rparr>)
      | _ \<Rightarrow> Inr f)"

definition gdpr_filter_of :: "string option \<Rightarrow> gdpr_filter result" where
  "gdpr_filter_of ret_value =
     (case ret_value of
        None \<Rightarrow> Inr empty_filter
      | Some v \<Rightarrow>
          bind_result
            (field_loop metadata_prefix_fields filter_field v 0 0 (empty_filter\<lparr>f_valid := True\<rparr>))
            (\<lambda>(f, start, count).
               if count \<noteq> metadata_prefix_fields
               then Inl (Invalid_argument ''Invalid GDPR metadata format'')
               else Inr f))"

section \<open>The checks\<close>

function share_loop :: "string \<Rightarrow> string \<Rightarrow> nat \<Rightarrow> bool result" where
  "share_loop user_key share start =
     (case find_from (CHR '','') share start of
        None \<Rightarrow> bind_result (substr_from share start) (\<lambda>t. Inr (user_key = t))
      | Some e \<Rightarrow>
          bind_result (substr_between share start (Some e)) (\<lambda>t.
            if user_key = t then Inr True else share_loop user_key share (e + 1)))"
  by pat_completeness auto
termination
proof (relation "measure (\<lambda>(user_key, share, start). length share - start)", goal_cases)
  case (2 user_key share start e t)
  then show ?case using find_from_SomeD(1,2) [OF 2(1)] by simp
qed simp

declare share_loop.simps [simp del]

definition value_or :: "'a option \<Rightarrow> 'a \<Rightarrow> 'a" where
  "value_or x d = (case x of Some v \<Rightarrow> v | None \<Rightarrow> d)"

lemma value_or_simps [simp]: "value_or (Some v) d = v" "value_or None d = d"
  by (simp_all add: value_or_def)

definition validate_session_key :: "gdpr_filter \<Rightarrow> string option \<Rightarrow> string \<Rightarrow> bool result" where
  "validate_session_key f query_user_key def_user_key =
     (let user_key = value_or query_user_key def_user_key
      in if user_key = f_user_key f then Inr True else share_loop user_key (f_share f) 0)"

definition validate_pur :: "gdpr_filter \<Rightarrow> 64 word \<Rightarrow> 64 word \<Rightarrow> bool" where
  "validate_pur f query_pur def_pur =
     (if query_pur \<noteq> 0 then (f_purpose f AND query_pur) = query_pur
      else (f_purpose f AND def_pur) = def_pur)"

definition validate_obj :: "gdpr_filter \<Rightarrow> 64 word \<Rightarrow> 64 word \<Rightarrow> bool" where
  "validate_obj f query_pur def_pur =
     (if query_pur \<noteq> 0 then (f_objection f AND query_pur) = 0
      else (f_objection f AND def_pur) = 0)"

definition validate_exp_time :: "int \<Rightarrow> gdpr_filter \<Rightarrow> bool" where
  "validate_exp_time now f =
     (if f_expiration f = 0 then True else trunc_div now s2ns \<le> f_expiration f)"

definition check_monitoring :: "gdpr_filter \<Rightarrow> bool" where
  "check_monitoring f = f_monitor f"

definition validate :: "int \<Rightarrow> gdpr_filter \<Rightarrow> query \<Rightarrow> default_policy \<Rightarrow> bool result" where
  "validate now f q p =
     (if \<not> f_valid f then Inr False
      else bind_result (validate_session_key f (q_user_key q) (dp_user_key p)) (\<lambda>user_ok.
        if \<not> user_ok then Inr False
        else if \<not> validate_pur f (q_cond_purpose q) (dp_purpose p) then Inr False
        else if \<not> validate_obj f (q_cond_purpose q) (dp_purpose p) then Inr False
        else if \<not> validate_exp_time now f then Inr False
        else Inr True))"

section \<open>The rule the check implements\<close>

definition purposes :: "64 word \<Rightarrow> nat set" where
  "purposes w = {i. bit w i}"

definition request_user :: "query \<Rightarrow> default_policy \<Rightarrow> string" where
  "request_user q p = value_or (q_user_key q) (dp_user_key p)"

definition request_purposes :: "query \<Rightarrow> default_policy \<Rightarrow> nat set" where
  "request_purposes q p =
     (if purposes (q_cond_purpose q) = {} then purposes (dp_purpose p) else purposes (q_cond_purpose q))"

definition share_users :: "string \<Rightarrow> string set" where
  "share_users share = set (split_on (CHR '','') share)"

definition permitted :: "int \<Rightarrow> gdpr_filter \<Rightarrow> query \<Rightarrow> default_policy \<Rightarrow> bool" where
  "permitted now f q p \<longleftrightarrow>
     (request_user q p = f_user_key f \<or> request_user q p \<in> share_users (f_share f)) \<and>
     request_purposes q p \<subseteq> purposes (f_purpose f) \<and>
     request_purposes q p \<inter> purposes (f_objection f) = {} \<and>
     (f_expiration f = 0 \<or> trunc_div now s2ns \<le> f_expiration f)"

lemma share_loop_split_on:
  "start \<le> length share \<Longrightarrow>
     share_loop u share start = Inr (u \<in> set (split_on (CHR '','') (drop start share)))"
proof (induction u share start rule: share_loop.induct)
  case (1 u share start)
  show ?case
  proof (cases "find_from (CHR '','') share start")
    case None
    then have "index_of (CHR '','') (drop start share) = None" by (simp add: find_from_def)
    with None 1(2) show ?thesis
      by (simp add: share_loop.simps [of u share start] split_on_index_None)
  next
    case (Some e)
    note e = find_from_SomeD [OF Some]
    have "u \<noteq> take (e - start) (drop start share) \<Longrightarrow>
      share_loop u share (e + 1) = Inr (u \<in> set (split_on (CHR '','') (drop (e + 1) share)))"
      using "1.IH" [OF Some] substr_between_find [OF Some] e(2) by simp
    with Some e split_on_index_Some [OF e(3)] show ?thesis
      by (simp add: share_loop.simps [of u share start])
  qed
qed

lemma validate_session_key_eq [cpp_simps]:
  "validate_session_key f qu du =
     Inr (value_or qu du = f_user_key f \<or> value_or qu du \<in> share_users (f_share f))"
  by (simp add: validate_session_key_def share_loop_split_on share_users_def Let_def)

lemma bit_64_less: "bit (w :: 64 word) i \<Longrightarrow> i < 64"
  using bit_imp_le_length [of w i] by simp

lemma purposes_empty_iff [simp]: "purposes w = {} \<longleftrightarrow> w = 0"
  by (auto simp: purposes_def bit_eq_iff dest: bit_64_less)

lemma purposes_subset_iff: "purposes v \<subseteq> purposes w \<longleftrightarrow> (w AND v) = v"
  by (auto simp: purposes_def bit_eq_iff bit_and_iff dest: bit_64_less)

lemma purposes_disjoint_iff: "purposes v \<inter> purposes w = {} \<longleftrightarrow> (w AND v) = 0"
  by (auto simp: purposes_def bit_eq_iff bit_and_iff dest: bit_64_less)

lemma validate_iff_permitted: "validate now f q p = Inr (f_valid f \<and> permitted now f q p)"
  by (auto simp: validate_def permitted_def validate_session_key_eq validate_pur_def validate_obj_def
      validate_exp_time_def request_user_def request_purposes_def purposes_subset_iff purposes_disjoint_iff)

lemma permitted_cong:
  "\<lbrakk>f_user_key f = f_user_key g; f_purpose f = f_purpose g; f_objection f = f_objection g;
    f_expiration f = f_expiration g; f_share f = f_share g\<rbrakk> \<Longrightarrow> permitted now f q p = permitted now g q p"
  by (simp add: permitted_def)

section \<open>The text of a record\<close>

text \<open>The eight metadata fields of a value, as the rewriter writes them.\<close>

definition metadata_fields_of :: "gdpr_filter \<Rightarrow> string list" where
  "metadata_fields_of f =
     [f_user_key f, if f_encryption f then ''1'' else ''0'', to_string (uint (f_purpose f)),
      to_string (uint (f_objection f)), f_origin f, to_string (f_expiration f), f_share f,
      if f_monitor f then ''1'' else ''0'']"

definition record_of :: "gdpr_filter \<Rightarrow> string \<Rightarrow> string" where
  "record_of f v = fields_text (metadata_fields_of f) @ v"

definition wf_filter :: "gdpr_filter \<Rightarrow> bool" where
  "wf_filter f \<longleftrightarrow> f_valid f \<and> clean (f_user_key f) \<and> clean (f_origin f) \<and> clean (f_share f) \<and>
     int64_range (f_expiration f)"

lemma clean_to_string [simp]: "clean (to_string i)"
  using to_string_clean by blast

lemma record_of_length:
  assumes "wf_filter f"
  shows "length (record_of f v) \<le> length (f_user_key f) + length (f_origin f) + length (f_share f) + length v + 70"
  using assms to_string_length [of "f_expiration f"] to_string_uint_length [of "f_purpose f"]
    to_string_uint_length [of "f_objection f"]
  by (simp add: record_of_def metadata_fields_of_def wf_filter_def)

lemma metadata_fields_clean: "wf_filter f \<Longrightarrow> t \<in> set (metadata_fields_of f) \<Longrightarrow> clean t"
  by (auto simp: wf_filter_def metadata_fields_of_def split: if_splits)

lemma length_metadata_fields [simp]: "length (metadata_fields_of f) = 8"
  by (simp add: metadata_fields_of_def)

lemmas filter_field_simps =
  filter_field_def field_at_def

lemma run_filter_fields:
  assumes "wf_filter f"
  shows "run_fields filter_field 0 (metadata_fields_of f) (empty_filter\<lparr>f_valid := True\<rparr>) = Inr f"
  using assms
  by (cases f) (simp add: metadata_fields_of_def filter_field_simps empty_filter_def wf_filter_def)

lemma gdpr_filter_of_record:
  assumes "wf_filter f"
  shows "gdpr_filter_of (Some (record_of f v)) = Inr f"
proof -
  have "field_loop 8 filter_field (record_of f v) 0 0 (empty_filter\<lparr>f_valid := True\<rparr>) =
      bind_result (run_fields filter_field 0 (metadata_fields_of f) (empty_filter\<lparr>f_valid := True\<rparr>))
        (\<lambda>a. Inr (a, length (fields_text (metadata_fields_of f)), 8))"
    using metadata_fields_clean [OF assms]
    by (simp add: record_of_def field_loop_fields [where limit = 8])
  then show ?thesis
    using run_filter_fields [OF assms] by (simp add: gdpr_filter_of_def metadata_prefix_fields_def)
qed

lemma gdpr_filter_of_None [simp]: "gdpr_filter_of None = Inr empty_filter"
  by (simp add: gdpr_filter_of_def)

text \<open>A text with fewer than eight delimiters is never accepted.\<close>

lemma gdpr_filter_of_short:
  assumes "\<forall>t\<in>set ts. clean t" "clean rest" "length ts < 8"
  shows "\<exists>e. gdpr_filter_of (Some (fields_text ts @ rest)) = Inl e"
proof -
  have "field_loop 8 filter_field (fields_text ts @ rest) 0 0 (empty_filter\<lparr>f_valid := True\<rparr>) =
      bind_result (run_fields filter_field 0 ts (empty_filter\<lparr>f_valid := True\<rparr>))
        (\<lambda>a. Inr (a, length (fields_text ts), length ts))"
    using assms by (intro field_loop_fields) auto
  with assms(3) show ?thesis
    by (cases "run_fields filter_field 0 ts (empty_filter\<lparr>f_valid := True\<rparr>)")
      (simp_all add: gdpr_filter_of_def metadata_prefix_fields_def)
qed

text \<open>Every accepted value yields a well-formed filter, whatever text was stored.\<close>

lemma filter_field_keeps:
  assumes "filter_field count t f = Inr f'" "clean t"
    and "f_valid f" "clean (f_user_key f)" "clean (f_origin f)" "clean (f_share f)" "int64_range (f_expiration f)"
  shows "wf_filter f'"
  using assms
  by (auto simp: filter_field_def wf_filter_def bind_result_eq_Inr_iff dest: stoll_range
      split: metadata_fields.splits)

lemma run_filter_fields_wf:
  "\<lbrakk>run_fields filter_field count ts f = Inr f'; \<forall>t\<in>set ts. clean t; wf_filter f\<rbrakk> \<Longrightarrow> wf_filter f'"
proof (induction ts arbitrary: count f)
  case (Cons t ts)
  then obtain g where g: "filter_field count t f = Inr g" "run_fields filter_field (Suc count) ts g = Inr f'"
    by (auto simp: bind_result_eq_Inr_iff)
  then have "wf_filter g" using Cons.prems filter_field_keeps [OF g(1)] by (simp add: wf_filter_def)
  with g Cons show ?case by simp
qed simp

lemma gdpr_filter_of_wf:
  assumes "gdpr_filter_of (Some v) = Inr f"
  shows "wf_filter f"
proof -
  obtain ts rest where v: "v = fields_text ts @ rest" "\<forall>t\<in>set ts. clean t"
    "length ts = 8 \<or> (length ts < 8 \<and> clean rest)" using fields_text_exists [of v 8] by blast
  let ?init = "empty_filter\<lparr>f_valid := True\<rparr>"
  have "field_loop 8 filter_field v 0 0 ?init =
      bind_result (run_fields filter_field 0 ts ?init) (\<lambda>a. Inr (a, length (fields_text ts), length ts))"
    unfolding v(1) using v(2,3) by (intro field_loop_fields) auto
  with assms have "run_fields filter_field 0 ts ?init = Inr f"
    by (auto simp: gdpr_filter_of_def metadata_prefix_fields_def bind_result_eq_Inr_iff split: if_splits)
  moreover have "wf_filter ?init" by (simp add: wf_filter_def empty_filter_def int64_range_def)
  ultimately show ?thesis using v(2) run_filter_fields_wf by blast
qed

end
