(* ===== verification/Log_Common.thy ===== *)
theory Log_Common
  imports Gdpr_Filter
begin

text \<open>
  \<^verbatim>\<open>logging/log_common.hpp\<close>: operation codes, dates and the readable form of logged metadata.

  \<open>timestamp_to_datetime\<close> is \<^verbatim>\<open>gmtime_r\<close> followed by \<^verbatim>\<open>std::put_time\<close> with \<^verbatim>\<open>%Y-%m-%d %H:%M:%S\<close>, written
  as the proleptic Gregorian calendar computation. In \<^verbatim>\<open>gdpr_metadata_fmt\<close> (and in the logger) a
  \<^verbatim>\<open>std::string_view\<close> is initialised from a temporary \<^verbatim>\<open>std::string\<close> and read after the temporary is
  gone; what such a read yields is the argument \<open>stale\<close>, a function of the text that was there, and
  the theorems hold for every such function.
\<close>

section \<open>Operation codes\<close>

datatype operation = op_invalid | op_get | op_put | op_del | op_getm | op_putm | op_get_logs

definition operation_code :: "operation \<Rightarrow> 8 word" where
  "operation_code oper =
     (case oper of op_invalid \<Rightarrow> 0 | op_get \<Rightarrow> 1 | op_put \<Rightarrow> 2 | op_del \<Rightarrow> 3 | op_getm \<Rightarrow> 4
                 | op_putm \<Rightarrow> 5 | op_get_logs \<Rightarrow> 6)"

definition convert_operation_to_enum :: "string \<Rightarrow> operation" where
  "convert_operation_to_enum oper =
     (if oper = ''get'' then op_get else if oper = ''put'' then op_put
      else if oper = ''delete'' then op_del else if oper = ''getm'' then op_getm
      else if oper = ''putm'' then op_putm else if oper = ''getLogs'' then op_get_logs
      else op_invalid)"

text \<open>The argument is the stored code; a code outside the enumeration takes the last branch.\<close>

definition convert_enum_to_operation :: "8 word \<Rightarrow> string" where
  "convert_enum_to_operation oper =
     (if oper = operation_code op_get then ''get'' else if oper = operation_code op_put then ''put''
      else if oper = operation_code op_del then ''delete'' else if oper = operation_code op_getm then ''getm''
      else if oper = operation_code op_putm then ''putm''
      else if oper = operation_code op_get_logs then ''getLogs'' else ''invalid_op'')"

definition operation_mask :: "8 word" where "operation_mask = 7"
definition log_delimiter :: char where "log_delimiter = CHR '',''"

section \<open>Dates\<close>

text \<open>Year, month and day of a day number counted from 1970-01-01.\<close>

definition civil_from_days :: "int \<Rightarrow> int \<times> int \<times> int" where
  "civil_from_days days =
     (let z = days + 719468;
          era = z div 146097;
          doe = z mod 146097;
          yoe = (doe - doe div 1460 + doe div 36524 - doe div 146096) div 365;
          doy = doe - (365 * yoe + yoe div 4 - yoe div 100);
          mp = (5 * doy + 2) div 153;
          d = doy - (153 * mp + 2) div 5 + 1;
          m = (if mp < 10 then mp + 3 else mp - 9);
          y = yoe + era * 400 + (if m \<le> 2 then 1 else 0)
      in (y, m, d))"

definition two_digits :: "int \<Rightarrow> string" where
  "two_digits n = (if n < 10 then ''0'' @ to_string n else to_string n)"

definition timestamp_to_datetime :: "int \<Rightarrow> string" where
  "timestamp_to_datetime timestamp =
     (let time = trunc_div timestamp s2ns;
          secs = time mod 86400
      in case civil_from_days (time div 86400) of
           (y, m, d) \<Rightarrow>
             to_string y @ ''-'' @ two_digits m @ ''-'' @ two_digits d @ '' '' @
             two_digits (secs div 3600) @ '':'' @ two_digits (secs mod 3600 div 60) @ '':'' @
             two_digits (secs mod 60))"

section \<open>Readable metadata\<close>

definition fmt_field :: "(string \<Rightarrow> string) \<Rightarrow> nat \<Rightarrow> string \<Rightarrow> string \<Rightarrow> string result" where
  "fmt_field stale count token res =
     (case field_at count of
        usr \<Rightarrow> Inr (res @ ''User/Owner: '' @ token @ '', '')
      | encr \<Rightarrow> Inr (res @ ''Encryption enabled: '' @ (if token = ''1'' then ''true'' else ''false'') @ '', '')
      | pur \<Rightarrow> bind_result (stoull token) (\<lambda>w. Inr (res @ ''Purposes: '' @ get_purposes_string w))
      | obj \<Rightarrow> bind_result (stoull token) (\<lambda>w. Inr (res @ ''Objections: '' @ get_purposes_string w))
      | org \<Rightarrow> Inr (res @ ''Data origin: '' @ token @ '', '')
      | exp \<Rightarrow>
          if token = ''0'' then Inr (res @ ''Expiration time: '' @ stale ''none'' @ '', '')
          else bind_result (stoi token)
                 (\<lambda>t. Inr (res @ ''Expiration time: '' @ stale (timestamp_to_datetime t) @ '', ''))
      | shr \<Rightarrow> Inr (res @ ''Shared with: '' @ token @ '', '')
      | log \<Rightarrow> Inr (res @ ''Log enabled: '' @ (if token = ''1'' then ''true'' else ''false'') @ '', '')
      | val \<Rightarrow> Inr (res @ ''Value: '' @ token)
      | _ \<Rightarrow> Inr res)"

definition gdpr_metadata_fmt :: "(string \<Rightarrow> string) \<Rightarrow> string \<Rightarrow> string result" where
  "gdpr_metadata_fmt stale value_str =
     bind_result (field_loop field_guard (fmt_field stale) value_str 0 0 [])
       (\<lambda>(res, start, count).
          if count \<noteq> field_guard
          then Inl (Invalid_argument ''Invalid GDPR metadata format in the logs'')
          else Inr res)"

section \<open>Facts\<close>

lemma convert_roundtrip:
  "oper \<in> {''get'', ''put'', ''delete'', ''getm'', ''putm'', ''getLogs''} \<Longrightarrow>
     convert_enum_to_operation (operation_code (convert_operation_to_enum oper)) = oper"
  by (auto simp: convert_enum_to_operation_def convert_operation_to_enum_def operation_code_def)

lemma operation_code_less: "operation_code oper < 7"
  by (cases oper) (simp_all add: operation_code_def)

text \<open>
  The text of a record has eight delimiters unless the value itself holds one, and the formatter
  asks for nine.
\<close>

lemma gdpr_metadata_fmt_fails:
  assumes "wf_filter f" "clean v"
  shows "\<exists>e. gdpr_metadata_fmt stale (record_of f v) = Inl e"
proof -
  have "field_loop 9 (fmt_field stale) (record_of f v) 0 0 [] =
      bind_result (run_fields (fmt_field stale) 0 (metadata_fields_of f) [])
        (\<lambda>a. Inr (a, length (fields_text (metadata_fields_of f)), 8))"
    using metadata_fields_clean [OF assms(1)] assms(2)
    by (simp add: record_of_def field_loop_fields [where limit = 9])
  then show ?thesis
    by (cases "run_fields (fmt_field stale) 0 (metadata_fields_of f) []")
      (simp_all add: gdpr_metadata_fmt_def field_guard_def)
qed

end
