(* ===== verification/Logger.thy ===== *)
theory Logger
  imports Log_Common Cipher_Engine "HOL-Library.AList"
begin

unbundle bit_operations_syntax

text \<open>
  \<^verbatim>\<open>logging/logger.hpp\<close>: one append-only file per key, in which every monitored operation leaves an
  entry, and the reader that turns a file into text for the regulator.

  The record \<open>logger\<close> has the directory, the map from keys to streams (an association list of the
  key and whether the stream is open; its length is the \<^verbatim>\<open>size()\<close> of the map), the list of used keys
  in opening order and the limit on open files; \<open>lg_fs\<close> is the content of the files, with the
  buffered bytes of a stream counted as written. Two facts about the surroundings are arguments:
  \<open>can_open\<close>, whether opening a path succeeds, and \<open>locked\<close>, which per-key mutexes \<^verbatim>\<open>close_older_fd\<close>
  cannot take, those of other threads and the one the calling operation holds itself.

  An entry is \<^verbatim>\<open>timestamp (8 bytes),user,operation and result (1 byte),new value\<close>, stored behind its
  size (8 bytes), encrypted when encryption is on.
\<close>

record logger =
  lg_dir :: string
  lg_files :: "(string \<times> bool) list"
  lg_used :: "string list"
  lg_max :: nat
  lg_fs :: "string \<rightharpoonup> string"

definition log_file_extension :: string where "log_file_extension = ''.log''"

definition log_file_path :: "logger \<Rightarrow> string \<Rightarrow> string" where
  "log_file_path lg key = lg_dir lg @ ''/'' @ key @ log_file_extension"

section \<open>Streams\<close>

definition is_open :: "logger \<Rightarrow> string \<Rightarrow> bool" where
  "is_open lg key \<longleftrightarrow> map_of (lg_files lg) key = Some True"

text \<open>
  The first used key whose mutex can be taken is closed and forgotten. A key that is in the list
  but not in the map makes \<^verbatim>\<open>operator[]\<close> yield a null pointer, which is then dereferenced.
\<close>

fun close_loop :: "(string \<Rightarrow> bool) \<Rightarrow> logger \<Rightarrow> string list \<Rightarrow> string list \<Rightarrow> logger result" where
  "close_loop locked lg seen [] = Inr lg"
| "close_loop locked lg seen (k # ks) =
     (if \<not> locked k then
        (case map_of (lg_files lg) k of
           None \<Rightarrow> Inl Undefined_behaviour
         | Some _ \<Rightarrow> Inr (lg\<lparr>lg_used := rev seen @ ks, lg_files := AList.delete k (lg_files lg)\<rparr>))
      else close_loop locked lg (k # seen) ks)"

definition close_older_fd :: "(string \<Rightarrow> bool) \<Rightarrow> logger \<Rightarrow> logger result" where
  "close_older_fd locked lg = close_loop locked lg [] (lg_used lg)"

definition open_stream :: "(string \<Rightarrow> bool) \<Rightarrow> logger \<Rightarrow> string \<Rightarrow> logger" where
  "open_stream can_open lg key =
     (let path = log_file_path lg key
      in lg\<lparr>lg_used := lg_used lg @ [key],
            lg_files := AList.update key (can_open path) (lg_files lg),
            lg_fs := (if can_open path \<and> lg_fs lg path = None then (lg_fs lg)(path \<mapsto> []) else lg_fs lg)\<rparr>)"

definition get_or_open_log_stream ::
  "(string \<Rightarrow> bool) \<Rightarrow> (string \<Rightarrow> bool) \<Rightarrow> logger \<Rightarrow> string \<Rightarrow> logger result" where
  "get_or_open_log_stream locked can_open lg key =
     (if \<not> is_open lg key then
        bind_result
          (if lg_max lg \<le> length (lg_files lg) then close_older_fd locked lg else Inr lg)
          (\<lambda>lg1. Inr (open_stream can_open lg1 key))
      else Inr lg)"

section \<open>Writing an entry\<close>

definition operation_result :: "string \<Rightarrow> bool \<Rightarrow> 8 word" where
  "operation_result cmd valid =
     push_bit 1 (operation_code (convert_operation_to_enum cmd) AND operation_mask) OR (if valid then 1 else 0)"

definition encode_entry :: "int \<Rightarrow> string \<Rightarrow> 8 word \<Rightarrow> string \<Rightarrow> string" where
  "encode_entry timestamp user_key op_result new_val =
     le_bytes 8 (from_signed 64 timestamp) @ [log_delimiter] @ user_key @ [log_delimiter] @
     [char_of (unat op_result)] @ [log_delimiter] @ new_val"

definition entry_frame :: "string \<Rightarrow> string" where
  "entry_frame s = le_bytes 8 (length s) @ s"

definition write_file :: "logger \<Rightarrow> string \<Rightarrow> string \<Rightarrow> logger" where
  "write_file lg key bytes =
     (if is_open lg key then
        let path = log_file_path lg key
        in lg\<lparr>lg_fs := (lg_fs lg)(path \<mapsto> (case lg_fs lg path of Some c \<Rightarrow> c @ bytes | None \<Rightarrow> bytes))\<rparr>
      else lg)"

text \<open>
  The encryption of the build: \<open>None\<close> when it is off, otherwise the OpenSSL calls, the engine and the
  vector the call draws.
\<close>

type_synonym 'c log_cipher = "('c openssl \<times> cipher_engine \<times> string option) option"

definition stored_entry :: "'c log_cipher \<Rightarrow> string \<Rightarrow> string option" where
  "stored_entry cipher entry =
     (case cipher of
        None \<Rightarrow> Some entry
      | Some (ossl, eng, iv) \<Rightarrow>
          let r = encrypt ossl eng iv entry log_key in if er_success r then Some (er_ciphertext r) else None)"

definition log_encoded_query ::
  "(string \<Rightarrow> bool) \<Rightarrow> (string \<Rightarrow> bool) \<Rightarrow> 'c log_cipher \<Rightarrow> int \<Rightarrow> logger \<Rightarrow> query \<Rightarrow> default_policy \<Rightarrow> bool
     \<Rightarrow> string \<Rightarrow> logger result" where
  "log_encoded_query locked can_open cipher timestamp lg q p valid new_val =
     bind_result (get_or_open_log_stream locked can_open lg (q_key q)) (\<lambda>lg1.
     bind_result (if \<not> is_open lg1 (q_key q) then get_or_open_log_stream locked can_open lg1 (q_key q)
                  else Inr lg1) (\<lambda>lg2.
       let user_key = value_or (q_user_key q) (dp_user_key p);
           entry = encode_entry timestamp user_key (operation_result (q_cmd q) valid) new_val
       in Inr (case stored_entry cipher entry of
                 Some s \<Rightarrow> write_file lg2 (q_key q) (entry_frame s)
               | None \<Rightarrow> lg2)))"

text \<open>
  The plain variant, which only performance tests use: a line of text. An \<^verbatim>\<open>enum\<close> over \<^verbatim>\<open>uint8_t\<close> is
  inserted as a character, a \<^verbatim>\<open>bool\<close> as a digit.
\<close>

definition raw_line :: "int \<Rightarrow> string \<Rightarrow> 8 word \<Rightarrow> bool \<Rightarrow> string \<Rightarrow> string" where
  "raw_line timestamp user_key op result new_val =
     to_string timestamp @ [CHR '',''] @ user_key @ [CHR '',''] @ [char_of (unat op)] @ [CHR '',''] @
     (if result then ''1'' else ''0'') @ [CHR '',''] @ new_val @ [CHR 0x0A]"

definition log_raw_query ::
  "(string \<Rightarrow> bool) \<Rightarrow> (string \<Rightarrow> bool) \<Rightarrow> int \<Rightarrow> logger \<Rightarrow> query \<Rightarrow> default_policy \<Rightarrow> bool \<Rightarrow> string \<Rightarrow> logger result" where
  "log_raw_query locked can_open timestamp lg q p result new_val =
     bind_result (get_or_open_log_stream (\<lambda>k. k = q_key q \<or> locked k) can_open lg (q_key q)) (\<lambda>lg1.
       Inr (write_file lg1 (q_key q)
         (raw_line timestamp (value_or (q_user_key q) (dp_user_key p))
           (operation_code (convert_operation_to_enum (q_cmd q))) result new_val)))"

section \<open>Reading a log\<close>

definition decode_log_entry :: "(string \<Rightarrow> string) \<Rightarrow> int \<Rightarrow> string \<Rightarrow> string result" where
  "decode_log_entry stale timestamp_thres entry =
     (if length entry < 8 then Inl Undefined_behaviour
      else
        let timestamp = to_signed 64 (le_val (take 8 entry))
        in if timestamp_thres < timestamp then Inr []
           else if length entry < 9 then Inl Undefined_behaviour
           else
             (case find_from log_delimiter entry 9 of
                None \<Rightarrow> Inl Undefined_behaviour
              | Some end1 \<Rightarrow>
                  let user_key = take (end1 - 9) (drop 9 entry); start2 = end1 + 1
                  in if length entry \<le> start2 then Inl Undefined_behaviour
                     else
                       (case find_from log_delimiter entry start2 of
                          None \<Rightarrow> Inl Undefined_behaviour
                        | Some end2 \<Rightarrow>
                            let op_result = (of_nat (of_char (entry ! start2)) :: 8 word);
                                valid = (if op_result AND 1 \<noteq> 0 then ''valid'' else ''invalid'');
                                oper = stale (convert_enum_to_operation (drop_bit 1 op_result AND operation_mask));
                                new_value = drop (end2 + 1) entry;
                                line = ''Timestamp: '' @ timestamp_to_datetime timestamp @ '', '' @
                                       ''User key: '' @ user_key @ '', '' @ ''Operation: '' @ oper @ '', '' @
                                       ''Result: '' @ valid
                            in if new_value \<noteq> []
                               then bind_result (gdpr_metadata_fmt stale new_value) (\<lambda>m. Inr (line @ '', '' @ m))
                               else Inr line)))"

definition decrypt_log_entry :: "'c openssl \<Rightarrow> cipher_engine \<Rightarrow> string \<Rightarrow> string result" where
  "decrypt_log_entry ossl eng entry =
     bind_result (decrypt ossl eng entry log_key) (\<lambda>r. Inr (if dr_success r then dr_plaintext r else []))"

text \<open>
  The vector of \<^verbatim>\<open>read_log_entry\<close> has the full size from the start: bytes that a short read did not
  deliver are zero.
\<close>

definition read_log_entry :: "string \<Rightarrow> nat \<Rightarrow> string" where
  "read_log_entry file entry_size =
     take entry_size file @ replicate (entry_size - length file) (CHR 0x00)"

definition open_entry :: "('c openssl \<times> cipher_engine) option \<Rightarrow> string \<Rightarrow> string result" where
  "open_entry cipher entry =
     (case cipher of None \<Rightarrow> Inr entry | Some (ossl, eng) \<Rightarrow> decrypt_log_entry ossl eng entry)"

function read_and_decode_log_entries ::
  "(string \<Rightarrow> string) \<Rightarrow> ('c openssl \<times> cipher_engine) option \<Rightarrow> int \<Rightarrow> string \<Rightarrow> string list \<Rightarrow> string list result" where
  "read_and_decode_log_entries stale cipher timestamp_thres file entries =
     (if length file < 8 then Inr entries
      else
        let entry_size = le_val (take 8 file); rest = drop 8 file
        in if 2 ^ 63 \<le> entry_size then Inl Length_error
           else
             bind_result (open_entry cipher (read_log_entry rest entry_size)) (\<lambda>entry.
             bind_result (decode_log_entry stale timestamp_thres entry) (\<lambda>line.
               read_and_decode_log_entries stale cipher timestamp_thres (drop entry_size rest)
                 (entries @ [line]))))"
  by pat_completeness auto
termination
  by (relation "measure (\<lambda>(stale, cipher, thres, file, entries). length file)") auto

declare read_and_decode_log_entries.simps [simp del]

fun find_str :: "string \<Rightarrow> string \<Rightarrow> nat option" where
  "find_str pat [] = (if pat = [] then Some 0 else None)"
| "find_str pat (c # s) =
     (if take (length pat) (c # s) = pat then Some 0 else map_option Suc (find_str pat s))"

definition extract_key_from_filename :: "string \<Rightarrow> string" where
  "extract_key_from_filename filename =
     (let start_pos = after (find_last_of (CHR ''/'') filename);
          rest = drop start_pos filename
      in case find_str log_file_extension rest of Some i \<Rightarrow> take i rest | None \<Rightarrow> rest)"

definition log_decode ::
  "(string \<Rightarrow> bool) \<Rightarrow> (string \<Rightarrow> bool) \<Rightarrow> (string \<Rightarrow> string) \<Rightarrow> ('c openssl \<times> cipher_engine) option \<Rightarrow> logger
     \<Rightarrow> string \<Rightarrow> int \<Rightarrow> (string list \<times> logger) result" where
  "log_decode locked can_open stale cipher lg log_name timestamp_thres =
     (case lg_fs lg log_name of
        None \<Rightarrow> Inr ([], lg)
      | Some _ \<Rightarrow>
          let key = extract_key_from_filename log_name
          in bind_result (get_or_open_log_stream locked can_open lg key) (\<lambda>lg1.
             if is_open lg1 key then
               bind_result
                 (read_and_decode_log_entries stale cipher timestamp_thres
                    (case lg_fs lg1 (log_file_path lg1 key) of Some c \<Rightarrow> c | None \<Rightarrow> []) [])
                 (\<lambda>entries. Inr (entries, lg1))
             else Inr ([], lg1)))"

end
