(* ===== verification/Logger_Facts.thy ===== *)
theory Logger_Facts
  imports Logger
begin

unbundle bit_operations_syntax

text \<open>
  Facts about the logger: the invariant of its stream table and that every operation keeps it, the
  effect of writing an entry on the files (append only, one file), and the round trip from an
  encoded entry through a file to the regulator's text.
\<close>

section \<open>The stream table\<close>

definition stream_inv :: "logger \<Rightarrow> bool" where
  "stream_inv lg \<longleftrightarrow> distinct (map fst (lg_files lg)) \<and> distinct (lg_used lg) \<and>
     set (lg_used lg) = fst ` set (lg_files lg) \<and> (\<forall>p\<in>set (lg_files lg). snd p)"

lemma stream_inv_lookup:
  "stream_inv lg \<Longrightarrow> map_of (lg_files lg) k = (if k \<in> set (lg_used lg) then Some True else None)"
proof -
  assume i: "stream_inv lg"
  show ?thesis
  proof (cases "map_of (lg_files lg) k")
    case None
    with i show ?thesis by (auto simp: stream_inv_def map_of_eq_None_iff)
  next
    case (Some b)
    then have "(k, b) \<in> set (lg_files lg)" by (rule map_of_SomeD)
    with i have "b" and "k \<in> set (lg_used lg)" by (force simp: stream_inv_def)+
    with Some show ?thesis by simp
  qed
qed

lemma is_open_iff: "stream_inv lg \<Longrightarrow> is_open lg k \<longleftrightarrow> k \<in> set (lg_used lg)"
  by (simp add: is_open_def stream_inv_lookup)

lemma stream_inv_lengths: "stream_inv lg \<Longrightarrow> length (lg_files lg) = length (lg_used lg)"
proof -
  assume i: "stream_inv lg"
  then have "length (map fst (lg_files lg)) = card (set (map fst (lg_files lg)))"
    by (metis distinct_card stream_inv_def)
  also have "\<dots> = card (set (lg_used lg))" using i by (simp add: stream_inv_def)
  also have "\<dots> = length (lg_used lg)" using i by (metis distinct_card stream_inv_def)
  finally show ?thesis by simp
qed

definition same_files :: "logger \<Rightarrow> logger \<Rightarrow> bool" where
  "same_files lg lg' \<longleftrightarrow> lg_dir lg' = lg_dir lg \<and> lg_max lg' = lg_max lg \<and> lg_fs lg' = lg_fs lg"

lemma close_loop_ok:
  assumes "stream_inv lg" "lg_used lg = rev seen @ ks"
  shows "\<exists>lg'. close_loop locked lg seen ks = Inr lg' \<and> stream_inv lg' \<and> same_files lg lg' \<and>
    set (lg_used lg') \<subseteq> set (lg_used lg) \<and>
    length (lg_used lg') = length (lg_used lg) - (if \<exists>k\<in>set ks. \<not> locked k then 1 else 0)"
  using assms
proof (induction ks arbitrary: seen)
  case Nil
  then show ?case by (simp add: same_files_def)
next
  case (Cons k ks)
  show ?case
  proof (cases "locked k")
    case True
    then show ?thesis using Cons.IH [of "k # seen"] Cons.prems by simp
  next
    case False
    let ?lg = "lg\<lparr>lg_used := rev seen @ ks, lg_files := AList.delete k (lg_files lg)\<rparr>"
    have k: "map_of (lg_files lg) k = Some True"
      using Cons.prems by (simp add: stream_inv_lookup)
    have d: "distinct (rev seen @ k # ks)" and s: "fst ` set (lg_files lg) = set (rev seen @ k # ks)"
      using Cons.prems by (auto simp: stream_inv_def)
    have "set (rev seen @ ks) = fst ` set (AList.delete k (lg_files lg))"
    proof -
      have "fst ` set (AList.delete k (lg_files lg)) = fst ` set (lg_files lg) - {k}"
        by (auto simp: AList.delete_eq image_iff)
      then show ?thesis using d s by auto
    qed
    moreover have "distinct (map fst (AList.delete k (lg_files lg)))"
      using Cons.prems(1) by (simp add: stream_inv_def distinct_delete)
    moreover have "\<forall>p\<in>set (AList.delete k (lg_files lg)). snd p"
      using Cons.prems(1) by (auto simp: stream_inv_def AList.delete_eq)
    ultimately have "stream_inv ?lg" using d by (simp add: stream_inv_def)
    then show ?thesis using False k Cons.prems by (auto simp: same_files_def)
  qed
qed

lemma close_older_fd_ok:
  assumes "stream_inv lg"
  shows "\<exists>lg'. close_older_fd locked lg = Inr lg' \<and> stream_inv lg' \<and> same_files lg lg' \<and>
    set (lg_used lg') \<subseteq> set (lg_used lg) \<and>
    length (lg_used lg') = length (lg_used lg) - (if \<exists>k\<in>set (lg_used lg). \<not> locked k then 1 else 0)"
  using close_loop_ok [OF assms, of "[]"] by (simp add: close_older_fd_def)

lemma update_new_key: "k \<notin> fst ` set al \<Longrightarrow> AList.update k v al = al @ [(k, v)]"
  by (induction al) auto

lemma open_stream_inv:
  assumes "stream_inv lg" "k \<notin> set (lg_used lg)" "can_open (log_file_path lg k)"
  shows "stream_inv (open_stream can_open lg k)"
proof -
  have n: "k \<notin> fst ` set (lg_files lg)" using assms by (simp add: stream_inv_def)
  have "AList.update k True (lg_files lg) = lg_files lg @ [(k, True)]"
    using n by (rule update_new_key)
  then show ?thesis using assms n by (auto simp: stream_inv_def open_stream_def Let_def)
qed

text \<open>Making room for one more stream.\<close>

lemma make_room:
  assumes "stream_inv lg"
  shows "\<exists>lg1. (if lg_max lg \<le> length (lg_files lg) then close_older_fd locked lg else Inr lg) = Inr lg1 \<and>
    stream_inv lg1 \<and> same_files lg lg1 \<and> set (lg_used lg1) \<subseteq> set (lg_used lg) \<and>
    (1 \<le> lg_max lg \<and> length (lg_files lg) \<le> lg_max lg \<and>
       (length (lg_files lg) < lg_max lg \<or> (\<exists>x\<in>set (lg_used lg). \<not> locked x)) \<longrightarrow>
     length (lg_used lg1) < lg_max lg)"
proof (cases "lg_max lg \<le> length (lg_files lg)")
  case True
  obtain lg1 where l: "close_older_fd locked lg = Inr lg1" "stream_inv lg1" "same_files lg lg1"
    "set (lg_used lg1) \<subseteq> set (lg_used lg)"
    "length (lg_used lg1) = length (lg_used lg) - (if \<exists>k\<in>set (lg_used lg). \<not> locked k then 1 else 0)"
    using close_older_fd_ok [OF assms, of locked] by blast
  with True stream_inv_lengths [OF assms] show ?thesis by (intro exI [of _ lg1]) auto
next
  case False
  with stream_inv_lengths [OF assms] assms show ?thesis by (intro exI [of _ lg]) (simp add: same_files_def)
qed

definition file_content :: "logger \<Rightarrow> string \<Rightarrow> string" where
  "file_content lg k = (case lg_fs lg (log_file_path lg k) of Some c \<Rightarrow> c | None \<Rightarrow> [])"

text \<open>
  The effect on the file system of getting the stream of a key: an empty file appears if there was
  none, nothing else changes.
\<close>

definition touched :: "logger \<Rightarrow> string \<Rightarrow> string \<rightharpoonup> string" where
  "touched lg k =
     (if lg_fs lg (log_file_path lg k) = None then (lg_fs lg)(log_file_path lg k \<mapsto> []) else lg_fs lg)"

definition streams_exist :: "logger \<Rightarrow> bool" where
  "streams_exist lg \<longleftrightarrow> (\<forall>k\<in>set (lg_used lg). lg_fs lg (log_file_path lg k) \<noteq> None)"

lemma get_or_open_ok:
  assumes "stream_inv lg" "streams_exist lg" "can_open (log_file_path lg k)"
  shows "\<exists>lg'. get_or_open_log_stream locked can_open lg k = Inr lg' \<and> stream_inv lg' \<and> streams_exist lg' \<and>
    is_open lg' k \<and> lg_dir lg' = lg_dir lg \<and> lg_max lg' = lg_max lg \<and> lg_fs lg' = touched lg k"
proof (cases "is_open lg k")
  case True
  then have "lg_fs lg (log_file_path lg k) \<noteq> None"
    using assms by (simp add: is_open_iff streams_exist_def)
  with True assms show ?thesis by (auto simp: get_or_open_log_stream_def touched_def)
next
  case False
  obtain lg1 where l: "(if lg_max lg \<le> length (lg_files lg) then close_older_fd locked lg else Inr lg) = Inr lg1"
    "stream_inv lg1" "same_files lg lg1" "set (lg_used lg1) \<subseteq> set (lg_used lg)"
    using make_room [OF assms(1), of locked] by blast
  have p: "log_file_path lg1 k = log_file_path lg k" using l(3) by (simp add: same_files_def log_file_path_def)
  have nk: "k \<notin> set (lg_used lg1)" using False assms(1) l(4) by (auto simp: is_open_iff)
  have i: "stream_inv (open_stream can_open lg1 k)" using l(2) nk assms(3) p by (intro open_stream_inv) auto
  have fs: "lg_fs (open_stream can_open lg1 k) = touched lg k"
    using assms(3) p l(3) by (simp add: open_stream_def Let_def touched_def same_files_def)
  have d: "log_file_path (open_stream can_open lg1 k) = log_file_path lg"
    using l(3) by (simp add: open_stream_def Let_def log_file_path_def same_files_def fun_eq_iff)
  have "streams_exist (open_stream can_open lg1 k)"
    using assms(2) l(4) unfolding streams_exist_def fs d
    by (auto simp: open_stream_def Let_def touched_def)
  moreover have "is_open (open_stream can_open lg1 k) k"
    unfolding is_open_iff [OF i] by (simp add: open_stream_def Let_def)
  ultimately show ?thesis
    using False l(1) i fs l(3)
    by (auto simp: get_or_open_log_stream_def open_stream_def Let_def same_files_def)
qed

text \<open>The table stays within its limit as long as some used key can be locked.\<close>

lemma get_or_open_bounded:
  assumes "stream_inv lg" "1 \<le> lg_max lg" "length (lg_files lg) \<le> lg_max lg"
    and "length (lg_files lg) < lg_max lg \<or> (\<exists>x\<in>set (lg_used lg). \<not> locked x)"
    and "can_open (log_file_path lg k)"
    and "get_or_open_log_stream locked can_open lg k = Inr lg'"
  shows "length (lg_files lg') \<le> lg_max lg"
proof (cases "is_open lg k")
  case True
  with assms show ?thesis by (simp add: get_or_open_log_stream_def)
next
  case False
  obtain lg1 where l: "(if lg_max lg \<le> length (lg_files lg) then close_older_fd locked lg else Inr lg) = Inr lg1"
    "stream_inv lg1" "same_files lg lg1" "set (lg_used lg1) \<subseteq> set (lg_used lg)"
    "length (lg_used lg1) < lg_max lg"
    using make_room [OF assms(1), of locked] assms(2-4) by blast
  have nk: "k \<notin> set (lg_used lg1)" using False assms(1) l(4) by (auto simp: is_open_iff)
  have p: "log_file_path lg1 k = log_file_path lg k" using l(3) by (simp add: same_files_def log_file_path_def)
  have "stream_inv (open_stream can_open lg1 k)" using l(2) nk assms(5) p by (intro open_stream_inv) auto
  then have "length (lg_files (open_stream can_open lg1 k)) = length (lg_used lg1) + 1"
    by (subst stream_inv_lengths) (simp_all add: open_stream_def Let_def)
  with False l(1,5) assms(6) show ?thesis by (simp add: get_or_open_log_stream_def)
qed

section \<open>Writing\<close>

definition request_entry :: "int \<Rightarrow> query \<Rightarrow> default_policy \<Rightarrow> bool \<Rightarrow> string \<Rightarrow> string" where
  "request_entry t q p valid new_val =
     encode_entry t (request_user q p) (operation_result (q_cmd q) valid) new_val"

lemma log_encoded_query_ok:
  assumes "stream_inv lg" "streams_exist lg" "can_open (log_file_path lg (q_key q))"
    and "stored_entry cipher (request_entry t q p valid v) = Some s"
  shows "\<exists>lg'. log_encoded_query locked can_open cipher t lg q p valid v = Inr lg' \<and>
    stream_inv lg' \<and> streams_exist lg' \<and> lg_dir lg' = lg_dir lg \<and> lg_max lg' = lg_max lg \<and>
    lg_fs lg' = (lg_fs lg)(log_file_path lg (q_key q) \<mapsto> file_content lg (q_key q) @ entry_frame s)"
proof -
  obtain lg1 where l: "get_or_open_log_stream locked can_open lg (q_key q) = Inr lg1" "stream_inv lg1"
    "streams_exist lg1" "is_open lg1 (q_key q)" "lg_dir lg1 = lg_dir lg" "lg_max lg1 = lg_max lg"
    "lg_fs lg1 = touched lg (q_key q)"
    using get_or_open_ok [where can_open = can_open, OF assms(1-3)] by blast
  have p: "log_file_path lg1 = log_file_path lg" using l(5) by (simp add: log_file_path_def fun_eq_iff)
  let ?lg = "write_file lg1 (q_key q) (entry_frame s)"
  have "log_encoded_query locked can_open cipher t lg q p valid v = Inr ?lg"
    using l(1,4) assms(4) by (simp add: log_encoded_query_def Let_def request_entry_def request_user_def)
  moreover have "lg_fs ?lg = (lg_fs lg)(log_file_path lg (q_key q) \<mapsto> file_content lg (q_key q) @ entry_frame s)"
    using l(4,7) p by (auto simp: write_file_def Let_def touched_def file_content_def split: option.splits)
  moreover have "stream_inv ?lg" "streams_exist ?lg" "lg_dir ?lg = lg_dir lg" "lg_max ?lg = lg_max lg"
    using l by (auto simp: write_file_def Let_def stream_inv_def streams_exist_def log_file_path_def)
  ultimately show ?thesis by blast
qed

section \<open>Reading back\<close>

lemma operation_result_bits:
  "unat (operation_result cmd valid) < 14"
  "(operation_result cmd valid AND 1 \<noteq> 0) = valid"
  "drop_bit 1 (operation_result cmd valid) AND operation_mask =
     operation_code (convert_operation_to_enum cmd)"
  by (cases "convert_operation_to_enum cmd"; cases valid;
      simp add: operation_result_def operation_code_def operation_mask_def)+

lemma decode_encode_entry:
  assumes "int64_range t" "t \<le> thres" "log_delimiter \<notin> set u"
  shows "decode_log_entry stale thres (encode_entry t u (operation_result cmd valid) v) =
    (let line = ''Timestamp: '' @ timestamp_to_datetime t @ '', User key: '' @ u @ '', Operation: '' @
           stale (convert_enum_to_operation (operation_code (convert_operation_to_enum cmd))) @
           '', Result: '' @ (if valid then ''valid'' else ''invalid'')
     in if v = [] then Inr line else bind_result (gdpr_metadata_fmt stale v) (\<lambda>m. Inr (line @ '', '' @ m)))"
proof -
  let ?w = "operation_result cmd valid"
  let ?b = "char_of (unat ?w) :: char"
  let ?h = "le_bytes 8 (from_signed 64 t) @ [log_delimiter]"
  let ?e = "encode_entry t u ?w v"
  have e: "?e = ?h @ u @ log_delimiter # ?b # log_delimiter # v"
    "?e = (?h @ u @ [log_delimiter]) @ ?b # log_delimiter # v"
    "?e = (?h @ u @ [log_delimiter, ?b, log_delimiter]) @ v"
    by (simp_all add: encode_entry_def)
  have ts: "to_signed 64 (le_val (take 8 ?e)) = t"
    using assms(1) by (simp add: encode_entry_def)
  have b: "of_char ?b = unat ?w" using operation_result_bits(1) [of cmd valid] by simp
  have nb: "?b \<noteq> log_delimiter"
  proof
    assume "?b = log_delimiter"
    then have "(of_char ?b :: nat) = 44" by (simp add: log_delimiter_def)
    with b operation_result_bits(1) [of cmd valid] show False by simp
  qed
  have f1: "find_from log_delimiter ?e 9 = Some (9 + length u)"
    unfolding e(1) using assms(3) find_from_append [of log_delimiter ?h "u @ log_delimiter # ?b # log_delimiter # v"]
    by simp
  have f2: "find_from log_delimiter ?e (9 + length u + 1) = Some (9 + length u + 1 + 1)"
    unfolding e(2) using nb find_from_append [of log_delimiter "?h @ u @ [log_delimiter]" "?b # log_delimiter # v"]
    by simp
  have us: "take (9 + length u - 9) (drop 9 ?e) = u"
    unfolding e(1) by simp
  have op: "?e ! (9 + length u + 1) = ?b"
    unfolding e(2) by (simp add: nth_append)
  have nv: "drop (9 + length u + 1 + 1 + 1) ?e = v"
    by (rule drop_prefix [OF e(3)]) simp
  have len: "\<not> length ?e < 8" "\<not> length ?e < 9" "\<not> length ?e \<le> 9 + length u + 1"
    by (simp_all add: encode_entry_def)
  have w: "(of_nat (of_char ?b) :: 8 word) = ?w" using b by simp
  show ?thesis
    unfolding decode_log_entry_def Let_def ts f1 option.case f2 us op nv w operation_result_bits(2,3)
    using len assms(2) by simp
qed

lemma read_entry_frame:
  assumes "length s < 2 ^ 63" "open_entry cipher s = Inr e" "decode_log_entry stale thres e = Inr line"
  shows "read_and_decode_log_entries stale cipher thres (entry_frame s @ rest) es =
    read_and_decode_log_entries stale cipher thres rest (es @ [line])"
proof -
  have "le_val (take 8 (entry_frame s @ rest)) = length s" "drop 8 (entry_frame s @ rest) = s @ rest"
    "\<not> length (entry_frame s @ rest) < 8"
    using assms(1) by (simp_all add: entry_frame_def)
  then show ?thesis
    unfolding read_and_decode_log_entries.simps [of stale cipher thres "entry_frame s @ rest"] Let_def
    using assms by (simp add: read_log_entry_def)
qed

lemma read_entry_frame_fails:
  assumes "length s < 2 ^ 63" "open_entry cipher s = Inr e" "decode_log_entry stale thres e = Inl err"
  shows "read_and_decode_log_entries stale cipher thres (entry_frame s @ rest) es = Inl err"
proof -
  have "le_val (take 8 (entry_frame s @ rest)) = length s" "drop 8 (entry_frame s @ rest) = s @ rest"
    "\<not> length (entry_frame s @ rest) < 8"
    using assms(1) by (simp_all add: entry_frame_def)
  then show ?thesis
    unfolding read_and_decode_log_entries.simps [of stale cipher thres "entry_frame s @ rest"] Let_def
    using assms by (simp add: read_log_entry_def)
qed

end
