(* ===== verification/Query_Rewriter.thy ===== *)
theory Query_Rewriter
  imports Gdpr_Filter
begin

text \<open>
  \<^verbatim>\<open>query_rewriter.hpp\<close> and \<^verbatim>\<open>query_rewriter.cpp\<close>: the text that is stored for a value. The class has
  three constructors, here one function each: \<open>rewriter_insert\<close> (first put of a key),
  \<open>rewriter_update\<close> (put of an existing key, new value under the old metadata) and
  \<open>rewriter_putm\<close> (new metadata over the old value). The reserved capacity of the string is not
  observable and is left out; the block under \<^verbatim>\<open>#ifdef DEBUG\<close> is not compiled by the build.

  The lemmas describe each constructor as a function on \<open>record_of\<close>, the text of a well-formed
  record: what it does to the metadata and to the value.
\<close>

section \<open>The constructors\<close>

definition rewriter_insert :: "int \<Rightarrow> query \<Rightarrow> default_policy \<Rightarrow> string \<Rightarrow> string result" where
  "rewriter_insert now q p new_query_value =
     (let user_key = value_or (q_user_key q) (dp_user_key p);
          encryption = dp_encryption p;
          purpose = value_or (q_purpose q) (dp_purpose p);
          objection = value_or (q_objection q) (dp_objection p);
          origin = value_or (q_origin q) (dp_origin p);
          expiration = value_or (q_expiration q) (dp_expiration p);
          share = value_or (q_share q) (dp_share p);
          monitor = value_or (q_monitor q) (dp_monitor p)
      in bind_result (get_expiration_time now expiration) (\<lambda>t.
           Inr (user_key @ ''|'' @ (if encryption then ''1|'' else ''0|'') @
                to_string (uint purpose) @ ''|'' @ to_string (uint objection) @ ''|'' @
                origin @ ''|'' @ to_string t @ ''|'' @ share @ ''|'' @
                (if monitor then ''1|'' else ''0|'') @ new_query_value)))"

definition rewriter_update :: "string \<Rightarrow> string \<Rightarrow> string result" where
  "rewriter_update res new_query_value =
     bind_result (substr_between res 0 (find_last_of (CHR ''|'') res))
       (\<lambda>metadata. Inr (metadata @ ''|'' @ new_query_value))"

definition putm_field :: "int \<Rightarrow> query \<Rightarrow> nat \<Rightarrow> string \<Rightarrow> string \<Rightarrow> string result" where
  "putm_field now q count token new_value =
     bind_result
       (case field_at count of
          usr \<Rightarrow> Inr (new_value @ value_or (q_user_key q) token)
        | encr \<Rightarrow> Inr (new_value @ token)
        | pur \<Rightarrow> Inr (new_value @ (case q_purpose q of Some w \<Rightarrow> to_string (uint w) | None \<Rightarrow> token))
        | obj \<Rightarrow> Inr (new_value @ (case q_objection q of Some w \<Rightarrow> to_string (uint w) | None \<Rightarrow> token))
        | org \<Rightarrow> Inr (new_value @ value_or (q_origin q) token)
        | exp \<Rightarrow> (case q_expiration q of
                    Some n \<Rightarrow> bind_result (get_expiration_time now n) (\<lambda>t. Inr (new_value @ to_string t))
                  | None \<Rightarrow> Inr (new_value @ token))
        | shr \<Rightarrow> Inr (new_value @ value_or (q_share q) token)
        | log \<Rightarrow> Inr (new_value @ (case q_monitor q of Some b \<Rightarrow> (if b then ''1'' else ''0'') | None \<Rightarrow> token))
        | val \<Rightarrow> Inr (new_value @ token)
        | _ \<Rightarrow> Inr new_value)
       (\<lambda>s. Inr (if field_at count \<noteq> val then s @ ''|'' else s))"

definition rewriter_putm :: "int \<Rightarrow> string \<Rightarrow> query \<Rightarrow> string result" where
  "rewriter_putm now res q =
     bind_result (field_loop field_guard (putm_field now q) res 0 0 [])
       (\<lambda>(new_value, start, count).
          if start < length res
          then bind_result (substr_from res start) (\<lambda>rest. Inr (new_value @ rest))
          else Inr new_value)"

section \<open>Insertion\<close>

text \<open>The metadata a first put gives a value, with its expiration date.\<close>

definition insert_metadata :: "query \<Rightarrow> default_policy \<Rightarrow> int \<Rightarrow> gdpr_filter" where
  "insert_metadata q p t =
     \<lparr>f_valid = True, f_user_key = request_user q p, f_encryption = dp_encryption p,
      f_purpose = value_or (q_purpose q) (dp_purpose p),
      f_objection = value_or (q_objection q) (dp_objection p),
      f_origin = value_or (q_origin q) (dp_origin p), f_expiration = t,
      f_share = value_or (q_share q) (dp_share p), f_monitor = value_or (q_monitor q) (dp_monitor p)\<rparr>"

lemma rewriter_insert_eq:
  "rewriter_insert now q p v =
     bind_result (get_expiration_time now (value_or (q_expiration q) (dp_expiration p)))
       (\<lambda>t. Inr (record_of (insert_metadata q p t) v))"
  by (simp add: rewriter_insert_def Let_def record_of_def metadata_fields_of_def insert_metadata_def
      request_user_def bind_result_def split: sum.split)

text \<open>The request and the policy hold no delimiter in a field that is stored.\<close>

definition clean_request :: "query \<Rightarrow> default_policy \<Rightarrow> bool" where
  "clean_request q p \<longleftrightarrow> clean (request_user q p) \<and> clean (value_or (q_origin q) (dp_origin p)) \<and>
     clean (value_or (q_share q) (dp_share p))"

lemma insert_metadata_wf:
  "clean_request q p \<Longrightarrow> int64_range t \<Longrightarrow> wf_filter (insert_metadata q p t)"
  by (simp add: wf_filter_def insert_metadata_def clean_request_def)

section \<open>Values with delimiters\<close>

text \<open>
  Nothing keeps the delimiter out of a value. \<open>value_tail\<close> is what follows its last delimiter and
  \<open>value_head\<close> what comes before, the delimiter included; of a value without one the head is empty. The
  part a get shows is the tail, or the whole record when the tail is empty; an update replaces the
  tail only, and a metadata update drops the first delimiter.
\<close>

definition value_tail :: "string \<Rightarrow> string" where
  "value_tail v = rev (takeWhile (\<lambda>c. c \<noteq> CHR ''|'') (rev v))"

definition value_head :: "string \<Rightarrow> string" where
  "value_head v = rev (dropWhile (\<lambda>c. c \<noteq> CHR ''|'') (rev v))"

definition shown_value :: "gdpr_filter \<Rightarrow> string \<Rightarrow> string" where
  "shown_value f v = (if value_tail v = [] then record_of f v else value_tail v)"

lemma value_split: "value_head v @ value_tail v = v"
  unfolding value_head_def value_tail_def by (metis rev_append rev_rev_ident takeWhile_dropWhile_id)

lemma value_tail_clean: "clean (value_tail v)"
  by (auto simp: value_tail_def dest: set_takeWhileD)

lemma value_with_delimiter:
  assumes "clean b"
  shows "value_head (a @ CHR ''|'' # b) = a @ ''|'' \<and> value_tail (a @ CHR ''|'' # b) = b"
proof -
  have "takeWhile (\<lambda>c. c \<noteq> CHR ''|'') (rev b @ CHR ''|'' # rev a) = rev b"
    "dropWhile (\<lambda>c. c \<noteq> CHR ''|'') (rev b @ CHR ''|'' # rev a) = CHR ''|'' # rev a"
    using assms by (subst takeWhile_append2 dropWhile_append2; fastforce)+
  then show ?thesis by (simp add: value_head_def value_tail_def)
qed

lemma value_clean:
  assumes "clean v"
  shows "value_head v = [] \<and> value_tail v = v"
proof -
  have t: "takeWhile (\<lambda>c. c \<noteq> CHR ''|'') (rev v) = rev v" using assms by (fastforce simp: takeWhile_eq_all_conv)
  have d: "dropWhile (\<lambda>c. c \<noteq> CHR ''|'') (rev v) = []" using assms by (fastforce simp: dropWhile_eq_Nil_conv)
  show ?thesis unfolding value_head_def value_tail_def t d by simp
qed

lemma shown_value_clean: "clean v \<Longrightarrow> v \<noteq> [] \<Longrightarrow> shown_value f v = v"
  by (simp add: shown_value_def value_clean)

lemma value_cases:
  obtains "clean v" "value_head v = []" "value_tail v = v"
  | a b where "v = a @ CHR ''|'' # b" "clean b" "value_head v = a @ ''|''" "value_tail v = b"
proof (cases "clean v")
  case False
  then obtain a b where "v = a @ CHR ''|'' # b" "clean b" by (metis split_list_last)
  then show thesis using that(2) value_with_delimiter by blast
qed (use that(1) value_clean in blast)

section \<open>Update\<close>

lemma fields_text_last:
  "ts \<noteq> [] \<Longrightarrow> fields_text ts = fields_text (butlast ts) @ last ts @ ''|''"
  by (metis append_butlast_last_id append_Nil2 fields_text_simps)

lemma rewriter_update_fields:
  assumes "ts \<noteq> []"
  shows "rewriter_update (fields_text ts @ rest) v =
    (if clean rest then Inr (fields_text ts @ v)
     else Inr (fields_text ts @ take (the (find_last_of (CHR ''|'') rest)) rest @ CHR ''|'' # v))"
proof (cases "clean rest")
  case True
  then have "find_last_of (CHR ''|'') ((fields_text (butlast ts) @ last ts) @ CHR ''|'' # rest) =
      Some (length (fields_text (butlast ts) @ last ts))"
    by (rule find_last_of_append)
  with True fields_text_last [OF assms] show ?thesis
    by (simp add: rewriter_update_def substr_between_def substr_def)
next
  case False
  then obtain a b where r: "rest = a @ CHR ''|'' # b" "clean b" by (metis split_list_last)
  then have "find_last_of (CHR ''|'') ((fields_text ts @ a) @ CHR ''|'' # b) = Some (length (fields_text ts @ a))"
    and "find_last_of (CHR ''|'') (a @ CHR ''|'' # b) = Some (length a)"
    by (blast intro: find_last_of_append)+
  with r show ?thesis by (simp add: rewriter_update_def substr_between_def substr_def)
qed

lemma rewriter_update_value: "rewriter_update (record_of f v) w = Inr (record_of f (value_head v @ w))"
proof (cases v rule: value_cases)
  case 1
  then show ?thesis using rewriter_update_fields [of "metadata_fields_of f" v w] by (simp add: record_of_def metadata_fields_of_def)
next
  case (2 a b)
  then show ?thesis
    using rewriter_update_fields [of "metadata_fields_of f" v w] find_last_of_append [of "CHR ''|''" b a]
    by (simp add: record_of_def metadata_fields_of_def)
qed

lemma rewriter_update_record:
  "clean v \<Longrightarrow> rewriter_update (record_of f v) w = Inr (record_of f w)"
  by (simp add: rewriter_update_value value_clean)

text \<open>The filter of a text depends on its first eight fields alone.\<close>

lemma gdpr_filter_of_fields:
  assumes "\<forall>t\<in>set ts. clean t" "length ts = 8"
  shows "gdpr_filter_of (Some (fields_text ts @ rest)) =
    run_fields filter_field 0 ts (empty_filter\<lparr>f_valid := True\<rparr>)"
proof -
  have "field_loop 8 filter_field (fields_text ts @ rest) 0 0 (empty_filter\<lparr>f_valid := True\<rparr>) =
      bind_result (run_fields filter_field 0 ts (empty_filter\<lparr>f_valid := True\<rparr>))
        (\<lambda>a. Inr (a, length (fields_text ts), length ts))"
    using assms by (intro field_loop_fields) auto
  with assms(2) show ?thesis
    by (cases "run_fields filter_field 0 ts (empty_filter\<lparr>f_valid := True\<rparr>)")
      (simp_all add: gdpr_filter_of_def metadata_prefix_fields_def)
qed

lemma gdpr_filter_of_InrD:
  assumes "gdpr_filter_of (Some v) = Inr f"
  obtains ts rest where "v = fields_text ts @ rest" "\<forall>t\<in>set ts. clean t" "length ts = 8"
    "run_fields filter_field 0 ts (empty_filter\<lparr>f_valid := True\<rparr>) = Inr f"
proof -
  obtain ts rest where v: "v = fields_text ts @ rest" "\<forall>t\<in>set ts. clean t"
    "length ts = 8 \<or> (length ts < 8 \<and> clean rest)" using fields_text_exists [of v 8] by blast
  have "\<not> (length ts < 8 \<and> clean rest)"
    using assms gdpr_filter_of_short [OF v(2)] unfolding v(1) by fastforce
  with v have "length ts = 8" by blast
  with assms v that show thesis using gdpr_filter_of_fields [of ts rest] by simp
qed

lemma rewriter_update_keeps_metadata:
  assumes "gdpr_filter_of (Some res) = Inr f"
  obtains res' where "rewriter_update res v = Inr res'" "gdpr_filter_of (Some res') = Inr f"
    "v \<noteq> [] \<and> clean v \<longrightarrow> remove_gdpr_metadata res' = v"
proof -
  from assms obtain ts rest where r: "res = fields_text ts @ rest" "\<forall>t\<in>set ts. clean t" "length ts = 8"
    "run_fields filter_field 0 ts (empty_filter\<lparr>f_valid := True\<rparr>) = Inr f" by (rule gdpr_filter_of_InrD)
  have ne: "ts \<noteq> []" using r(3) by auto
  obtain mid where m: "rewriter_update res v = Inr (fields_text ts @ mid @ v)"
    and bar: "\<exists>x. fields_text ts @ mid = x @ ''|''"
  proof (cases "clean rest")
    case True
    then show thesis using that [of "[]"] rewriter_update_fields [OF ne] r(1) fields_text_last [OF ne]
      by auto
  next
    case False
    then show thesis
      using that [of "take (the (find_last_of (CHR ''|'') rest)) rest @ ''|''"]
        rewriter_update_fields [OF ne] r(1) by auto
  qed
  from bar obtain x where x: "fields_text ts @ mid = x @ ''|''" by blast
  then have "fields_text ts @ mid @ v = x @ CHR ''|'' # v" by (metis append.assoc append_Cons append_Nil)
  then have "v \<noteq> [] \<and> clean v \<longrightarrow> remove_gdpr_metadata (fields_text ts @ mid @ v) = v"
    by (metis remove_gdpr_metadata_append)
  then show thesis
    using that [OF m] gdpr_filter_of_fields [OF r(2,3)] r(4) by simp
qed

section \<open>Metadata update\<close>

text \<open>The metadata after a putm: the fields the request names are replaced.\<close>

definition putm_metadata :: "query \<Rightarrow> gdpr_filter \<Rightarrow> int \<Rightarrow> gdpr_filter" where
  "putm_metadata q f t =
     f\<lparr>f_user_key := value_or (q_user_key q) (f_user_key f),
       f_purpose := value_or (q_purpose q) (f_purpose f),
       f_objection := value_or (q_objection q) (f_objection f),
       f_origin := value_or (q_origin q) (f_origin f),
       f_expiration := t,
       f_share := value_or (q_share q) (f_share f),
       f_monitor := value_or (q_monitor q) (f_monitor f)\<rparr>"

definition putm_expiration :: "int \<Rightarrow> query \<Rightarrow> gdpr_filter \<Rightarrow> int result" where
  "putm_expiration now q f =
     (case q_expiration q of Some n \<Rightarrow> get_expiration_time now n | None \<Rightarrow> Inr (f_expiration f))"

lemma run_putm_fields:
  "run_fields (putm_field now q) 0 (metadata_fields_of f) [] =
     bind_result (putm_expiration now q f)
       (\<lambda>t. Inr (fields_text (metadata_fields_of (putm_metadata q f t))))"
proof (cases "putm_expiration now q f")
  case (Inl e)
  then show ?thesis
    by (auto simp: metadata_fields_of_def putm_field_def field_at_def putm_expiration_def split: option.splits)
next
  case (Inr t)
  then show ?thesis
    by (cases "q_expiration q"; cases "q_user_key q"; cases "q_purpose q"; cases "q_objection q";
        cases "q_origin q"; cases "q_share q"; cases "q_monitor q")
      (simp_all add: metadata_fields_of_def putm_field_def field_at_def putm_expiration_def putm_metadata_def)
qed

lemma run_fields_append:
  "run_fields body n (ts @ us) acc = bind_result (run_fields body n ts acc) (run_fields body (n + length ts) us)"
  by (induction ts arbitrary: n acc) (auto simp: bind_result_def split: sum.splits)

lemma rewriter_putm_delimiter:
  assumes "wf_filter f" "clean a"
  shows "rewriter_putm now (record_of f (a @ CHR ''|'' # b)) q =
    bind_result (putm_expiration now q f) (\<lambda>t. Inr (record_of (putm_metadata q f t) (a @ b)))"
proof -
  let ?ts = "metadata_fields_of f @ [a]"
  have r: "record_of f (a @ CHR ''|'' # b) = fields_text ?ts @ b" by (simp add: record_of_def)
  have l: "length (metadata_fields_of f) = 8" by (simp add: metadata_fields_of_def)
  have "field_loop 9 (putm_field now q) (fields_text ?ts @ b) 0 0 [] =
      bind_result (run_fields (putm_field now q) 0 ?ts []) (\<lambda>x. Inr (x, length (fields_text ?ts), 9))"
    using metadata_fields_clean [OF assms(1)] assms(2) l field_loop_fields [of ?ts 9] by simp
  then show ?thesis
    unfolding rewriter_putm_def field_guard_def r run_fields_append run_putm_fields
    by (cases "putm_expiration now q f") (auto simp: l putm_field_def field_at_def record_of_def)
qed

text \<open>A metadata update of any value: the first delimiter of the value is lost.\<close>

lemma rewriter_putm_value:
  assumes "wf_filter f"
  shows "rewriter_putm now (record_of f v) q =
    bind_result (putm_expiration now q f) (\<lambda>t. Inr (record_of (putm_metadata q f t) (remove1 (CHR ''|'') v)))"
proof (cases "clean v")
  case False
  then obtain a b where "v = a @ CHR ''|'' # b" "clean a" by (metis split_list_first)
  then show ?thesis using rewriter_putm_delimiter [OF assms] by (simp add: remove1_append)
next
  case True
  have "field_loop 9 (putm_field now q) (record_of f v) 0 0 [] =
      bind_result (run_fields (putm_field now q) 0 (metadata_fields_of f) [])
        (\<lambda>a. Inr (a, length (fields_text (metadata_fields_of f)), 8))"
    using metadata_fields_clean [OF assms] True
    by (simp add: record_of_def field_loop_fields [where limit = 9])
  then show ?thesis
    unfolding rewriter_putm_def run_putm_fields field_guard_def
    using True by (cases "putm_expiration now q f") (auto simp: record_of_def remove1_idem)
qed

lemma rewriter_putm_record:
  assumes "wf_filter f" "clean v"
  shows "rewriter_putm now (record_of f v) q =
    bind_result (putm_expiration now q f) (\<lambda>t. Inr (record_of (putm_metadata q f t) v))"
  using rewriter_putm_value [OF assms(1)] assms(2) by (simp add: remove1_idem)

lemma putm_expiration_range:
  "wf_filter f \<Longrightarrow> putm_expiration now q f = Inr t \<Longrightarrow> int64_range t"
  by (auto simp: putm_expiration_def wf_filter_def dest: get_expiration_time_range split: option.splits)

definition clean_putm :: "query \<Rightarrow> bool" where
  "clean_putm q \<longleftrightarrow> pred_option clean (q_user_key q) \<and> pred_option clean (q_origin q) \<and>
     pred_option clean (q_share q)"

lemma putm_metadata_wf:
  "\<lbrakk>wf_filter f; clean_putm q; int64_range t\<rbrakk> \<Longrightarrow> wf_filter (putm_metadata q f t)"
  by (cases "q_user_key q"; cases "q_origin q"; cases "q_share q")
    (simp_all add: wf_filter_def putm_metadata_def clean_putm_def)

end
