(* ===== verification/Monitor.thy ===== *)
theory Monitor
  imports Logger_Facts Query_Rewriter
begin

text \<open>
  \<^verbatim>\<open>logging/monitor.hpp\<close>: the decision whether a request is logged. The class has three constructors
  (\<open>monitor_retrieved\<close> for a value that was read, \<open>monitor_first_put\<close> for a new key,
  \<open>monitor_putm\<close>, which no handler calls) and one operation.

  \<open>log_env\<close> collects what a log operation takes from its surroundings: the mutexes other threads
  hold, the paths that can be opened, the encryption of the build and the clock.
\<close>

record 'c log_env =
  le_locked :: "string \<Rightarrow> bool"
  le_can_open :: "string \<Rightarrow> bool"
  le_cipher :: "'c log_cipher"
  le_now :: int

record gdpr_monitor =
  gm_query :: query
  gm_policy :: default_policy
  gm_needed :: bool

definition monitor_retrieved :: "gdpr_filter \<Rightarrow> query \<Rightarrow> default_policy \<Rightarrow> gdpr_monitor" where
  "monitor_retrieved f q p = \<lparr>gm_query = q, gm_policy = p, gm_needed = check_monitoring f\<rparr>"

definition monitor_first_put :: "query \<Rightarrow> default_policy \<Rightarrow> gdpr_monitor" where
  "monitor_first_put q p =
     \<lparr>gm_query = q, gm_policy = p, gm_needed = value_or (q_monitor q) (dp_monitor p)\<rparr>"

definition monitor_putm :: "gdpr_filter \<Rightarrow> query \<Rightarrow> default_policy \<Rightarrow> gdpr_monitor" where
  "monitor_putm f q p =
     \<lparr>gm_query = q, gm_policy = p,
      gm_needed = (if \<not> check_monitoring f \<and> value_or (q_monitor q) False
                   then the (q_monitor q) else check_monitoring f)\<rparr>"

definition monitor_query :: "'c log_env \<Rightarrow> logger \<Rightarrow> gdpr_monitor \<Rightarrow> bool \<Rightarrow> string \<Rightarrow> logger result" where
  "monitor_query env lg m valid new_val =
     (if gm_needed m
      then log_encoded_query (le_locked env) (le_can_open env) (le_cipher env) (le_now env) lg
             (gm_query m) (gm_policy m) valid new_val
      else Inr lg)"

lemma monitor_selectors [simp]:
  "gm_query (monitor_retrieved f q p) = q" "gm_policy (monitor_retrieved f q p) = p"
  "gm_needed (monitor_retrieved f q p) = f_monitor f"
  "gm_query (monitor_first_put q p) = q" "gm_policy (monitor_first_put q p) = p"
  "gm_needed (monitor_first_put q p) = value_or (q_monitor q) (dp_monitor p)"
  by (simp_all add: monitor_retrieved_def monitor_first_put_def check_monitoring_def)

text \<open>The unused constructor logs when the old or the new metadata asks for it.\<close>

lemma monitor_putm_needed:
  "gm_needed (monitor_putm f q p) \<longleftrightarrow> f_monitor f \<or> q_monitor q = Some True"
  by (cases "q_monitor q") (auto simp: monitor_putm_def check_monitoring_def)

section \<open>The effect of a monitored operation on the logs\<close>

definition logger_ok :: "logger \<Rightarrow> bool" where
  "logger_ok lg \<longleftrightarrow> stream_inv lg \<and> streams_exist lg"

text \<open>
  The entry of a request and its stored form, when the call to \<^verbatim>\<open>encrypt\<close> succeeds; \<open>with_entry\<close> is
  the set of log files with that entry at the end of the file of the key.
\<close>

definition logged_bytes :: "'c log_env \<Rightarrow> query \<Rightarrow> default_policy \<Rightarrow> bool \<Rightarrow> string \<Rightarrow> string option" where
  "logged_bytes env q p valid new_val =
     stored_entry (le_cipher env) (request_entry (le_now env) q p valid new_val)"

definition with_entry :: "logger \<Rightarrow> string \<Rightarrow> string \<Rightarrow> string \<rightharpoonup> string" where
  "with_entry lg k s = (lg_fs lg)(log_file_path lg k \<mapsto> file_content lg k @ entry_frame s)"

definition can_log :: "'c log_env \<Rightarrow> logger \<Rightarrow> query \<Rightarrow> default_policy \<Rightarrow> bool \<Rightarrow> string \<Rightarrow> bool" where
  "can_log env lg q p valid new_val \<longleftrightarrow>
     le_can_open env (log_file_path lg (q_key q)) \<and> logged_bytes env q p valid new_val \<noteq> None"

definition logged_fs ::
  "'c log_env \<Rightarrow> logger \<Rightarrow> bool \<Rightarrow> query \<Rightarrow> default_policy \<Rightarrow> bool \<Rightarrow> string \<Rightarrow> string \<rightharpoonup> string" where
  "logged_fs env lg needed q p valid new_val =
     (if needed then with_entry lg (q_key q) (the (logged_bytes env q p valid new_val)) else lg_fs lg)"

lemma monitor_query_ok:
  assumes "logger_ok lg"
    and "gm_needed m \<longrightarrow> can_log env lg (gm_query m) (gm_policy m) valid new_val"
  shows "\<exists>lg'. monitor_query env lg m valid new_val = Inr lg' \<and> logger_ok lg' \<and>
    lg_dir lg' = lg_dir lg \<and> lg_max lg' = lg_max lg \<and>
    lg_fs lg' = logged_fs env lg (gm_needed m) (gm_query m) (gm_policy m) valid new_val"
proof (cases "gm_needed m")
  case True
  with assms(2) obtain s where s: "logged_bytes env (gm_query m) (gm_policy m) valid new_val = Some s"
    and o: "le_can_open env (log_file_path lg (q_key (gm_query m)))"
    by (auto simp: can_log_def)
  then show ?thesis
    using True assms(1) log_encoded_query_ok [where can_open = "le_can_open env", OF _ _ o]
    by (fastforce simp: monitor_query_def logger_ok_def logged_fs_def with_entry_def logged_bytes_def)
next
  case False
  with assms(1) show ?thesis by (simp add: monitor_query_def logged_fs_def)
qed

text \<open>Without any assumption on the surroundings: what is not monitored leaves the logger alone.\<close>

lemma monitor_query_off: "\<not> gm_needed m \<Longrightarrow> monitor_query env lg m valid new_val = Inr lg"
  by (simp add: monitor_query_def)

end
