(* ===== verification/Gdpr_Regulator.thy ===== *)
theory Gdpr_Regulator
  imports Monitor
begin

text \<open>
  \<^verbatim>\<open>gdpr_regulator.hpp\<close> and \<^verbatim>\<open>gdpr_regulator.cpp\<close>: access of the supervisory authority to the logs. The
  order in which \<^verbatim>\<open>std::filesystem::directory_iterator\<close> lists the log directory is unspecified; the
  listing (names and whether the entry is a regular file) is an argument.
\<close>

definition regulator_key :: string where "regulator_key = ''reg''"

record gdpr_regulator =
  gr_timestamp_thres :: int

definition new_regulator :: "int \<Rightarrow> gdpr_regulator" where
  "new_regulator now = \<lparr>gr_timestamp_thres = now\<rparr>"

definition validate_reg_key :: "query \<Rightarrow> default_policy \<Rightarrow> bool" where
  "validate_reg_key q p \<longleftrightarrow> value_or (q_user_key q) (dp_user_key p) = regulator_key"

text \<open>A directory entry's path: the directory and the name, with a separator unless there is one.\<close>

definition entry_path :: "string \<Rightarrow> string \<Rightarrow> string" where
  "entry_path dir name =
     (if dir = [] \<or> last dir = CHR ''/'' then dir @ name else dir @ ''/'' @ name)"

definition get_filenames :: "(string \<times> bool) list \<Rightarrow> string \<Rightarrow> string list" where
  "get_filenames listing dir = map (\<lambda>(name, _). entry_path dir name) (filter snd listing)"

definition retrieve_logs :: "(string \<times> bool) list \<Rightarrow> logger \<Rightarrow> string list" where
  "retrieve_logs listing lg = get_filenames listing (lg_dir lg)"

text \<open>What reading needs beside the logger: as for writing, and what a dangling view yields.\<close>

record 'c read_env =
  re_locked :: "string \<Rightarrow> bool"
  re_can_open :: "string \<Rightarrow> bool"
  re_stale :: "string \<Rightarrow> string"
  re_cipher :: "('c openssl \<times> cipher_engine) option"

definition read_log :: "'c read_env \<Rightarrow> logger \<Rightarrow> gdpr_regulator \<Rightarrow> string \<Rightarrow> (string list \<times> logger) result" where
  "read_log env lg r log_name =
     log_decode (re_locked env) (re_can_open env) (re_stale env) (re_cipher env) lg log_name
       (gr_timestamp_thres r)"

definition read_key_log :: "'c read_env \<Rightarrow> logger \<Rightarrow> gdpr_regulator \<Rightarrow> string \<Rightarrow> (string list \<times> logger) result" where
  "read_key_log env lg r key = read_log env lg r (lg_dir lg @ ''/'' @ key @ log_file_extension)"

lemma retrieve_logs_names:
  "n \<in> set (retrieve_logs listing lg) \<longleftrightarrow> (\<exists>f. (f, True) \<in> set listing \<and> n = entry_path (lg_dir lg) f)"
  by (force simp: retrieve_logs_def get_filenames_def)

section \<open>Reading the log of a key\<close>

lemma find_str_prefix: "take (length pat) s = pat \<Longrightarrow> find_str pat s = Some 0"
  by (cases s) auto

text \<open>The name of a log file leads back to its key when the key has no slash and no \<^verbatim>\<open>.log\<close> in it.\<close>

lemma find_str_append:
  assumes "\<forall>i\<le>length s. take (length pat) (drop i (s @ pat)) = pat \<longrightarrow> i = length s"
  shows "find_str pat (s @ pat) = Some (length s)"
  using assms
proof (induction s)
  case Nil
  show ?case by (simp add: find_str_prefix)
next
  case (Cons c s)
  have "take (length pat) (c # s @ pat) \<noteq> pat" using Cons.prems [rule_format, of 0] by auto
  moreover have "find_str pat (s @ pat) = Some (length s)"
    using Cons.prems [rule_format, of "Suc i" for i] by (intro Cons.IH) auto
  ultimately show ?case by simp
qed

definition loggable_key :: "string \<Rightarrow> bool" where
  "loggable_key k \<longleftrightarrow> CHR ''/'' \<notin> set k \<and> CHR ''.'' \<notin> set k"

lemma extract_key_of_path:
  assumes "loggable_key k"
  shows "extract_key_from_filename (log_file_path lg k) = k"
proof -
  have nd: "CHR ''.'' \<notin> set k" and ns: "CHR ''/'' \<notin> set (k @ log_file_extension)"
    using assms by (auto simp: loggable_key_def log_file_extension_def)
  have "find_last_of (CHR ''/'') (lg_dir lg @ CHR ''/'' # k @ log_file_extension) = Some (length (lg_dir lg))"
    using ns by (rule find_last_of_append)
  moreover have "find_str log_file_extension (k @ log_file_extension) = Some (length k)"
  proof (rule find_str_append, intro allI impI)
    fix i
    assume i: "i \<le> length k"
      and t: "take (length log_file_extension) (drop i (k @ log_file_extension)) = log_file_extension"
    show "i = length k"
    proof (rule ccontr)
      assume "i \<noteq> length k"
      with i have l: "i < length k" by simp
      then have "take (length log_file_extension) (drop i (k @ log_file_extension)) ! 0 = k ! i"
        by (simp add: log_file_extension_def nth_append)
      with t have "k ! i = CHR ''.''" by (simp add: log_file_extension_def)
      with l nd show False by (metis nth_mem)
    qed
  qed
  ultimately show ?thesis
    by (simp add: extract_key_from_filename_def log_file_path_def Let_def)
qed

text \<open>Reading the log of a key comes down to decoding the content of its file.\<close>

lemma read_key_log_decodes:
  assumes "logger_ok lg" "loggable_key k" "lg_fs lg (log_file_path lg k) = Some c"
    and "re_can_open env (log_file_path lg k)"
  shows "\<exists>lg'. read_key_log env lg r k =
      bind_result (read_and_decode_log_entries (re_stale env) (re_cipher env) (gr_timestamp_thres r) c [])
        (\<lambda>es. Inr (es, lg')) \<and>
    logger_ok lg' \<and> lg_dir lg' = lg_dir lg \<and> lg_fs lg' = lg_fs lg"
proof -
  obtain lg' where l: "get_or_open_log_stream (re_locked env) (re_can_open env) lg k = Inr lg'"
    "stream_inv lg'" "streams_exist lg'" "is_open lg' k" "lg_dir lg' = lg_dir lg" "lg_fs lg' = touched lg k"
    using get_or_open_ok [where can_open = "re_can_open env", OF _ _ assms(4)] assms(1)
    by (auto simp: logger_ok_def)
  have fs: "lg_fs lg' = lg_fs lg" using l(6) assms(3) by (simp add: touched_def)
  have p: "log_file_path lg' k = log_file_path lg k" using l(5) by (simp add: log_file_path_def)
  have path: "lg_dir lg @ ''/'' @ k @ log_file_extension = log_file_path lg k"
    by (simp add: log_file_path_def)
  show ?thesis
    unfolding read_key_log_def read_log_def log_decode_def path
    using l fs p assms(3) extract_key_of_path [OF assms(2)]
    by (auto simp: logger_ok_def)
qed

lemma read_key_log_ok:
  assumes "logger_ok lg" "loggable_key k" "lg_fs lg (log_file_path lg k) = Some c"
    and "re_can_open env (log_file_path lg k)"
    and "read_and_decode_log_entries (re_stale env) (re_cipher env) (gr_timestamp_thres r) c [] = Inr es"
  shows "\<exists>lg'. read_key_log env lg r k = Inr (es, lg') \<and> logger_ok lg' \<and> lg_dir lg' = lg_dir lg \<and>
    lg_fs lg' = lg_fs lg"
  using read_key_log_decodes [OF assms(1-4), of r] assms(5) by auto

lemma read_key_log_fails:
  assumes "logger_ok lg" "loggable_key k" "lg_fs lg (log_file_path lg k) = Some c"
    and "re_can_open env (log_file_path lg k)"
    and "read_and_decode_log_entries (re_stale env) (re_cipher env) (gr_timestamp_thres r) c [] = Inl e"
  shows "read_key_log env lg r k = Inl e"
  using read_key_log_decodes [OF assms(1-4), of r] assms(5) by auto

end
