(* ===== verification/Common.thy ===== *)
theory Common
  imports Default_Policy
begin

text \<open>
  \<^verbatim>\<open>common.hpp\<close>: response codes, the command-line lookup and the framed messages between a client and
  a controller.

  A socket is the record \<open>conn\<close>: the bytes the peer will still send before it closes or resets the
  connection, the bytes sent to it, and the number of further \<^verbatim>\<open>sendmsg\<close> calls the connection
  accepts. A \<^verbatim>\<open>recv\<close> with \<^verbatim>\<open>MSG_WAITALL\<close> returns the bytes asked for, fewer at the end of the stream,
  0 at the end and a negative value on a reset connection (\<open>recv_all\<close>). \<^verbatim>\<open>sendmsg\<close> on the blocking
  socket sends everything or fails.

  \<^verbatim>\<open>safe_sock_receive\<close> treats only a negative result of the first \<^verbatim>\<open>recv\<close> as an error, so at the end of
  the stream it goes on with a size whose bytes were not all received: the bytes that were on the
  stack are the argument \<open>junk\<close>, and the facts below hold for every one.
\<close>

definition max_msg_size :: nat where "max_msg_size = 4096"
definition msg_header_size :: nat where "msg_header_size = 4"

definition GET_FAILED :: string where "GET_FAILED = ''0''"
definition PUT_SUCCESS :: string where "PUT_SUCCESS = ''1''"
definition PUT_FAILED :: string where "PUT_FAILED = ''2''"
definition DELETE_SUCCESS :: string where "DELETE_SUCCESS = ''3''"
definition DELETE_FAILED :: string where "DELETE_FAILED = ''4''"
definition GETM_FAILED :: string where "GETM_FAILED = ''5''"
definition PUTM_SUCCESS :: string where "PUTM_SUCCESS = ''6''"
definition PUTM_FAILED :: string where "PUTM_FAILED = ''7''"
definition GET_LOGS_FAILED :: string where "GET_LOGS_FAILED = ''8''"
definition INVALID_COMMAND :: string where "INVALID_COMMAND = ''9''"

lemmas response_codes =
  GET_FAILED_def PUT_SUCCESS_def PUT_FAILED_def DELETE_SUCCESS_def DELETE_FAILED_def GETM_FAILED_def
  PUTM_SUCCESS_def PUTM_FAILED_def GET_LOGS_FAILED_def INVALID_COMMAND_def

section \<open>The command line\<close>

fun option_index :: "string list \<Rightarrow> string \<Rightarrow> nat" where
  "option_index [] opt = 0"
| "option_index (a # as) opt = (if a = opt then 0 else Suc (option_index as opt))"

definition get_command_line_argument :: "string list \<Rightarrow> string \<Rightarrow> string" where
  "get_command_line_argument args opt =
     (if option_index args opt + 1 < length args then args ! (option_index args opt + 1) else [])"

lemma option_index_append:
  "opt \<notin> set xs \<Longrightarrow> option_index (xs @ opt # ys) opt = length xs"
  by (induction xs) auto

lemma option_index_absent: "opt \<notin> set xs \<Longrightarrow> option_index xs opt = length xs"
  by (induction xs) auto

lemma get_command_line_argument_found:
  "opt \<notin> set xs \<Longrightarrow> get_command_line_argument (xs @ opt # v # ys) opt = v"
  by (simp add: get_command_line_argument_def option_index_append nth_append)

lemma get_command_line_argument_absent:
  "opt \<notin> set xs \<Longrightarrow> get_command_line_argument xs opt = []"
  by (simp add: get_command_line_argument_def option_index_absent)

section \<open>Messages\<close>

record conn =
  cn_in :: string
  cn_reset :: bool
  cn_out :: string
  cn_sends :: nat

definition recv_all :: "conn \<Rightarrow> nat \<Rightarrow> int \<times> string \<times> conn" where
  "recv_all c n =
     (if cn_in c = [] \<and> cn_reset c \<and> 0 < n then (-1, [], c)
      else (int (length (take n (cn_in c))), take n (cn_in c), c\<lparr>cn_in := drop n (cn_in c)\<rparr>))"

definition safe_sock_receive :: "string \<Rightarrow> conn \<Rightarrow> int \<times> string \<times> conn" where
  "safe_sock_receive junk c =
     (case recv_all c msg_header_size of
        (bytes_received, header, c1) \<Rightarrow>
          if bytes_received < 0 then (bytes_received, [], c1)
          else
            let msg_size = be_val (header @ drop (length header) (take 4 junk))
            in if max_msg_size < msg_size then (-1, [], c1) else recv_all c1 msg_size)"

text \<open>\<^verbatim>\<open>htonl\<close> takes the low 32 bits of the size; the sum of the two parts is what \<^verbatim>\<open>sendmsg\<close> returns.\<close>

definition message_frame :: "string \<Rightarrow> string" where
  "message_frame s = be_bytes 4 (length s mod 2 ^ 32) @ s"

definition safe_sock_send :: "conn \<Rightarrow> string \<Rightarrow> int \<times> conn" where
  "safe_sock_send c s =
     (case cn_sends c of
        0 \<Rightarrow> (-1, c)
      | Suc n \<Rightarrow> (int (msg_header_size + length s), c\<lparr>cn_out := cn_out c @ message_frame s, cn_sends := n\<rparr>))"

lemma length_message_frame [simp]: "length (message_frame s) = 4 + length s"
  by (simp add: message_frame_def)

text \<open>What one side sends the other receives, up to the size limit.\<close>

lemma receive_message_frame:
  assumes "length s \<le> max_msg_size" "s \<noteq> []"
  shows "safe_sock_receive junk \<lparr>cn_in = message_frame s @ rest, cn_reset = r, cn_out = out, cn_sends = n\<rparr> =
    (int (length s), s, \<lparr>cn_in = rest, cn_reset = r, cn_out = out, cn_sends = n\<rparr>)"
  using assms
  by (simp add: safe_sock_receive_def recv_all_def message_frame_def msg_header_size_def max_msg_size_def)

lemma receive_oversized:
  assumes "max_msg_size < n" "n < 2 ^ 32"
  shows "fst (safe_sock_receive junk (c\<lparr>cn_in := be_bytes 4 n @ rest\<rparr>)) = -1"
proof -
  have "be_bytes 4 n @ rest \<noteq> []" by (metis append_is_Nil_conv length_be_bytes list.size(3) zero_neq_numeral)
  then show ?thesis using assms
    by (simp add: safe_sock_receive_def recv_all_def msg_header_size_def max_msg_size_def)
qed

text \<open>A stream that ends within a header never yields a message, whatever the stack holds.\<close>

lemma receive_closed:
  assumes "length (cn_in c) < 4"
  shows "fst (safe_sock_receive junk c) \<le> 0"
  using assms by (auto simp: safe_sock_receive_def recv_all_def msg_header_size_def Let_def)

text \<open>A message that was received is at most of the maximal size and was taken from the stream.\<close>

lemma safe_sock_receive_SomeD:
  assumes "safe_sock_receive junk c = (n, s, c')" "0 < n"
  shows "n = int (length s) \<and> length s \<le> max_msg_size \<and> cn_out c' = cn_out c \<and>
    cn_sends c' = cn_sends c \<and> length (cn_in c') + 4 + length s \<le> length (cn_in c)"
proof -
  have "\<not> length (cn_in c) < 4" using receive_closed [of c junk] assms by auto
  then show ?thesis using assms
    by (auto simp: safe_sock_receive_def recv_all_def msg_header_size_def Let_def split: if_splits)
qed

end
