(* ===== verification/Controller.thy ===== *)
theory Controller
  imports Kv_Client Gdpr_Regulator Common
begin

text \<open>
  The request handlers of \<^verbatim>\<open>controller.cpp\<close>.

  \<open>world\<close> is what a handler can change: the database and the logger. A handler returns the world it
  leaves together with its response or the exception it raised, so that the state at a crash can be
  spoken of (\<open>outcome\<close>, composed with \<open>then_do\<close>). \<open>req_env\<close> is what the handling of one request
  takes from outside: the clock readings of the check, of the rewriter and of the logger, the vectors
  \<^verbatim>\<open>RAND_bytes\<close> draws for the two encryptions, the mutexes other threads hold, the paths that can be
  opened, the listing of the log directory and what a dangling view yields. When a log read ends the
  process, the logger is reported as it was before that read.
\<close>

record 'd world =
  w_db :: 'd
  w_log :: logger

record ('d, 'c) req_env =
  rq_kv :: "('d, 'c) kv_env"
  rq_check_now :: int
  rq_rewrite_now :: int
  rq_log_now :: int
  rq_db_iv :: "string option"
  rq_log_iv :: "string option"
  rq_locked :: "string \<Rightarrow> bool"
  rq_can_open :: "string \<Rightarrow> bool"
  rq_listing :: "(string \<times> bool) list"
  rq_stale :: "string \<Rightarrow> string"

type_synonym ('w, 'a) outcome = "'w \<times> 'a result"

definition then_do :: "('w, 'a) outcome \<Rightarrow> ('w \<Rightarrow> 'a \<Rightarrow> ('w, 'b) outcome) \<Rightarrow> ('w, 'b) outcome" where
  "then_do r f = (case r of (w, Inl e) \<Rightarrow> (w, Inl e) | (w, Inr a) \<Rightarrow> f w a)"

lemma then_do_simps [simp]:
  "then_do (w, Inl e) f = (w, Inl e)" "then_do (w, Inr a) f = f w a"
  by (simp_all add: then_do_def)

section \<open>The effects of a handler\<close>

definition log_env_of :: "('d, 'c) req_env \<Rightarrow> 'c log_env" where
  "log_env_of env =
     \<lparr>le_locked = rq_locked env, le_can_open = rq_can_open env,
      le_cipher = (if ke_encryption (rq_kv env)
                   then Some (ke_ossl (rq_kv env), ke_engine (rq_kv env), rq_log_iv env) else None),
      le_now = rq_log_now env\<rparr>"

definition read_env_of :: "('d, 'c) req_env \<Rightarrow> 'c read_env" where
  "read_env_of env =
     \<lparr>re_locked = rq_locked env, re_can_open = rq_can_open env, re_stale = rq_stale env,
      re_cipher = (if ke_encryption (rq_kv env)
                   then Some (ke_ossl (rq_kv env), ke_engine (rq_kv env)) else None)\<rparr>"

definition monitored ::
  "('d, 'c) req_env \<Rightarrow> 'd world \<Rightarrow> gdpr_monitor \<Rightarrow> bool \<Rightarrow> string \<Rightarrow> ('d world, unit) outcome" where
  "monitored env w m valid new_val =
     (case monitor_query (log_env_of env) (w_log w) m valid new_val of
        Inl e \<Rightarrow> (w, Inl e)
      | Inr lg \<Rightarrow> (w\<lparr>w_log := lg\<rparr>, Inr ()))"

definition stored :: "'d world \<Rightarrow> (bool \<times> 'd) result \<Rightarrow> ('d world, bool) outcome" where
  "stored w r = (case r of Inl e \<Rightarrow> (w, Inl e) | Inr (b, d) \<Rightarrow> (w\<lparr>w_db := d\<rparr>, Inr b))"

lemma stored_simps [simp]:
  "stored w (Inl e) = (w, Inl e)" "stored w (Inr (b, d)) = (w\<lparr>w_db := d\<rparr>, Inr b)"
  by (simp_all add: stored_def)

section \<open>Handlers\<close>

definition handle_get ::
  "('d, 'c) req_env \<Rightarrow> query \<Rightarrow> default_policy \<Rightarrow> 'd world \<Rightarrow> ('d world, string) outcome" where
  "handle_get env q p w =
     then_do (w, gdpr_get (rq_kv env) (w_db w) (q_key q)) (\<lambda>w res.
     then_do (w, gdpr_filter_of res) (\<lambda>w f.
     then_do (w, validate (rq_check_now env) f q p) (\<lambda>w is_valid.
     then_do (monitored env w (monitor_retrieved f q p) is_valid []) (\<lambda>w _.
       if is_valid
       then (case res of
               Some v \<Rightarrow> (w, Inr (remove_gdpr_metadata v))
             | None \<Rightarrow> (w, Inl Bad_optional_access))
       else (w, Inr GET_FAILED)))))"

definition handle_put ::
  "('d, 'c) req_env \<Rightarrow> query \<Rightarrow> default_policy \<Rightarrow> 'd world \<Rightarrow> ('d world, string) outcome" where
  "handle_put env q p w =
     then_do (w, gdpr_get (rq_kv env) (w_db w) (q_key q)) (\<lambda>w res.
     case res of
       None \<Rightarrow>
         then_do (w, rewriter_insert (rq_rewrite_now env) q p (q_value q)) (\<lambda>w new_value.
         then_do (monitored env w (monitor_first_put q p) True new_value) (\<lambda>w _.
         then_do (stored w (gdpr_put (rq_kv env) (rq_db_iv env) (w_db w) (q_key q) new_value)) (\<lambda>w ret_val.
           (w, Inr (if ret_val then PUT_SUCCESS else PUT_FAILED)))))
     | Some v \<Rightarrow>
         then_do (w, gdpr_filter_of (Some v)) (\<lambda>w f.
         then_do (w, validate (rq_check_now env) f q p) (\<lambda>w is_valid.
         if is_valid then
           then_do (w, rewriter_update v (q_value q)) (\<lambda>w new_value.
           then_do (monitored env w (monitor_retrieved f q p) is_valid new_value) (\<lambda>w _.
           then_do (stored w (gdpr_put (rq_kv env) (rq_db_iv env) (w_db w) (q_key q) new_value)) (\<lambda>w ret_val.
             (w, Inr (if ret_val then PUT_SUCCESS else PUT_FAILED)))))
         else
           then_do (monitored env w (monitor_retrieved f q p) is_valid []) (\<lambda>w _.
             (w, Inr PUT_FAILED)))))"

definition delete_refused :: string where
  "delete_refused = ''DELETE_FAILED: Invalid key or does not comply with GDPR rules''"

definition handle_delete ::
  "('d, 'c) req_env \<Rightarrow> query \<Rightarrow> default_policy \<Rightarrow> 'd world \<Rightarrow> ('d world, string) outcome" where
  "handle_delete env q p w =
     then_do (w, gdpr_get (rq_kv env) (w_db w) (q_key q)) (\<lambda>w res.
     then_do (w, gdpr_filter_of res) (\<lambda>w f.
     then_do (w, validate (rq_check_now env) f q p) (\<lambda>w is_valid.
     then_do (monitored env w (monitor_retrieved f q p) is_valid []) (\<lambda>w _.
       if is_valid then
         then_do (stored w (gdpr_del (rq_kv env) (w_db w) (q_key q))) (\<lambda>w ret_val.
           (w, Inr (if ret_val then DELETE_SUCCESS else DELETE_FAILED)))
       else (w, Inr delete_refused)))))"

definition handle_get_metadata ::
  "('d, 'c) req_env \<Rightarrow> query \<Rightarrow> default_policy \<Rightarrow> 'd world \<Rightarrow> ('d world, string) outcome" where
  "handle_get_metadata env q p w =
     then_do (w, gdpr_getm (rq_kv env) (w_db w) (q_key q)) (\<lambda>w res.
     then_do (w, gdpr_filter_of res) (\<lambda>w f.
     then_do (w, validate (rq_check_now env) f q p) (\<lambda>w is_valid.
     then_do (monitored env w (monitor_retrieved f q p) is_valid []) (\<lambda>w _.
       if is_valid
       then (case res of
               Some v \<Rightarrow> (w, Inr (preserve_only_gdpr_metadata v))
             | None \<Rightarrow> (w, Inl Bad_optional_access))
       else (w, Inr GETM_FAILED)))))"

definition putm_no_key :: string where
  "putm_no_key = ''PUTM_FAILED: The specified key does not exist''"

definition handle_put_metadata ::
  "('d, 'c) req_env \<Rightarrow> query \<Rightarrow> default_policy \<Rightarrow> 'd world \<Rightarrow> ('d world, string) outcome" where
  "handle_put_metadata env q p w =
     then_do (w, gdpr_get (rq_kv env) (w_db w) (q_key q)) (\<lambda>w res.
     case res of
       None \<Rightarrow> (w, Inr putm_no_key)
     | Some v \<Rightarrow>
         then_do (w, gdpr_filter_of (Some v)) (\<lambda>w f.
         then_do (w, validate (rq_check_now env) f q p) (\<lambda>w is_valid.
         if is_valid then
           then_do (w, rewriter_putm (rq_rewrite_now env) v q) (\<lambda>w new_value.
           then_do (monitored env w (monitor_retrieved f q p) is_valid new_value) (\<lambda>w _.
           then_do (stored w (gdpr_putm (rq_kv env) (rq_db_iv env) (w_db w) (q_key q) new_value)) (\<lambda>w ret_val.
             (w, Inr (if ret_val then PUTM_SUCCESS else PUTM_FAILED)))))
         else
           then_do (monitored env w (monitor_retrieved f q p) is_valid []) (\<lambda>w _.
             (w, Inr PUTM_FAILED)))))"

section \<open>Logs for the regulator\<close>

definition lines_text :: "string list \<Rightarrow> string" where
  "lines_text ls = concat (map (\<lambda>l. l @ [CHR 0x0A]) ls)"

fun read_all_logs ::
  "'c read_env \<Rightarrow> gdpr_regulator \<Rightarrow> logger \<Rightarrow> string list \<Rightarrow> string \<Rightarrow> (string \<times> logger) result" where
  "read_all_logs env r lg [] response = Inr (response, lg)"
| "read_all_logs env r lg (l # ls) response =
     bind_result (read_log env lg r l) (\<lambda>(entries, lg').
       read_all_logs env r lg' ls (response @ lines_text [''Log file: '' @ l] @ lines_text entries))"

definition handle_get_logs ::
  "('d, 'c) req_env \<Rightarrow> query \<Rightarrow> default_policy \<Rightarrow> 'd world \<Rightarrow> ('d world, string) outcome" where
  "handle_get_logs env q p w =
     (if \<not> validate_reg_key q p then (w, Inr GET_LOGS_FAILED)
      else
        let regulator = new_regulator (rq_check_now env);
            finish = (\<lambda>r. case r of
                      Inl e \<Rightarrow> (w, Inl e)
                    | Inr (response, lg) \<Rightarrow> (w\<lparr>w_log := lg\<rparr>, Inr response))
        in if q_log_key q = ''read_all'' then
             finish (read_all_logs (read_env_of env) regulator (w_log w)
                     (retrieve_logs (rq_listing env) (w_log w)) (lines_text [''Reading all the log files:'']))
           else if q_log_key q = ''dir'' then
             finish (Inr (lines_text (''Available log files:'' # retrieve_logs (rq_listing env) (w_log w)), w_log w))
           else
             finish (bind_result (read_key_log (read_env_of env) (w_log w) regulator (q_log_key q))
               (\<lambda>(entries, lg). Inr (lines_text ((''Reading the log file of key '' @ q_log_key q @ '':'') # entries), lg))))"

section \<open>Dispatch\<close>

text \<open>The branches of the connection loop on the command, without \<^verbatim>\<open>exit\<close>.\<close>

definition dispatch ::
  "('d, 'c) req_env \<Rightarrow> query \<Rightarrow> default_policy \<Rightarrow> 'd world \<Rightarrow> ('d world, string) outcome" where
  "dispatch env q p w =
     (if q_cmd q = ''invalid'' then (w, Inr INVALID_COMMAND)
      else if q_cmd q = ''get'' then handle_get env q p w
      else if q_cmd q = ''put'' then handle_put env q p w
      else if q_cmd q = ''delete'' then handle_delete env q p w
      else if q_cmd q = ''putm'' then handle_put_metadata env q p w
      else if q_cmd q = ''getm'' then handle_get_metadata env q p w
      else if q_cmd q = ''getlogs'' then handle_get_logs env q p w
      else (w, Inr INVALID_COMMAND))"

end
