(* ===== verification/Controller_Facts.thy ===== *)
theory Controller_Facts
  imports Controller
begin

text \<open>
  What the handlers do, at two levels.

  The first part needs nothing of the backend, of OpenSSL or of the stored bytes: which handlers can
  change the database at all, and that none does, and none returns data, unless the stored record
  of the key grants the request.

  The second part is the refinement of the abstract store \<open>gdpr_state\<close>, a map from keys to
  metadata and value, over any backend that is a \<open>gdpr_store\<close>: each handler gives the response of
  the abstract operation, leaves a database that represents its result, and leaves the log files
  that the monitoring flag of the record asks for.
\<close>

lemmas handler_defs =
  handle_get_def handle_put_def handle_delete_def handle_get_metadata_def handle_put_metadata_def
  handle_get_logs_def

lemmas outcome_splits =
  prod.splits sum.splits option.splits if_splits

section \<open>Access needs a grant\<close>

definition access_granted :: "('d, 'c) req_env \<Rightarrow> query \<Rightarrow> default_policy \<Rightarrow> 'd \<Rightarrow> bool" where
  "access_granted env q p d \<longleftrightarrow>
     (\<exists>v f. gdpr_get (rq_kv env) d (q_key q) = Inr (Some v) \<and> gdpr_filter_of (Some v) = Inr f \<and>
            permitted (rq_check_now env) f q p)"

lemma handle_get_db: "w_db (fst (handle_get env q p w)) = w_db w"
  by (auto simp: handle_get_def then_do_def monitored_def split: outcome_splits)

lemma handle_get_metadata_db: "w_db (fst (handle_get_metadata env q p w)) = w_db w"
  by (auto simp: handle_get_metadata_def then_do_def monitored_def split: outcome_splits)

lemma handle_get_logs_db: "w_db (fst (handle_get_logs env q p w)) = w_db w"
  by (auto simp: handle_get_logs_def Let_def split: outcome_splits)

text \<open>The check is total: it never raises, and accepts exactly the valid records that permit.\<close>

lemma granted_cases:
  assumes "gdpr_filter_of res = Inr f" "f_valid f \<and> permitted (rq_check_now env) f q p"
    and "gdpr_get (rq_kv env) d (q_key q) = Inr res"
  shows "access_granted env q p d"
  using assms by (cases res) (auto simp: access_granted_def empty_filter_def)

lemma refused_cases:
  assumes "\<not> access_granted env q p d" "gdpr_get (rq_kv env) d (q_key q) = Inr res"
    and "gdpr_filter_of res = Inr f"
  shows "\<not> (f_valid f \<and> permitted (rq_check_now env) f q p)"
  using granted_cases [OF assms(3) _ assms(2)] assms(1) by blast

lemma handle_delete_db:
  assumes "\<not> access_granted env q p (w_db w)"
  shows "w_db (fst (handle_delete env q p w)) = w_db w"
  using refused_cases [OF assms]
  by (auto simp: handle_delete_def then_do_def monitored_def validate_iff_permitted split: outcome_splits)

lemma handle_put_db:
  assumes "\<not> access_granted env q p (w_db w)"
    and "gdpr_get (rq_kv env) (w_db w) (q_key q) \<noteq> Inr None"
  shows "w_db (fst (handle_put env q p w)) = w_db w"
  using refused_cases [OF assms(1)] assms(2)
  by (auto simp: handle_put_def then_do_def monitored_def validate_iff_permitted split: outcome_splits)

lemma handle_put_metadata_db:
  assumes "\<not> access_granted env q p (w_db w)"
  shows "w_db (fst (handle_put_metadata env q p w)) = w_db w"
  using refused_cases [OF assms]
  by (auto simp: handle_put_metadata_def then_do_def monitored_def validate_iff_permitted split: outcome_splits)

lemma dispatch_db:
  assumes "\<not> access_granted env q p (w_db w)"
    and "q_cmd q = ''put'' \<longrightarrow> gdpr_get (rq_kv env) (w_db w) (q_key q) \<noteq> Inr None"
  shows "w_db (fst (dispatch env q p w)) = w_db w"
  using assms
  by (simp add: dispatch_def handle_get_db handle_get_metadata_db handle_get_logs_db handle_delete_db
      handle_put_db handle_put_metadata_db)

text \<open>A request reaches the database through at most one write, and that under its own key.\<close>

definition one_write :: "('d, 'c) req_env \<Rightarrow> string \<Rightarrow> 'd \<Rightarrow> 'd \<Rightarrow> bool" where
  "one_write env k d d' \<longleftrightarrow> d' = d \<or>
     (\<exists>v b. gdpr_put (rq_kv env) (rq_db_iv env) d k v = Inr (b, d')) \<or>
     (\<exists>v b. gdpr_putm (rq_kv env) (rq_db_iv env) d k v = Inr (b, d')) \<or>
     (\<exists>b. gdpr_del (rq_kv env) d k = Inr (b, d'))"

lemma handle_put_one_write: "one_write env (q_key q) (w_db w) (w_db (fst (handle_put env q p w)))"
  by (auto simp: one_write_def handle_put_def then_do_def monitored_def stored_def split: outcome_splits)

lemma handle_put_metadata_one_write:
  "one_write env (q_key q) (w_db w) (w_db (fst (handle_put_metadata env q p w)))"
  by (auto simp: one_write_def handle_put_metadata_def then_do_def monitored_def stored_def split: outcome_splits)

lemma handle_delete_one_write: "one_write env (q_key q) (w_db w) (w_db (fst (handle_delete env q p w)))"
  by (auto simp: one_write_def handle_delete_def then_do_def monitored_def stored_def split: outcome_splits)

lemma dispatch_one_write: "one_write env (q_key q) (w_db w) (w_db (fst (dispatch env q p w)))"
proof -
  have "one_write env (q_key q) (w_db w) (w_db w)" by (simp add: one_write_def)
  then show ?thesis
    by (simp add: dispatch_def handle_get_db handle_get_metadata_db handle_get_logs_db handle_put_one_write
        handle_put_metadata_one_write handle_delete_one_write)
qed

text \<open>What a read returns.\<close>

lemma handle_get_response:
  assumes "handle_get env q p w = (w', Inr r)" "r \<noteq> GET_FAILED"
  shows "\<exists>v f. gdpr_get (rq_kv env) (w_db w) (q_key q) = Inr (Some v) \<and> gdpr_filter_of (Some v) = Inr f \<and>
    permitted (rq_check_now env) f q p \<and> r = remove_gdpr_metadata v"
  using assms
  by (auto simp: handle_get_def then_do_def monitored_def validate_iff_permitted split: outcome_splits)

lemma handle_get_metadata_response:
  assumes "handle_get_metadata env q p w = (w', Inr r)" "r \<noteq> GETM_FAILED"
  shows "\<exists>v f. gdpr_getm (rq_kv env) (w_db w) (q_key q) = Inr (Some v) \<and> gdpr_filter_of (Some v) = Inr f \<and>
    permitted (rq_check_now env) f q p \<and> r = preserve_only_gdpr_metadata v"
  using assms
  by (auto simp: handle_get_metadata_def then_do_def monitored_def validate_iff_permitted split: outcome_splits)

section \<open>The abstract store\<close>

type_synonym gdpr_state = "string \<rightharpoonup> gdpr_filter \<times> string"

text \<open>
  A database that holds records with well-formed metadata, that is without a delimiter in a field. The
  values are any text.
\<close>

definition represents :: "(string \<rightharpoonup> string) \<Rightarrow> gdpr_state \<Rightarrow> bool" where
  "represents db st \<longleftrightarrow>
     (\<forall>k. db k = map_option (\<lambda>(f, v). record_of f v) (st k)) \<and>
     (\<forall>k f v. st k = Some (f, v) \<longrightarrow> wf_filter f)"

text \<open>The record a request may use: the one under its key, if that permits the request.\<close>

definition spec_access :: "int \<Rightarrow> gdpr_state \<Rightarrow> query \<Rightarrow> default_policy \<Rightarrow> (gdpr_filter \<times> string) option" where
  "spec_access now st q p =
     (case st (q_key q) of
        Some (f, v) \<Rightarrow> if permitted now f q p then Some (f, v) else None
      | None \<Rightarrow> None)"

lemma represents_None: "represents db st \<Longrightarrow> st k = None \<Longrightarrow> db k = None"
  by (simp add: represents_def)

lemma represents_Some:
  "represents db st \<Longrightarrow> st k = Some (f, v) \<Longrightarrow> db k = Some (record_of f v) \<and> wf_filter f"
  by (auto simp: represents_def)

lemma represents_update:
  "\<lbrakk>represents db st; wf_filter f\<rbrakk> \<Longrightarrow> represents (db(k \<mapsto> record_of f v)) (st(k \<mapsto> (f, v)))"
  by (simp add: represents_def)

lemma represents_delete: "represents db st \<Longrightarrow> represents (db(k := None)) (st(k := None))"
  by (simp add: represents_def)

section \<open>The log\<close>

text \<open>The logger works, the file of the key can be opened and encryption of the entry succeeds.\<close>

definition log_ready :: "('d, 'c) req_env \<Rightarrow> logger \<Rightarrow> query \<Rightarrow> default_policy \<Rightarrow> bool" where
  "log_ready env lg q p \<longleftrightarrow> logger_ok lg \<and> rq_can_open env (log_file_path lg (q_key q)) \<and>
     (\<forall>valid v. logged_bytes (log_env_of env) q p valid v \<noteq> None)"

definition audited ::
  "('d, 'c) req_env \<Rightarrow> logger \<Rightarrow> bool \<Rightarrow> query \<Rightarrow> default_policy \<Rightarrow> bool \<Rightarrow> string \<Rightarrow> logger \<Rightarrow> bool" where
  "audited env lg needed q p valid v lg' \<longleftrightarrow> logger_ok lg' \<and> lg_dir lg' = lg_dir lg \<and> lg_max lg' = lg_max lg \<and>
     lg_fs lg' = logged_fs (log_env_of env) lg needed q p valid v"

lemma monitored_ok:
  assumes "log_ready env (w_log w) q p" "gm_query m = q" "gm_policy m = p"
  shows "\<exists>lg'. monitored env w m valid v = (w\<lparr>w_log := lg'\<rparr>, Inr ()) \<and>
    audited env (w_log w) (gm_needed m) q p valid v lg'"
proof -
  have "\<exists>lg'. monitor_query (log_env_of env) (w_log w) m valid v = Inr lg' \<and>
      audited env (w_log w) (gm_needed m) q p valid v lg'"
    using monitor_query_ok [of "w_log w" m "log_env_of env" valid v] assms
    by (auto simp: log_ready_def can_log_def log_env_of_def audited_def)
  then show ?thesis by (auto simp: monitored_def)
qed

section \<open>Refinement\<close>

context gdpr_store
begin

text \<open>Reads return: the response of the abstract store, an unchanged database and the audit entry.\<close>

lemma get_refines:
  assumes kv: "rq_kv renv = env" and d: "store_inv (w_db w)" "store_key (q_key q)"
    and r: "represents (pairs (w_db w)) st" and l: "log_ready renv (w_log w) q p"
  shows "\<exists>lg'. handle_get renv q p w =
      (w\<lparr>w_log := lg'\<rparr>,
       Inr (case spec_access (rq_check_now renv) st q p of
              Some (f, v) \<Rightarrow> remove_gdpr_metadata (record_of f v) | None \<Rightarrow> GET_FAILED)) \<and>
    audited renv (w_log w) (\<exists>f v. st (q_key q) = Some (f, v) \<and> f_monitor f) q p
      (spec_access (rq_check_now renv) st q p \<noteq> None) [] lg'"
proof (cases "st (q_key q)")
  case None
  then show ?thesis
    using monitored_ok [OF l, of "monitor_retrieved empty_filter q p" False "[]"]
      gget [OF d] represents_None [OF r None] kv
    by (auto simp: handle_get_def validate_iff_permitted spec_access_def empty_filter_def)
next
  case (Some fv)
  obtain f v where fv: "fv = (f, v)" by (cases fv)
  note s = represents_Some [OF r Some [unfolded fv]]
  show ?thesis
    using monitored_ok [OF l, of "monitor_retrieved f q p" "permitted (rq_check_now renv) f q p" "[]"]
      gget [OF d] s kv Some fv
    by (auto simp: handle_get_def validate_iff_permitted gdpr_filter_of_record spec_access_def wf_filter_def)
qed

lemma getm_refines:
  assumes kv: "rq_kv renv = env" and d: "store_inv (w_db w)" "store_key (q_key q)"
    and r: "represents (pairs (w_db w)) st" and l: "log_ready renv (w_log w) q p"
  shows "\<exists>lg'. handle_get_metadata renv q p w =
      (w\<lparr>w_log := lg'\<rparr>,
       Inr (case spec_access (rq_check_now renv) st q p of
              Some (f, v) \<Rightarrow> preserve_only_gdpr_metadata (record_of f v) | None \<Rightarrow> GETM_FAILED)) \<and>
    audited renv (w_log w) (\<exists>f v. st (q_key q) = Some (f, v) \<and> f_monitor f) q p
      (spec_access (rq_check_now renv) st q p \<noteq> None) [] lg'"
proof (cases "st (q_key q)")
  case None
  then show ?thesis
    using monitored_ok [OF l, of "monitor_retrieved empty_filter q p" False "[]"]
      ggetm [OF d] represents_None [OF r None] kv
    by (auto simp: handle_get_metadata_def validate_iff_permitted spec_access_def empty_filter_def)
next
  case (Some fv)
  obtain f v where fv: "fv = (f, v)" by (cases fv)
  note s = represents_Some [OF r Some [unfolded fv]]
  show ?thesis
    using monitored_ok [OF l, of "monitor_retrieved f q p" "permitted (rq_check_now renv) f q p" "[]"]
      ggetm [OF d] s kv Some fv
    by (auto simp: handle_get_metadata_def validate_iff_permitted gdpr_filter_of_record spec_access_def wf_filter_def)
qed

end

text \<open>
  A write leaves the database in \<open>result\<close> of the abstract operation if it reports success and as it
  was otherwise.
\<close>

definition write_result ::
  "('d \<Rightarrow> string \<rightharpoonup> string) \<Rightarrow> ('d \<Rightarrow> bool) \<Rightarrow> gdpr_state \<Rightarrow> gdpr_state \<Rightarrow> string \<Rightarrow> string \<Rightarrow> 'd \<Rightarrow> string \<Rightarrow> bool" where
  "write_result pairs ok st st' success failure d' response \<longleftrightarrow> ok d' \<and>
     (response = success \<and> represents (pairs d') st' \<or> response = failure \<and> represents (pairs d') st)"

context gdpr_store_live
begin

lemma put_step:
  assumes "store_inv (w_db w)" "store_key k" "store_val v" "length iv = initialization_vector_len"
  shows "\<exists>b d'. stored w (gdpr_put env (Some iv) (w_db w) k v) = (w\<lparr>w_db := d'\<rparr>, Inr b) \<and> store_inv d' \<and>
    pairs d' = (if b then (pairs (w_db w))(k \<mapsto> v) else pairs (w_db w))"
  using gput_returns [OF assms] gput [OF assms] by force

lemma putm_step:
  assumes "store_inv (w_db w)" "store_key k" "store_val v" "length iv = initialization_vector_len"
  shows "\<exists>b d'. stored w (gdpr_putm env (Some iv) (w_db w) k v) = (w\<lparr>w_db := d'\<rparr>, Inr b) \<and> store_inv d' \<and>
    pairs d' = (if b then (pairs (w_db w))(k \<mapsto> v) else pairs (w_db w))"
  using gputm_returns [OF assms] gputm [OF assms] by force

lemma del_step:
  assumes "store_inv (w_db w)" "store_key k"
  shows "\<exists>b d'. stored w (gdpr_del env (w_db w) k) = (w\<lparr>w_db := d'\<rparr>, Inr b) \<and> store_inv d' \<and>
    pairs d' = (if b then (pairs (w_db w))(k := None) else pairs (w_db w))"
  using gdel_returns [OF assms] gdel [OF assms] by force

text \<open>The first put of a key.\<close>

lemma insert_refines:
  assumes kv: "rq_kv renv = env" and d: "store_inv (w_db w)" "store_key (q_key q)"
    and r: "represents (pairs (w_db w)) st" and l: "log_ready renv (w_log w) q p"
    and iv: "rq_db_iv renv = Some iv" "length iv = initialization_vector_len"
    and new: "st (q_key q) = None" and c: "clean_request q p"
    and t: "get_expiration_time (rq_rewrite_now renv) (value_or (q_expiration q) (dp_expiration p)) = Inr t"
    and sv: "store_val (record_of (insert_metadata q p t) (q_value q))"
  shows "\<exists>w' resp. handle_put renv q p w = (w', Inr resp) \<and>
    write_result pairs store_inv st (st(q_key q \<mapsto> (insert_metadata q p t, q_value q)))
      PUT_SUCCESS PUT_FAILED (w_db w') resp \<and>
    audited renv (w_log w) (value_or (q_monitor q) (dp_monitor p)) q p True
      (record_of (insert_metadata q p t) (q_value q)) (w_log w')"
proof -
  let ?f = "insert_metadata q p t" let ?v = "record_of ?f (q_value q)"
  have wf: "wf_filter ?f" using insert_metadata_wf [OF c] get_expiration_time_range [OF t] by blast
  obtain lg where lg: "monitored renv w (monitor_first_put q p) True ?v = (w\<lparr>w_log := lg\<rparr>, Inr ())"
    "audited renv (w_log w) (value_or (q_monitor q) (dp_monitor p)) q p True ?v lg"
    using monitored_ok [OF l, of "monitor_first_put q p"] by auto
  obtain b d' where s: "stored (w\<lparr>w_log := lg\<rparr>) (gdpr_put env (Some iv) (w_db w) (q_key q) ?v) =
      (w\<lparr>w_log := lg, w_db := d'\<rparr>, Inr b)" "store_inv d'"
    "pairs d' = (if b then (pairs (w_db w))(q_key q \<mapsto> ?v) else pairs (w_db w))"
    using put_step [of "w\<lparr>w_log := lg\<rparr>" "q_key q" ?v iv] d sv iv(2) by auto
  have "handle_put renv q p w = (w\<lparr>w_log := lg, w_db := d'\<rparr>, Inr (if b then PUT_SUCCESS else PUT_FAILED))"
    using gget [OF d] represents_None [OF r new] kv t iv(1) lg(1) s(1)
    by (simp add: handle_put_def rewriter_insert_eq)
  then show ?thesis
    using s(2,3) lg(2) r represents_update [OF r wf] by (auto simp: write_result_def)
qed

text \<open>A put, a metadata update or a deletion of a key whose record grants the request.\<close>

lemma update_refines:
  assumes kv: "rq_kv renv = env" and d: "store_inv (w_db w)" "store_key (q_key q)"
    and r: "represents (pairs (w_db w)) st" and l: "log_ready renv (w_log w) q p"
    and iv: "rq_db_iv renv = Some iv" "length iv = initialization_vector_len"
    and g: "spec_access (rq_check_now renv) st q p = Some (f, v)"
    and sv: "store_val (record_of f (value_head v @ q_value q))"
  shows "\<exists>w' resp. handle_put renv q p w = (w', Inr resp) \<and>
    write_result pairs store_inv st (st(q_key q \<mapsto> (f, value_head v @ q_value q))) PUT_SUCCESS PUT_FAILED (w_db w') resp \<and>
    audited renv (w_log w) (f_monitor f) q p True (record_of f (value_head v @ q_value q)) (w_log w')"
proof -
  let ?v = "record_of f (value_head v @ q_value q)"
  from g have st: "st (q_key q) = Some (f, v)" and pm: "permitted (rq_check_now renv) f q p"
    by (auto simp: spec_access_def split: option.splits if_splits)
  note s = represents_Some [OF r st]
  then have wf: "wf_filter f" "f_valid f" by (simp_all add: wf_filter_def)
  obtain lg where lg: "monitored renv w (monitor_retrieved f q p) True ?v = (w\<lparr>w_log := lg\<rparr>, Inr ())"
    "audited renv (w_log w) (f_monitor f) q p True ?v lg"
    using monitored_ok [OF l, of "monitor_retrieved f q p"] by auto
  obtain b d' where u: "stored (w\<lparr>w_log := lg\<rparr>) (gdpr_put env (Some iv) (w_db w) (q_key q) ?v) =
      (w\<lparr>w_log := lg, w_db := d'\<rparr>, Inr b)" "store_inv d'"
    "pairs d' = (if b then (pairs (w_db w))(q_key q \<mapsto> ?v) else pairs (w_db w))"
    using put_step [of "w\<lparr>w_log := lg\<rparr>" "q_key q" ?v iv] d sv iv(2) by auto
  have "handle_put renv q p w = (w\<lparr>w_log := lg, w_db := d'\<rparr>, Inr (if b then PUT_SUCCESS else PUT_FAILED))"
    using gget [OF d] s wf pm kv iv(1) lg(1) u(1)
    by (simp add: handle_put_def validate_iff_permitted gdpr_filter_of_record rewriter_update_value)
  then show ?thesis
    using u(2,3) lg(2) r represents_update [OF r wf(1)] by (auto simp: write_result_def)
qed

lemma putm_refines:
  assumes kv: "rq_kv renv = env" and d: "store_inv (w_db w)" "store_key (q_key q)"
    and r: "represents (pairs (w_db w)) st" and l: "log_ready renv (w_log w) q p"
    and iv: "rq_db_iv renv = Some iv" "length iv = initialization_vector_len"
    and g: "spec_access (rq_check_now renv) st q p = Some (f, v)" and c: "clean_putm q"
    and t: "putm_expiration (rq_rewrite_now renv) q f = Inr t"
    and sv: "store_val (record_of (putm_metadata q f t) (remove1 (CHR ''|'') v))"
  shows "\<exists>w' resp. handle_put_metadata renv q p w = (w', Inr resp) \<and>
    write_result pairs store_inv st (st(q_key q \<mapsto> (putm_metadata q f t, remove1 (CHR ''|'') v)))
      PUTM_SUCCESS PUTM_FAILED (w_db w') resp \<and>
    audited renv (w_log w) (f_monitor f) q p True (record_of (putm_metadata q f t) (remove1 (CHR ''|'') v)) (w_log w')"
proof -
  let ?v = "record_of (putm_metadata q f t) (remove1 (CHR ''|'') v)"
  from g have st: "st (q_key q) = Some (f, v)" and pm: "permitted (rq_check_now renv) f q p"
    by (auto simp: spec_access_def split: option.splits if_splits)
  note s = represents_Some [OF r st]
  then have wf: "wf_filter f" "f_valid f" by (simp_all add: wf_filter_def)
  have wf': "wf_filter (putm_metadata q f t)"
    using putm_metadata_wf [OF wf(1) c] putm_expiration_range [OF wf(1) t] by blast
  obtain lg where lg: "monitored renv w (monitor_retrieved f q p) True ?v = (w\<lparr>w_log := lg\<rparr>, Inr ())"
    "audited renv (w_log w) (f_monitor f) q p True ?v lg"
    using monitored_ok [OF l, of "monitor_retrieved f q p"] by auto
  obtain b d' where u: "stored (w\<lparr>w_log := lg\<rparr>) (gdpr_putm env (Some iv) (w_db w) (q_key q) ?v) =
      (w\<lparr>w_log := lg, w_db := d'\<rparr>, Inr b)" "store_inv d'"
    "pairs d' = (if b then (pairs (w_db w))(q_key q \<mapsto> ?v) else pairs (w_db w))"
    using putm_step [of "w\<lparr>w_log := lg\<rparr>" "q_key q" ?v iv] d sv iv(2) by auto
  have "handle_put_metadata renv q p w =
      (w\<lparr>w_log := lg, w_db := d'\<rparr>, Inr (if b then PUTM_SUCCESS else PUTM_FAILED))"
    using gget [OF d] s wf pm kv iv(1) lg(1) u(1) t
    by (simp add: handle_put_metadata_def validate_iff_permitted gdpr_filter_of_record rewriter_putm_value)
  then show ?thesis
    using u(2,3) lg(2) r represents_update [OF r wf'] by (auto simp: write_result_def)
qed

lemma delete_refines:
  assumes kv: "rq_kv renv = env" and d: "store_inv (w_db w)" "store_key (q_key q)"
    and r: "represents (pairs (w_db w)) st" and l: "log_ready renv (w_log w) q p"
    and g: "spec_access (rq_check_now renv) st q p = Some (f, v)"
  shows "\<exists>w' resp. handle_delete renv q p w = (w', Inr resp) \<and>
    write_result pairs store_inv st (st(q_key q := None)) DELETE_SUCCESS DELETE_FAILED (w_db w') resp \<and>
    audited renv (w_log w) (f_monitor f) q p True [] (w_log w')"
proof -
  from g have st: "st (q_key q) = Some (f, v)" and pm: "permitted (rq_check_now renv) f q p"
    by (auto simp: spec_access_def split: option.splits if_splits)
  note s = represents_Some [OF r st]
  then have wf: "wf_filter f" "f_valid f" by (simp_all add: wf_filter_def)
  obtain lg where lg: "monitored renv w (monitor_retrieved f q p) True [] = (w\<lparr>w_log := lg\<rparr>, Inr ())"
    "audited renv (w_log w) (f_monitor f) q p True [] lg"
    using monitored_ok [OF l, of "monitor_retrieved f q p"] by auto
  obtain b d' where u: "stored (w\<lparr>w_log := lg\<rparr>) (gdpr_del env (w_db w) (q_key q)) =
      (w\<lparr>w_log := lg, w_db := d'\<rparr>, Inr b)" "store_inv d'"
    "pairs d' = (if b then (pairs (w_db w))(q_key q := None) else pairs (w_db w))"
    using del_step [of "w\<lparr>w_log := lg\<rparr>" "q_key q"] d by auto
  have "handle_delete renv q p w =
      (w\<lparr>w_log := lg, w_db := d'\<rparr>, Inr (if b then DELETE_SUCCESS else DELETE_FAILED))"
    using gget [OF d] s wf pm kv lg(1) u(1)
    by (simp add: handle_delete_def validate_iff_permitted gdpr_filter_of_record)
  then show ?thesis
    using u(2,3) lg(2) r represents_delete [OF r] by (auto simp: write_result_def)
qed

end

text \<open>
  A record that permits no request, in a store that carries every key and value: no request changes
  it.
\<close>

context gdpr_store
begin

lemma one_write_other:
  assumes "one_write renv k d d'" "rq_kv renv = env" "rq_db_iv renv = Some iv" "length iv = initialization_vector_len"
    and "store_inv d" "store_key k" "\<And>v. store_val v" "k' \<noteq> k"
  shows "store_inv d' \<and> pairs d' k' = pairs d k'"
  using assms gput [OF assms(5,6) _ assms(4), of _ _ d'] gputm [OF assms(5,6) _ assms(4), of _ _ d']
    gdel [OF assms(5,6), of _ d']
  by (auto simp: one_write_def)

lemma dispatch_keeps_denied_record:
  assumes kv: "rq_kv renv = env" "rq_db_iv renv = Some iv" "length iv = initialization_vector_len"
    and all: "\<And>k. store_key k" "\<And>v. store_val v"
    and w: "store_inv (w_db w)" "pairs (w_db w) k = Some (record_of f v)" "wf_filter f"
    and denied: "\<And>q. \<not> permitted (rq_check_now renv) f q p"
  shows "store_inv (w_db (fst (dispatch renv q p w))) \<and> pairs (w_db (fst (dispatch renv q p w))) k = Some (record_of f v)"
proof (cases "q_key q = k")
  case True
  then have g: "gdpr_get (rq_kv renv) (w_db w) (q_key q) = Inr (Some (record_of f v))"
    using gget [OF w(1) all(1), of k] kv(1) w(2) by simp
  then have "\<not> access_granted renv q p (w_db w)"
    using denied gdpr_filter_of_record [OF w(3)] by (simp add: access_granted_def)
  then have "w_db (fst (dispatch renv q p w)) = w_db w" using g by (intro dispatch_db) auto
  with w show ?thesis by simp
next
  case False
  then show ?thesis
    using one_write_other [OF dispatch_one_write kv w(1) all(1) all(2), of k q p] w(2) by auto
qed

end

text \<open>An expiration that overflows: the request raises before it logs or writes.\<close>

context gdpr_store
begin

lemma insert_raises:
  assumes "rq_kv renv = env" "store_inv (w_db w)" "store_key (q_key q)" "represents (pairs (w_db w)) st" "st (q_key q) = None"
    and "get_expiration_time (rq_rewrite_now renv) (value_or (q_expiration q) (dp_expiration p)) = Inl e"
  shows "handle_put renv q p w = (w, Inl e)"
  using assms gget [OF assms(2,3)] represents_None [OF assms(4,5)] by (simp add: handle_put_def rewriter_insert_eq)

lemma putm_raises:
  assumes "rq_kv renv = env" "store_inv (w_db w)" "store_key (q_key q)" "represents (pairs (w_db w)) st"
    and g: "spec_access (rq_check_now renv) st q p = Some (f, v)" and "putm_expiration (rq_rewrite_now renv) q f = Inl e"
  shows "handle_put_metadata renv q p w = (w, Inl e)"
proof -
  from g have st: "st (q_key q) = Some (f, v)" and pm: "permitted (rq_check_now renv) f q p"
    by (auto simp: spec_access_def split: option.splits if_splits)
  note s = represents_Some [OF assms(4) st]
  then have "f_valid f" by (simp add: wf_filter_def)
  with s pm assms(1,6) gget [OF assms(2,3)] show ?thesis
    by (simp add: handle_put_metadata_def validate_iff_permitted gdpr_filter_of_record rewriter_putm_value)
qed

end

text \<open>A write whose record does not grant it: the refusal, an unchanged database and the audit entry.\<close>

context gdpr_store
begin

lemma refused_writes:
  assumes kv: "rq_kv renv = env" and d: "store_inv (w_db w)" "store_key (q_key q)"
    and r: "represents (pairs (w_db w)) st" and l: "log_ready renv (w_log w) q p"
    and st: "st (q_key q) = Some (f, v)" and g: "\<not> permitted (rq_check_now renv) f q p"
  shows "\<exists>lg'. audited renv (w_log w) (f_monitor f) q p False [] lg' \<and>
    handle_put renv q p w = (w\<lparr>w_log := lg'\<rparr>, Inr PUT_FAILED) \<and>
    handle_put_metadata renv q p w = (w\<lparr>w_log := lg'\<rparr>, Inr PUTM_FAILED) \<and>
    handle_delete renv q p w = (w\<lparr>w_log := lg'\<rparr>, Inr delete_refused)"
  using monitored_ok [OF l, of "monitor_retrieved f q p" False "[]"] gget [OF d] represents_Some [OF r st] kv g
  by (auto simp: handle_put_def handle_put_metadata_def handle_delete_def validate_iff_permitted
      gdpr_filter_of_record)

end

end
