(* ===== verification/Rocksdb_Message.thy ===== *)
theory Rocksdb_Message
  imports Codec
begin

text \<open>
  \<^verbatim>\<open>rocksdb_server/message.hpp\<close>: the text messages between the RocksDB client and its server. The
  two classes are records with the same members; the setters are record updates and the getters
  selectors. A query is \<^verbatim>\<open>command key value\<close> separated by blanks, a response one status byte
  followed by data.

  The lemmas give the result of parsing what the client prints, which is the same query for keys
  without a blank and, for put, a non-empty value. A query with another command loses its value.
\<close>

record query_message =
  qm_command :: string
  qm_key :: string
  qm_value :: string
  qm_is_valid :: bool

definition empty_query_message :: query_message where
  "empty_query_message = \<lparr>qm_command = [], qm_key = [], qm_value = [], qm_is_valid = False\<rparr>"

definition query_serialize :: "query_message \<Rightarrow> string" where
  "query_serialize m =
     qm_command m @ '' '' @ qm_key m @ (if qm_value m \<noteq> [] then '' '' @ qm_value m else [])"

definition valid_query_types :: "string list" where
  "valid_query_types = [''get'', ''put'', ''del'', ''getm'', ''putm'']"

definition query_deserialize :: "string \<Rightarrow> query_message result" where
  "query_deserialize raw_query =
     (case find_from (CHR '' '') raw_query 0 of
        None \<Rightarrow> Inr empty_query_message
      | Some first_space \<Rightarrow>
          bind_result (substr_between raw_query 0 (Some first_space)) (\<lambda>command.
          let request = empty_query_message\<lparr>qm_command := command\<rparr>
          in if command \<notin> set valid_query_types then Inr request
             else
               let key_start = first_space + 1
               in if length raw_query \<le> key_start then Inr request
                  else
                    let key_end = find_from (CHR '' '') raw_query key_start
                    in bind_result (substr_between raw_query key_start key_end) (\<lambda>key.
                       let request = request\<lparr>qm_key := key\<rparr>
                       in if command = ''put'' then
                            let value_start = after key_end
                            in if length raw_query \<le> value_start then Inr request
                               else bind_result (substr_from raw_query value_start)
                                      (\<lambda>v. Inr (request\<lparr>qm_value := v, qm_is_valid := True\<rparr>))
                          else Inr (request\<lparr>qm_is_valid := True\<rparr>))))"

record response_message =
  rm_is_success :: bool
  rm_data :: string

definition response_serialize :: "response_message \<Rightarrow> string" where
  "response_serialize r = (if rm_is_success r then ''1'' else ''0'') @ rm_data r"

definition response_deserialize :: "string \<Rightarrow> response_message" where
  "response_deserialize raw_response =
     (let invalid_response = \<lparr>rm_is_success = False, rm_data = []\<rparr>
      in case raw_response of
           [] \<Rightarrow> invalid_response
         | valid # response_data \<Rightarrow>
             if valid \<noteq> CHR ''0'' \<and> valid \<noteq> CHR ''1'' then invalid_response
             else \<lparr>rm_is_success = (valid = CHR ''1''), rm_data = response_data\<rparr>)"

section \<open>Round trips\<close>

lemma response_roundtrip [simp]: "response_deserialize (response_serialize r) = r"
  by (cases r) (simp add: response_deserialize_def response_serialize_def)

interpretation response_text: codec response_serialize "\<lambda>s. Inr (response_deserialize s)" "\<lambda>_. True"
  by unfold_locales simp

text \<open>A message that the server reads back as it was sent.\<close>

definition sendable :: "query_message \<Rightarrow> bool" where
  "sendable m \<longleftrightarrow> qm_command m \<in> set valid_query_types \<and> qm_key m \<noteq> [] \<and>
     CHR '' '' \<notin> set (qm_key m) \<and> (qm_command m = ''put'' \<longleftrightarrow> qm_value m \<noteq> []) \<and> qm_is_valid m"

lemma command_no_blank: "c \<in> set valid_query_types \<Longrightarrow> CHR '' '' \<notin> set c"
  by (auto simp: valid_query_types_def)

lemma query_deserialize_with_value:
  assumes "c \<in> set valid_query_types" "k \<noteq> []" "CHR '' '' \<notin> set k" "v \<noteq> []"
  shows "query_deserialize (c @ '' '' @ k @ '' '' @ v) =
    Inr \<lparr>qm_command = c, qm_key = k, qm_value = (if c = ''put'' then v else []), qm_is_valid = True\<rparr>"
proof -
  let ?s = "c @ CHR '' '' # k @ CHR '' '' # v"
  have f1: "find_from (CHR '' '') ?s 0 = Some (length c)"
    using command_no_blank [OF assms(1)] by (simp add: find_from_0)
  have f2: "find_from (CHR '' '') ?s (length c + 1) = Some (length c + 1 + length k)"
    using assms(3) find_from_append [of "CHR '' ''" "c @ '' ''" "k @ CHR '' '' # v"] by simp
  have d: "drop (length c + 1 + length k + 1) ?s = v"
    by (rule drop_prefix [where p = "c @ CHR '' '' # k @ '' ''"]) simp_all
  show ?thesis
    using assms f1 f2 d substr_between_find [OF f1] substr_between_find [OF f2]
    by (simp add: query_deserialize_def empty_query_message_def Let_def)
qed

lemma query_deserialize_no_value:
  assumes "c \<in> set valid_query_types" "c \<noteq> ''put''" "k \<noteq> []" "CHR '' '' \<notin> set k"
  shows "query_deserialize (c @ '' '' @ k) =
    Inr \<lparr>qm_command = c, qm_key = k, qm_value = [], qm_is_valid = True\<rparr>"
proof -
  let ?s = "c @ CHR '' '' # k"
  have f1: "find_from (CHR '' '') ?s 0 = Some (length c)"
    using command_no_blank [OF assms(1)] by (simp add: find_from_0)
  have f2: "find_from (CHR '' '') ?s (length c + 1) = None"
    using assms(4) find_from_append [of "CHR '' ''" "c @ '' ''" "k"] by simp
  show ?thesis
    using assms f1 f2 substr_between_find [OF f1]
    by (simp add: query_deserialize_def empty_query_message_def Let_def substr_between_def)
qed

lemma query_roundtrip: "sendable m \<Longrightarrow> query_deserialize (query_serialize m) = Inr m"
  using query_deserialize_with_value [of "qm_command m" "qm_key m" "qm_value m"]
    query_deserialize_no_value [of "qm_command m" "qm_key m"]
  by (cases m) (auto simp: sendable_def query_serialize_def)

interpretation query_text: codec query_serialize query_deserialize sendable
  by unfold_locales (rule query_roundtrip)

end
