(* ===== verification/Rocksdb_Server.thy ===== *)
theory Rocksdb_Server
  imports Rocksdb_Message
begin

text \<open>
  \<^verbatim>\<open>rocksdb_server/rocksdb_proxy.hpp\<close> and the session loop of \<^verbatim>\<open>rocksdb_server/server.cpp\<close>.

  The RocksDB library is not part of the repository: its \<^verbatim>\<open>Get\<close>, \<^verbatim>\<open>Put\<close> and \<^verbatim>\<open>Delete\<close> are fields
  of \<open>rocksdb_lib\<close>, over a type of database states, returning whether the status is OK. Two more
  fields stand for the connection of a client to the server: whether its \<^verbatim>\<open>boost::asio::write\<close> and
  \<^verbatim>\<open>boost::asio::read\<close> raise in a state. The server does not use these.
  \<open>proxy_execute\<close> dispatches a query to them. \<open>handle_read\<close> is the read loop of a session over the
  bytes the client sends: a 4-byte little-endian length, then the message; a stream that ends
  inside a message is the end-of-file exception the loop catches. A negative length is not caught:
  the size of the buffer becomes larger than any vector, and \<^verbatim>\<open>std::length_error\<close> ends the process.
\<close>

record 'd rocksdb_lib =
  rdb_Get :: "'d \<Rightarrow> string \<Rightarrow> string option"
  rdb_Put :: "'d \<Rightarrow> string \<Rightarrow> string \<Rightarrow> bool \<times> 'd"
  rdb_Delete :: "'d \<Rightarrow> string \<Rightarrow> bool \<times> 'd"
  rdb_write :: "'d \<Rightarrow> cpp_error option"
  rdb_read :: "'d \<Rightarrow> cpp_error option"

section \<open>The proxy\<close>

definition proxy_get :: "'d rocksdb_lib \<Rightarrow> 'd \<Rightarrow> string \<Rightarrow> response_message" where
  "proxy_get lib d key =
     (case rdb_Get lib d key of
        Some v \<Rightarrow> \<lparr>rm_is_success = True, rm_data = v\<rparr>
      | None \<Rightarrow> \<lparr>rm_is_success = False, rm_data = []\<rparr>)"

definition proxy_put :: "'d rocksdb_lib \<Rightarrow> 'd \<Rightarrow> string \<Rightarrow> string \<Rightarrow> response_message \<times> 'd" where
  "proxy_put lib d key v =
     (case rdb_Put lib d key v of
        (ok, d') \<Rightarrow> (if ok then \<lparr>rm_is_success = True, rm_data = []\<rparr>
                     else \<lparr>rm_is_success = False, rm_data = []\<rparr>, d'))"

definition proxy_del :: "'d rocksdb_lib \<Rightarrow> 'd \<Rightarrow> string \<Rightarrow> response_message \<times> 'd" where
  "proxy_del lib d key =
     (case rdb_Delete lib d key of
        (ok, d') \<Rightarrow> (if ok then \<lparr>rm_is_success = True, rm_data = []\<rparr>
                     else \<lparr>rm_is_success = False, rm_data = []\<rparr>, d'))"

definition proxy_execute :: "'d rocksdb_lib \<Rightarrow> 'd \<Rightarrow> query_message \<Rightarrow> response_message \<times> 'd" where
  "proxy_execute lib d q =
     (if \<not> qm_is_valid q then (\<lparr>rm_is_success = False, rm_data = []\<rparr>, d)
      else if qm_command q = ''get'' \<or> qm_command q = ''getm'' then (proxy_get lib d (qm_key q), d)
      else if qm_command q = ''put'' \<or> qm_command q = ''putm'' then proxy_put lib d (qm_key q) (qm_value q)
      else proxy_del lib d (qm_key q))"

section \<open>The session\<close>

datatype session_end = Client_finished | Server_crash cpp_error

text \<open>\<open>frame\<close>: a message with its size in front, as both sides write it.\<close>

definition frame :: "string \<Rightarrow> string" where
  "frame s = le_bytes 4 (length s) @ s"

definition frame_length :: "string \<Rightarrow> int" where
  "frame_length input = to_signed 32 (le_val (take 4 input))"

text \<open>
  The loop of a session around the way a query is executed, which may raise; \<open>handle_read\<close> is the
  loop over an open database.
\<close>

function session_loop ::
  "('s \<Rightarrow> query_message \<Rightarrow> (response_message \<times> 's) result) \<Rightarrow> 's \<Rightarrow> string \<Rightarrow> string \<Rightarrow> 's \<times> string \<times> session_end" where
  "session_loop exec d input out =
     (if length input < 4 then (d, out, Client_finished)
      else
        let message_length = frame_length input; rest = drop 4 input
        in if message_length < 0 then (d, out, Server_crash Length_error)
           else if length rest < nat message_length then (d, out, Client_finished)
           else (case bind_result (query_deserialize (take (nat message_length) rest)) (exec d) of
                   Inl e \<Rightarrow> (d, out, Server_crash e)
                 | Inr (response, d') \<Rightarrow>
                     session_loop exec d' (drop (nat message_length) rest)
                       (out @ frame (response_serialize response))))"
  by pat_completeness auto
termination
  by (relation "measure (\<lambda>(exec, d, input, out). length input)") auto

declare session_loop.simps [simp del]

definition handle_read ::
  "'d rocksdb_lib \<Rightarrow> 'd \<Rightarrow> string \<Rightarrow> string \<Rightarrow> 'd \<times> string \<times> session_end" where
  "handle_read lib d input out = session_loop (\<lambda>d q. Inr (proxy_execute lib d q)) d input out"

section \<open>The process\<close>

text \<open>
  The constructor of \<^verbatim>\<open>rocksdb_proxy\<close> goes on when the database cannot be opened, with a null pointer
  (\<open>None\<close>) that the first valid query of any client dereferences.
\<close>

definition pointer_execute :: "'d rocksdb_lib \<Rightarrow> 'd option \<Rightarrow> query_message \<Rightarrow> (response_message \<times> 'd option) result" where
  "pointer_execute lib db q =
     (if \<not> qm_is_valid q then Inr (\<lparr>rm_is_success = False, rm_data = []\<rparr>, db)
      else case db of
             None \<Rightarrow> Inl Undefined_behaviour
           | Some d \<Rightarrow> (case proxy_execute lib d q of (r, d') \<Rightarrow> Inr (r, Some d')))"

definition session_start :: "'d rocksdb_lib \<Rightarrow> 'd option \<Rightarrow> string \<Rightarrow> 'd option \<times> string \<times> session_end" where
  "session_start lib db input = session_loop (pointer_execute lib) db input []"

lemma length_frame [simp]: "length (frame s) = 4 + length s"
  by (simp add: frame_def)

lemma frame_length_frame: "length s < 2 ^ 31 \<Longrightarrow> frame_length (frame s @ r) = int (length s)"
  by (simp add: frame_length_def frame_def to_signed_def)

lemma drop_frame [simp]: "drop 4 (frame s) = s"
  by (simp add: frame_def)

lemma handle_read_frame:
  assumes "length s < 2 ^ 31" "query_deserialize s = Inr q" "proxy_execute lib d q = (r, d')"
  shows "handle_read lib d (frame s @ rest) out = handle_read lib d' rest (out @ frame (response_serialize r))"
  using assms
  by (simp add: handle_read_def session_loop.simps [of _ d "frame s @ rest"] frame_length_frame Let_def)

lemma handle_read_Nil [simp]: "handle_read lib d [] out = (d, out, Client_finished)"
  by (simp add: handle_read_def session_loop.simps [of _ d "[]"])

lemma query_deserialize_total: "\<exists>q. query_deserialize s = Inr q"
  by (auto simp: query_deserialize_def substr_between_def substr_def substr_from_def Let_def
      split: option.splits dest!: find_from_SomeD(1,2))

lemma session_start_open:
  "session_loop (pointer_execute lib) (Some d) input out =
     (case handle_read lib d input out of (d', out', e) \<Rightarrow> (Some d', out', e))"
  unfolding handle_read_def
proof (induction "\<lambda>d q. Inr (proxy_execute lib d q) :: (response_message \<times> 'a) result" d input out rule: session_loop.induct)
  case (1 d input out)
  obtain q where q: "query_deserialize (take (nat (frame_length input)) (drop 4 input)) = Inr q"
    using query_deserialize_total by blast
  have "pointer_execute lib (Some d) q = Inr (fst (proxy_execute lib d q), Some (snd (proxy_execute lib d q)))"
    by (simp add: pointer_execute_def proxy_execute_def split: prod.split)
  then show ?case
    using "1.hyps" q
    by (subst session_loop.simps, subst (2) session_loop.simps) (auto simp: Let_def split: prod.splits)
qed

section \<open>What a session does with any input\<close>

text \<open>
  The input of a session is a list of whole messages and what is left behind them: less than a whole
  message, or a frame with a negative length. Every message is read as some query.
\<close>

function split_frames :: "string \<Rightarrow> string list \<times> string" where
  "split_frames input =
     (if length input < 4 \<or> frame_length input < 0 \<or> length (drop 4 input) < nat (frame_length input) then ([], input)
      else (case split_frames (drop (nat (frame_length input)) (drop 4 input)) of
              (ss, left) \<Rightarrow> (take (nat (frame_length input)) (drop 4 input) # ss, left)))"
  by pat_completeness auto
termination
  by (relation "measure length") auto

declare split_frames.simps [simp del]

definition parsed_query :: "string \<Rightarrow> query_message" where
  "parsed_query s = (case query_deserialize s of Inr q \<Rightarrow> q | Inl _ \<Rightarrow> empty_query_message)"

definition leftover_end :: "string \<Rightarrow> session_end" where
  "leftover_end left = (if 4 \<le> length left \<and> frame_length left < 0 then Server_crash Length_error else Client_finished)"

lemma deserialize_parsed: "query_deserialize s = Inr (parsed_query s)"
  using query_deserialize_total [of s] by (auto simp: parsed_query_def)

lemma split_frames_frame:
  "length s < 2 ^ 31 \<Longrightarrow> split_frames (frame s @ rest) = (case split_frames rest of (ss, left) \<Rightarrow> (s # ss, left))"
  by (subst split_frames.simps) (simp add: frame_length_frame)

text \<open>The queries of a session executed one after the other.\<close>

fun run_proxy :: "'d rocksdb_lib \<Rightarrow> 'd \<Rightarrow> query_message list \<Rightarrow> response_message list \<times> 'd" where
  "run_proxy lib d [] = ([], d)"
| "run_proxy lib d (m # ms) =
     (case proxy_execute lib d m of (r, d1) \<Rightarrow> case run_proxy lib d1 ms of (rs, d2) \<Rightarrow> (r # rs, d2))"

lemma handle_read_split:
  "handle_read lib d input out =
     (case split_frames input of (ss, left) \<Rightarrow>
        case run_proxy lib d (map parsed_query ss) of
          (rs, d') \<Rightarrow> (d', out @ concat (map (\<lambda>r. frame (response_serialize r)) rs), leftover_end left))"
  unfolding handle_read_def
proof (induction "\<lambda>d q. Inr (proxy_execute lib d q) :: (response_message \<times> 'a) result" d input out rule: session_loop.induct)
  case (1 d input out)
  then show ?case
    by (subst session_loop.simps, subst split_frames.simps)
      (auto simp: Let_def leftover_end_def deserialize_parsed split: prod.splits)
qed

text \<open>Over a database that did not open, the first valid query brings the server down.\<close>

lemma session_start_closed:
  "snd (snd (session_loop (pointer_execute lib) None input out)) =
     (case split_frames input of (ss, left) \<Rightarrow>
        if list_ex (\<lambda>s. qm_is_valid (parsed_query s)) ss then Server_crash Undefined_behaviour else leftover_end left)"
proof (induction "pointer_execute lib" "None :: 'a option" input out rule: session_loop.induct)
  case (1 input out)
  then show ?case
    by (subst session_loop.simps, subst split_frames.simps)
      (auto simp: Let_def leftover_end_def deserialize_parsed pointer_execute_def split: prod.splits)
qed

end
