(* ===== verification/Rocksdb_Client.thy ===== *)
theory Rocksdb_Client
  imports Kv_Client Rocksdb_Server
begin

text \<open>
  \<^verbatim>\<open>kv_client/rocksdb.hpp\<close>: the backend that sends its operations to the RocksDB server. An operation
  is one frame through the server's session loop and the frame that comes back; \<open>client_execute\<close> is
  the private \<^verbatim>\<open>execute\<close>. A connection that breaks is the exception of \<^verbatim>\<open>boost::asio::write\<close> or, once the
  server may have executed the query, of \<^verbatim>\<open>boost::asio::read\<close> (\<open>rdb_write\<close>, \<open>rdb_read\<close>); so is a missing
  or short answer, and a negative size is the length error of the buffer.

  \<open>rocksdb_contract\<close> states the documented behaviour of the library and \<open>rocksdb_connected\<close> adds that the
  connection holds; the sublocale proves the backend contract for the keys and values the message
  format can carry. There is no law for \<^verbatim>\<open>putm\<close>: the server drops its value
  (\<open>rocksdb_putm_drops_value\<close>).
\<close>

section \<open>Connecting\<close>

text \<open>
  The constructor: the address is cut at every colon (\<^verbatim>\<open>boost::split\<close>); \<open>asserts\<close> says whether the build
  keeps \<^verbatim>\<open>assert\<close>, and \<open>connects\<close> whether resolving and connecting to a host and a port succeeds. The
  result is the end of the connection.
\<close>

definition rocksdb_connect :: "bool \<Rightarrow> (string \<Rightarrow> string \<Rightarrow> bool) \<Rightarrow> string \<Rightarrow> (string \<times> string) result" where
  "rocksdb_connect asserts connects addr =
     (let host_port_splits = split_on (CHR '':'') addr
      in if asserts \<and> length host_port_splits \<noteq> 2 then Inl Assert_failed
         else if length host_port_splits < 2 then Inl Undefined_behaviour
         else if connects (host_port_splits ! 0) (host_port_splits ! 1)
              then Inr (host_port_splits ! 0, host_port_splits ! 1)
         else Inl (Runtime_error ''connect''))"

lemma rocksdb_connect_host_port:
  assumes "CHR '':'' \<notin> set host" "CHR '':'' \<notin> set port" "connects host port"
  shows "rocksdb_connect asserts connects (host @ '':'' @ port) = Inr (host, port)"
  using assms by (simp add: rocksdb_connect_def Let_def)

section \<open>Operations\<close>

definition client_receive :: "string \<Rightarrow> response_message result" where
  "client_receive out =
     (if length out < 4 then Inl (Runtime_error ''End of file'')
      else let response_size = frame_length out; rest = drop 4 out
           in if response_size < 0 then Inl Length_error
              else if length rest < nat response_size then Inl (Runtime_error ''End of file'')
              else Inr (response_deserialize (take (nat response_size) rest)))"

definition client_execute ::
  "'d rocksdb_lib \<Rightarrow> 'd \<Rightarrow> query_message \<Rightarrow> (response_message \<times> 'd) result" where
  "client_execute lib d query =
     (case rdb_write lib d of
        Some e \<Rightarrow> Inl e
      | None \<Rightarrow>
          (case handle_read lib d (frame (query_serialize query)) [] of
             (d', out, _) \<Rightarrow>
               (case rdb_read lib d' of
                  Some e \<Rightarrow> Inl e
                | None \<Rightarrow> bind_result (client_receive out) (\<lambda>r. Inr (r, d')))))"

definition connected :: "'d rocksdb_lib \<Rightarrow> bool" where
  "connected lib \<longleftrightarrow> (\<forall>d. rdb_write lib d = None \<and> rdb_read lib d = None)"

definition new_message :: "string \<Rightarrow> string \<Rightarrow> string \<Rightarrow> query_message" where
  "new_message command key v =
     \<lparr>qm_command = command, qm_key = key, qm_value = v, qm_is_valid = True\<rparr>"

definition rocksdb_get :: "'d rocksdb_lib \<Rightarrow> 'd \<Rightarrow> string \<Rightarrow> string option result" where
  "rocksdb_get lib d key =
     bind_result (client_execute lib d (new_message ''get'' key []))
       (\<lambda>(r, _). if rm_is_success r then Inr (Some (rm_data r)) else Inr None)"

definition rocksdb_put :: "'d rocksdb_lib \<Rightarrow> 'd \<Rightarrow> string \<Rightarrow> string \<Rightarrow> (bool \<times> 'd) result" where
  "rocksdb_put lib d key v =
     bind_result (client_execute lib d (new_message ''put'' key v)) (\<lambda>(r, d'). Inr (rm_is_success r, d'))"

definition rocksdb_del :: "'d rocksdb_lib \<Rightarrow> 'd \<Rightarrow> string \<Rightarrow> (bool \<times> 'd) result" where
  "rocksdb_del lib d key =
     bind_result (client_execute lib d (new_message ''del'' key [])) (\<lambda>(r, d'). Inr (rm_is_success r, d'))"

definition rocksdb_getm :: "'d rocksdb_lib \<Rightarrow> 'd \<Rightarrow> string \<Rightarrow> string option result" where
  "rocksdb_getm lib d key =
     bind_result (client_execute lib d (new_message ''getm'' key []))
       (\<lambda>(r, _). if rm_is_success r then Inr (Some (rm_data r)) else Inr None)"

definition rocksdb_putm :: "'d rocksdb_lib \<Rightarrow> 'd \<Rightarrow> string \<Rightarrow> string \<Rightarrow> (bool \<times> 'd) result" where
  "rocksdb_putm lib d key v =
     bind_result (client_execute lib d (new_message ''putm'' key v)) (\<lambda>(r, d'). Inr (rm_is_success r, d'))"

definition rocksdb_backend :: "'d rocksdb_lib \<Rightarrow> 'd kv_backend" where
  "rocksdb_backend lib =
     \<lparr>kb_get = rocksdb_get lib, kb_put = rocksdb_put lib, kb_del = rocksdb_del lib,
      kb_getm = rocksdb_getm lib, kb_putm = rocksdb_putm lib\<rparr>"

section \<open>One operation through the server\<close>

lemma client_receive_frame:
  "length (response_serialize r) < 2 ^ 31 \<Longrightarrow> client_receive (frame (response_serialize r)) = Inr r"
  using frame_length_frame [of "response_serialize r" "[]"]
  by (simp add: client_receive_def Let_def)

lemma client_execute_eq:
  assumes "connected lib" "query_deserialize (query_serialize m) = Inr q" "length (query_serialize m) < 2 ^ 31"
    and "proxy_execute lib d q = (r, d')" "length (rm_data r) < 2 ^ 30"
  shows "client_execute lib d m = Inr (r, d')"
proof -
  have "handle_read lib d (frame (query_serialize m)) [] = (d', frame (response_serialize r), Client_finished)"
    using handle_read_frame [OF assms(3,2,4), of "[]" "[]"] by simp
  moreover have "length (response_serialize r) < 2 ^ 31"
    using assms(5) by (simp add: response_serialize_def)
  ultimately show ?thesis using assms(1) by (simp add: client_execute_def client_receive_frame connected_def)
qed

lemma broken_connection:
  assumes "rdb_write lib d = Some e \<or> rdb_write lib d = None \<and> (\<forall>d'. rdb_read lib d' = Some e)"
  shows "client_execute lib d m = Inl e"
  using assms by (auto simp: client_execute_def split: prod.split)

definition rocksdb_key :: "string \<Rightarrow> bool" where
  "rocksdb_key k \<longleftrightarrow> k \<noteq> [] \<and> CHR '' '' \<notin> set k \<and> length k < 2 ^ 29"

definition rocksdb_val :: "string \<Rightarrow> bool" where
  "rocksdb_val v \<longleftrightarrow> v \<noteq> [] \<and> length v < 2 ^ 30"

lemma client_execute_sendable:
  assumes "connected lib" "sendable m" "rocksdb_key (qm_key m)" "length (qm_value m) < 2 ^ 30"
    and "proxy_execute lib d m = (r, d')" "length (rm_data r) < 2 ^ 30"
  shows "client_execute lib d m = Inr (r, d')"
proof (rule client_execute_eq [OF assms(1) query_roundtrip [OF assms(2)] _ assms(5,6)])
  have "length (qm_command m) \<le> 4" using assms(2) by (auto simp: sendable_def valid_query_types_def)
  then show "length (query_serialize m) < 2 ^ 31"
    using assms(3,4) by (simp add: query_serialize_def rocksdb_key_def)
qed

lemma sendable_new_message:
  "rocksdb_key k \<Longrightarrow> v \<noteq> [] \<Longrightarrow> sendable (new_message ''put'' k v)"
  "rocksdb_key k \<Longrightarrow> c \<in> {''get'', ''getm'', ''del''} \<Longrightarrow> sendable (new_message c k [])"
  by (auto simp: sendable_def new_message_def rocksdb_key_def valid_query_types_def)

text \<open>
  A key with a blank is cut at the blank by the server: what follows is taken for the value, which only
  a put looks at.
\<close>

lemma client_execute_cong:
  assumes "query_deserialize (query_serialize m) = query_deserialize (query_serialize m')"
    and "length (query_serialize m) < 2 ^ 31" "length (query_serialize m') < 2 ^ 31"
  shows "client_execute lib d m = client_execute lib d m'"
proof -
  obtain q where q: "query_deserialize (query_serialize m) = Inr q" using query_deserialize_total by blast
  obtain r d' where r: "proxy_execute lib d q = (r, d')" by fastforce
  show ?thesis
    using handle_read_frame [OF assms(2) q r, of "[]" "[]"] handle_read_frame [OF assms(3) _ r, of "[]" "[]"] q assms(1)
    by (simp add: client_execute_def split: option.split)
qed

lemma blank_key_message:
  assumes "rocksdb_key k" "x \<noteq> []" "length x < 2 ^ 29"
  shows "c \<in> {''get'', ''getm'', ''del''} \<Longrightarrow>
      client_execute lib d (new_message c (k @ '' '' @ x) []) = client_execute lib d (new_message c k [])"
    and "v \<noteq> [] \<Longrightarrow> length v < 2 ^ 29 \<Longrightarrow>
      client_execute lib d (new_message ''put'' (k @ '' '' @ x) v) = client_execute lib d (new_message ''put'' k (x @ '' '' @ v))"
  using assms query_deserialize_with_value [of c k x] query_deserialize_no_value [of c k]
  by (auto intro!: client_execute_cong simp: query_serialize_def new_message_def rocksdb_key_def valid_query_types_def)

lemma blank_key_operations:
  assumes "rocksdb_key k" "x \<noteq> []" "length x < 2 ^ 29"
  shows "rocksdb_get lib d (k @ '' '' @ x) = rocksdb_get lib d k"
    and "rocksdb_getm lib d (k @ '' '' @ x) = rocksdb_getm lib d k"
    and "rocksdb_del lib d (k @ '' '' @ x) = rocksdb_del lib d k"
    and "v \<noteq> [] \<Longrightarrow> length v < 2 ^ 29 \<Longrightarrow> rocksdb_put lib d (k @ '' '' @ x) v = rocksdb_put lib d k (x @ '' '' @ v)"
  using blank_key_message(1) [OF assms, where lib = lib and d = d] blank_key_message(2) [OF assms, where lib = lib and d = d]
  by (simp_all add: rocksdb_get_def rocksdb_getm_def rocksdb_del_def rocksdb_put_def)

text \<open>
  What the client relies on in RocksDB: \<^verbatim>\<open>Get\<close> returns the value last put under a key or a status
  that is not OK, and \<^verbatim>\<open>Put\<close> and \<^verbatim>\<open>Delete\<close> have their effect when the status is OK.
\<close>

locale rocksdb_contract =
  fixes lib :: "'d rocksdb_lib" and rocksdb_pairs :: "'d \<Rightarrow> string \<rightharpoonup> string"
  assumes rocksdb_Get: "rdb_Get lib d k = rocksdb_pairs d k"
    and rocksdb_Put: "rdb_Put lib d k v = (ok, d') \<Longrightarrow>
        rocksdb_pairs d' = (if ok then (rocksdb_pairs d)(k \<mapsto> v) else rocksdb_pairs d)"
    and rocksdb_Delete: "rdb_Delete lib d k = (ok, d') \<Longrightarrow>
        rocksdb_pairs d' = (if ok then (rocksdb_pairs d)(k := None) else rocksdb_pairs d)"

definition rocksdb_inv :: "('d \<Rightarrow> string \<rightharpoonup> string) \<Rightarrow> 'd \<Rightarrow> bool" where
  "rocksdb_inv pairs d \<longleftrightarrow> (\<forall>k v. pairs d k = Some v \<longrightarrow> length v < 2 ^ 30)"

text \<open>The client while its connection holds.\<close>

locale rocksdb_connected = rocksdb_contract +
  assumes rocksdb_connection: "connected lib"
begin

lemma execute_read:
  assumes "rocksdb_inv rocksdb_pairs d" "rocksdb_key k" "c = ''get'' \<or> c = ''getm''"
  shows "client_execute lib d (new_message c k []) = Inr (proxy_get lib d k, d)"
proof (rule client_execute_sendable [OF rocksdb_connection])
  show "sendable (new_message c k [])" using assms(2,3) sendable_new_message(2) by blast
  show "proxy_execute lib d (new_message c k []) = (proxy_get lib d k, d)"
    using assms(3) by (auto simp: proxy_execute_def new_message_def)
  show "length (rm_data (proxy_get lib d k)) < 2 ^ 30"
    using assms(1) by (auto simp: proxy_get_def rocksdb_Get rocksdb_inv_def split: option.splits)
qed (use assms in \<open>simp_all add: new_message_def\<close>)

lemma execute_put:
  assumes "rocksdb_key k" "rocksdb_val v"
  shows "client_execute lib d (new_message ''put'' k v) = Inr (proxy_put lib d k v)"
proof -
  obtain r d' where p: "proxy_put lib d k v = (r, d')" by (cases "proxy_put lib d k v")
  then have "rm_data r = []" by (auto simp: proxy_put_def split: prod.splits if_splits)
  moreover have "proxy_execute lib d (new_message ''put'' k v) = (r, d')"
    using p by (simp add: proxy_execute_def new_message_def)
  ultimately show ?thesis
    using p assms sendable_new_message(1)
    by (subst client_execute_sendable [OF rocksdb_connection, where r = r and d' = d']) (simp_all add: new_message_def rocksdb_val_def)
qed

lemma execute_del:
  assumes "rocksdb_key k"
  shows "client_execute lib d (new_message ''del'' k []) = Inr (proxy_del lib d k)"
proof -
  obtain r d' where p: "proxy_del lib d k = (r, d')" by (cases "proxy_del lib d k")
  then have "rm_data r = []" by (auto simp: proxy_del_def split: prod.splits if_splits)
  moreover have "proxy_execute lib d (new_message ''del'' k []) = (r, d')"
    using p by (simp add: proxy_execute_def new_message_def)
  ultimately show ?thesis
    using p assms sendable_new_message(2)
    by (subst client_execute_sendable [OF rocksdb_connection, where r = r and d' = d']) (simp_all add: new_message_def)
qed

end

sublocale rocksdb_connected \<subseteq> kv: kv_contract "rocksdb_backend lib" rocksdb_pairs
  "rocksdb_inv rocksdb_pairs" rocksdb_key rocksdb_val
proof unfold_locales
  fix d k
  assume "rocksdb_inv rocksdb_pairs d" "rocksdb_key k"
  then show "kb_get (rocksdb_backend lib) d k = Inr (rocksdb_pairs d k)"
    "kb_getm (rocksdb_backend lib) d k = Inr (rocksdb_pairs d k)"
    by (simp_all add: rocksdb_backend_def rocksdb_get_def rocksdb_getm_def execute_read proxy_get_def
        rocksdb_Get split: option.split)
next
  fix d k v b d'
  assume d: "rocksdb_inv rocksdb_pairs d" and k: "rocksdb_key k"
    and v: "rocksdb_val v" and p: "kb_put (rocksdb_backend lib) d k v = Inr (b, d')"
  obtain ok d1 where rp: "rdb_Put lib d k v = (ok, d1)" by (cases "rdb_Put lib d k v")
  with p execute_put [OF k v] have "b = ok" "d' = d1"
    by (auto simp: rocksdb_backend_def rocksdb_put_def proxy_put_def split: if_splits)
  with rocksdb_Put [OF rp]
  have "rocksdb_pairs d' = (if b then (rocksdb_pairs d)(k \<mapsto> v) else rocksdb_pairs d)" by simp
  with d v show "rocksdb_inv rocksdb_pairs d' \<and>
      rocksdb_pairs d' = (if b then (rocksdb_pairs d)(k \<mapsto> v) else rocksdb_pairs d)"
    by (auto simp: rocksdb_inv_def rocksdb_val_def)
next
  fix d k b d'
  assume d: "rocksdb_inv rocksdb_pairs d" and k: "rocksdb_key k"
    and p: "kb_del (rocksdb_backend lib) d k = Inr (b, d')"
  obtain ok d1 where rp: "rdb_Delete lib d k = (ok, d1)" by (cases "rdb_Delete lib d k")
  with p execute_del [OF k] have "b = ok" "d' = d1"
    by (auto simp: rocksdb_backend_def rocksdb_del_def proxy_del_def split: if_splits)
  with rocksdb_Delete [OF rp]
  have "rocksdb_pairs d' = (if b then (rocksdb_pairs d)(k := None) else rocksdb_pairs d)" by simp
  with d show "rocksdb_inv rocksdb_pairs d' \<and>
      rocksdb_pairs d' = (if b then (rocksdb_pairs d)(k := None) else rocksdb_pairs d)"
    by (auto simp: rocksdb_inv_def)
qed

text \<open>The reference database: a map, on which every call succeeds, and a connection that holds.\<close>

definition map_rocksdb :: "(string \<rightharpoonup> string) rocksdb_lib" where
  "map_rocksdb =
     \<lparr>rdb_Get = (\<lambda>d k. d k), rdb_Put = (\<lambda>d k v. (True, d(k \<mapsto> v))),
      rdb_Delete = (\<lambda>d k. (True, d(k := None))), rdb_write = (\<lambda>_. None), rdb_read = (\<lambda>_. None)\<rparr>"

interpretation map_rocksdb: rocksdb_connected map_rocksdb "\<lambda>d. d"
  by unfold_locales (auto simp: map_rocksdb_def connected_def)

end
