(* ===== verification/Connection.thy ===== *)
theory Connection
  imports Controller_Facts Rocksdb_Client
begin

text \<open>
  The life of a client connection (\<^verbatim>\<open>receive_policy\<close> and \<^verbatim>\<open>handle_connection\<close> of \<^verbatim>\<open>controller.cpp\<close>), the
  choice of the backend (\<^verbatim>\<open>kv_client/factory.hpp\<close>) and the start of the process (\<^verbatim>\<open>main\<close> up to the
  listening socket, which \<open>Process\<close> goes on with).

  A connection is the loop over the framed requests on the socket. The environment of request
  number \<open>i\<close> is \<open>envs i\<close>, the stack bytes of its receive call \<open>junk i\<close>. An exception is not caught
  anywhere, so it ends the process and with it every other connection (\<open>Process_end\<close>). The
  terminating null byte is written behind the message, outside the buffer when the message fills it.
\<close>

datatype kv_kind = Redis | Rocksdb

definition get_default_address :: "string \<Rightarrow> string result" where
  "get_default_address kv_backend =
     (if kv_backend = ''redis'' then Inr ''tcp://127.0.0.1:6379''
      else if kv_backend = ''rocksdb'' then Inr ''127.0.0.1:15001''
      else Inl (Runtime_error ''Unsupported KV backend''))"

text \<open>Connecting is the library's; \<open>connect\<close> gives the client object or what its constructor raises.\<close>

definition kv_factory_create ::
  "(kv_kind \<Rightarrow> string \<Rightarrow> 'd kv_backend result) \<Rightarrow> string \<Rightarrow> string \<Rightarrow> 'd kv_backend result" where
  "kv_factory_create connect kv_backend address =
     bind_result (if address = [] then get_default_address kv_backend else Inr address) (\<lambda>address.
       if kv_backend = ''redis'' then connect Redis address
       else if kv_backend = ''rocksdb'' then connect Rocksdb address
       else Inl Quick_exit)"

text \<open>The default address of RocksDB is one its client can use.\<close>

lemma default_address_connects:
  assumes "connects ''127.0.0.1'' ''15001''"
  shows "bind_result (get_default_address ''rocksdb'') (rocksdb_connect asserts connects) = Inr (''127.0.0.1'', ''15001'')"
  using rocksdb_connect_host_port [of "''127.0.0.1''" "''15001''" connects asserts] assms
  by (simp add: get_default_address_def)

section \<open>The policy of a client\<close>

text \<open>
  \<open>mapped\<close> says whether the \<^verbatim>\<open>mmap\<close> of the message buffer succeeds; the state counts the mappings that
  are in place. \<^verbatim>\<open>receive_policy\<close> releases its buffer on no path.
\<close>

definition receive_policy :: "bool \<Rightarrow> string \<Rightarrow> conn \<Rightarrow> (conn \<times> nat, default_policy option) outcome" where
  "receive_policy mapped junk c =
     (if \<not> mapped then ((c, 0), Inr None)
      else
        case safe_sock_receive junk c of
          (bytes_read, buffer, c1) \<Rightarrow>
            if bytes_read \<le> 0 then ((c1, 1), Inr None)
            else if max_msg_size \<le> length buffer then ((c1, 1), Inl Undefined_behaviour)
            else
              case safe_sock_send c1 ''ACK'' of
                (bytes_sent, c2) \<Rightarrow>
                  if bytes_sent \<le> 0 then ((c2, 1), Inr None)
                  else ((c2, 1), bind_result (default_policy_of_input (c_str buffer)) (\<lambda>p. Inr (Some p))))"

section \<open>The request loop\<close>

datatype conn_end = Conn_closed | Process_end cpp_error

text \<open>
  The controller and the native controller have the same loop around different branches on the
  command; \<open>handle i\<close> is the branching for request number \<open>i\<close>.
\<close>

function request_loop ::
  "(nat \<Rightarrow> string) \<Rightarrow> (nat \<Rightarrow> query \<Rightarrow> 'w \<Rightarrow> ('w, string) outcome) \<Rightarrow> nat \<Rightarrow> 'w \<Rightarrow> conn \<Rightarrow> 'w \<times> conn \<times> conn_end" where
  "request_loop junk handle i w c =
     (case safe_sock_receive (junk i) c of
        (bytes_read, buffer, c1) \<Rightarrow>
          if bytes_read \<le> 0 then (w, c1, Conn_closed)
          else if max_msg_size \<le> length buffer then (w, c1, Process_end Undefined_behaviour)
          else
            case query_of_input (c_str buffer) of
              Inl e \<Rightarrow> (w, c1, Process_end e)
            | Inr q \<Rightarrow>
                if q_cmd q = ''exit'' then (w, c1, Conn_closed)
                else
                  case handle i q w of
                    (w1, Inl e) \<Rightarrow> (w1, c1, Process_end e)
                  | (w1, Inr response) \<Rightarrow>
                      if max_msg_size < length response then (w1, c1, Conn_closed)
                      else
                        case safe_sock_send c1 response of
                          (bytes_sent, c2) \<Rightarrow>
                            if bytes_sent \<le> 0 then (w1, c2, Conn_closed)
                            else request_loop junk handle (Suc i) w1 c2)"
  by pat_completeness auto

lemma request_shortens_input:
  assumes "safe_sock_receive j c = (n, s, c1)" "\<not> n \<le> 0" "safe_sock_send c1 r = (m, c2)"
  shows "length (cn_in c2) < length (cn_in c)"
proof -
  have "cn_in c2 = cn_in c1" using assms(3) by (auto simp: safe_sock_send_def split: nat.splits)
  then show ?thesis using safe_sock_receive_SomeD [OF assms(1)] assms(2) by simp
qed

termination request_loop
  by (relation "measure (\<lambda>(junk, handle, i, w, c). length (cn_in c))")
    (auto dest: request_shortens_input [OF sym _ sym] request_shortens_input)

declare request_loop.simps [simp del]

definition connection_loop ::
  "(nat \<Rightarrow> string) \<Rightarrow> (nat \<Rightarrow> ('d, 'c) req_env) \<Rightarrow> default_policy \<Rightarrow> 'd world \<Rightarrow> conn \<Rightarrow> 'd world \<times> conn \<times> conn_end" where
  "connection_loop junk envs p w c = request_loop junk (\<lambda>i q w. dispatch (envs i) q p w) 0 w c"

definition with_backend :: "'d kv_backend \<Rightarrow> ('d, 'c) req_env \<Rightarrow> ('d, 'c) req_env" where
  "with_backend be env = env\<lparr>rq_kv := (rq_kv env)\<lparr>ke_backend := be\<rparr>\<rparr>"

text \<open>What a connection thread still holds when it returns: mappings and the client's socket.\<close>

record held =
  h_maps :: nat
  h_socket :: bool

definition handle_connection ::
  "(kv_kind \<Rightarrow> string \<Rightarrow> 'd kv_backend result) \<Rightarrow> bool \<Rightarrow> bool \<Rightarrow> string \<Rightarrow> (nat \<Rightarrow> string)
     \<Rightarrow> (nat \<Rightarrow> ('d, 'c) req_env) \<Rightarrow> string \<Rightarrow> string \<Rightarrow> 'd world \<Rightarrow> conn \<Rightarrow> 'd world \<times> conn \<times> held \<times> conn_end" where
  "handle_connection connect mapped1 mapped2 junk0 junk envs db_type db_address w c =
     (case receive_policy mapped1 junk0 c of
        ((c1, maps), Inl e) \<Rightarrow> (w, c1, \<lparr>h_maps = maps, h_socket = True\<rparr>, Process_end e)
      | ((c1, maps), Inr None) \<Rightarrow> (w, c1, \<lparr>h_maps = maps, h_socket = False\<rparr>, Conn_closed)
      | ((c1, maps), Inr (Some p)) \<Rightarrow>
          case kv_factory_create connect db_type db_address of
            Inl e \<Rightarrow> (w, c1, \<lparr>h_maps = maps, h_socket = True\<rparr>, Process_end e)
          | Inr be \<Rightarrow>
              if \<not> mapped2 then (w, c1, \<lparr>h_maps = maps, h_socket = True\<rparr>, Conn_closed)
              else
                case connection_loop junk (\<lambda>i. with_backend be (envs i)) p w c1 of
                  (w1, c2, Conn_closed) \<Rightarrow> (w1, c2, \<lparr>h_maps = maps, h_socket = False\<rparr>, Conn_closed)
                | (w1, c2, Process_end e) \<Rightarrow> (w1, c2, \<lparr>h_maps = Suc maps, h_socket = True\<rparr>, Process_end e))"

section \<open>Starting the process\<close>

text \<open>
  \<open>rlimit\<close> is the soft limit on open files (\<open>None\<close> when \<^verbatim>\<open>getrlimit\<close> fails); the conversion to \<^verbatim>\<open>int\<close> is
  that of the source, and \<open>(4 * l + 4) div 5\<close> is the ceiling of 80 percent of it. A \<^verbatim>\<open>double\<close> below
  zero cannot be converted to \<^verbatim>\<open>size_t\<close>.
\<close>

definition get_max_fds :: "nat option \<Rightarrow> int" where
  "get_max_fds rlimit = (case rlimit of Some l \<Rightarrow> int_of_size l | None \<Rightarrow> 0)"

definition new_logger :: "nat option \<Rightarrow> (string \<rightharpoonup> string) \<Rightarrow> logger result" where
  "new_logger rlimit fs =
     (if get_max_fds rlimit < -1 then Inl Undefined_behaviour
      else Inr \<lparr>lg_dir = ''./logs'', lg_files = [], lg_used = [],
                lg_max = nat ((4 * get_max_fds rlimit + 4) div 5), lg_fs = fs\<rparr>)"

definition init_log_path :: "(string \<Rightarrow> bool) \<Rightarrow> (string \<Rightarrow> bool) \<Rightarrow> logger \<Rightarrow> string option \<Rightarrow> logger result" where
  "init_log_path dir_exists can_create lg log_path =
     (let lg' = (case log_path of Some path \<Rightarrow> lg\<lparr>lg_dir := path\<rparr> | None \<Rightarrow> lg)
      in if \<not> dir_exists (lg_dir lg') \<and> \<not> can_create (lg_dir lg')
         then Inl (Runtime_error ''cannot create directory'') else Inr lg')"

record startup =
  su_db_type :: string
  su_db_address :: string
  su_logger :: logger
  su_engine :: cipher_engine
  su_address :: string
  su_port :: string

definition controller_startup ::
  "nat option \<Rightarrow> (string \<rightharpoonup> string) \<Rightarrow> (string \<Rightarrow> bool) \<Rightarrow> (string \<Rightarrow> bool) \<Rightarrow> string list \<Rightarrow> startup result" where
  "controller_startup rlimit fs dir_exists can_create args =
     (let db_type = get_command_line_argument args ''--db''
      in if db_type = [] then Inl Quick_exit
         else
           bind_result (new_logger rlimit fs) (\<lambda>lg.
           bind_result (init_log_path dir_exists can_create lg (Some (get_command_line_argument args ''--logpath''))) (\<lambda>lg.
             case init_encryption_key default_engine (get_command_line_argument args ''--db_encryptionkey'') db_key of
               (ok1, eng1) \<Rightarrow>
                 if \<not> ok1 then Inl Quick_exit
                 else
                   case init_encryption_key eng1 (get_command_line_argument args ''--log_encryptionkey'') log_key of
                     (ok2, eng2) \<Rightarrow>
                       if \<not> ok2 then Inl Quick_exit
                       else
                         Inr \<lparr>su_db_type = db_type, su_db_address = get_command_line_argument args ''--db_address'',
                              su_logger = lg, su_engine = eng2,
                              su_address = get_command_line_argument args ''--controller_address'',
                              su_port = get_command_line_argument args ''--controller_port''\<rparr>)))"

section \<open>Facts about the loop\<close>

text \<open>A property of the state that every handled request keeps holds when the connection ends.\<close>

lemma request_loop_keeps:
  assumes keeps: "\<And>i q w. P w \<Longrightarrow> P (fst (handle i q w))"
  shows "P w \<Longrightarrow> P (fst (request_loop junk handle i w c))"
proof (induction c arbitrary: i w rule: measure_induct_rule [where f = "\<lambda>c. length (cn_in c)"])
  case (less c)
  have P1: "P w1" if "handle i q w = (w1, r)" for q w1 r
    using keeps [OF less.prems, of i q] that by simp
  have IH: "P (fst (request_loop junk handle (Suc i) w1 c2))"
    if "safe_sock_receive (junk i) c = (n, s, c1)" "\<not> n \<le> 0" "safe_sock_send c1 r = (m, c2)" "P w1"
    for n s c1 r m c2 w1
    using less.IH request_shortens_input [OF that(1-3)] that(4) by blast
  show ?case
    using less.prems P1 IH
    by (subst request_loop.simps) (auto split: prod.splits sum.splits)
qed

text \<open>One request of a client, and the frames the loop answers it with.\<close>

definition request_text :: "string \<Rightarrow> bool" where
  "request_text s \<longleftrightarrow> s \<noteq> [] \<and> length s < max_msg_size \<and> CHR 0x00 \<notin> set s"

lemma c_str_no_null: "CHR 0x00 \<notin> set s \<Longrightarrow> c_str s = s"
  by (auto simp: c_str_def takeWhile_eq_all_conv)

lemma request_loop_frame:
  assumes s: "request_text s" "query_of_input s = Inr q" "q_cmd q \<noteq> ''exit''"
    and h: "handle i q w = (w1, Inr response)" "length response \<le> max_msg_size"
  shows "request_loop junk handle i w
      \<lparr>cn_in = message_frame s @ rest, cn_reset = r, cn_out = out, cn_sends = Suc n\<rparr> =
    request_loop junk handle (Suc i) w1
      \<lparr>cn_in = rest, cn_reset = r, cn_out = out @ message_frame response, cn_sends = n\<rparr>"
  using s h
  by (subst request_loop.simps, subst receive_message_frame)
    (simp_all add: request_text_def c_str_no_null safe_sock_send_def msg_header_size_def)

lemma request_loop_raises:
  assumes s: "request_text s" "query_of_input s = Inl e"
  shows "request_loop junk handle i w
      \<lparr>cn_in = message_frame s @ rest, cn_reset = r, cn_out = out, cn_sends = n\<rparr> =
    (w, \<lparr>cn_in = rest, cn_reset = r, cn_out = out, cn_sends = n\<rparr>, Process_end e)"
  using s
  by (subst request_loop.simps, subst receive_message_frame) (simp_all add: request_text_def c_str_no_null)

lemma request_loop_exit:
  assumes s: "request_text s" "query_of_input s = Inr q" "q_cmd q = ''exit''"
  shows "request_loop junk handle i w
      \<lparr>cn_in = message_frame s @ rest, cn_reset = r, cn_out = out, cn_sends = n\<rparr> =
    (w, \<lparr>cn_in = rest, cn_reset = r, cn_out = out, cn_sends = n\<rparr>, Conn_closed)"
  using s
  by (subst request_loop.simps, subst receive_message_frame) (simp_all add: request_text_def c_str_no_null)

text \<open>A message of exactly the maximal size.\<close>

lemma request_loop_full:
  assumes "length s = max_msg_size"
  shows "request_loop junk handle i w
      \<lparr>cn_in = message_frame s @ rest, cn_reset = r, cn_out = out, cn_sends = n\<rparr> =
    (w, \<lparr>cn_in = rest, cn_reset = r, cn_out = out, cn_sends = n\<rparr>, Process_end Undefined_behaviour)"
proof -
  have "s \<noteq> []" using assms by (auto simp: max_msg_size_def)
  with assms show ?thesis by (subst request_loop.simps, subst receive_message_frame) (simp_all add: max_msg_size_def)
qed

lemma request_loop_end:
  "length (cn_in c) < 4 \<Longrightarrow> \<exists>c'. request_loop junk handle i w c = (w, c', Conn_closed)"
  using receive_closed [of c "junk i"] by (subst request_loop.simps) (auto split: prod.splits)

text \<open>A whole session: the responses in order.\<close>

fun run_requests ::
  "(nat \<Rightarrow> query \<Rightarrow> 'w \<Rightarrow> ('w, string) outcome) \<Rightarrow> nat \<Rightarrow> 'w \<Rightarrow> query list \<Rightarrow> ('w, string list) outcome" where
  "run_requests handle i w [] = (w, Inr [])"
| "run_requests handle i w (q # qs) =
     then_do (handle i q w) (\<lambda>w1 response.
     then_do (run_requests handle (Suc i) w1 qs) (\<lambda>w2 responses. (w2, Inr (response # responses))))"

lemma request_loop_session:
  assumes "list_all2 (\<lambda>s q. request_text s \<and> query_of_input s = Inr q \<and> q_cmd q \<noteq> ''exit'') ss qs"
    and "run_requests handle i w qs = (w', Inr responses)"
    and "\<forall>r\<in>set responses. length r \<le> max_msg_size" "length qs \<le> n"
  shows "\<exists>c. request_loop junk handle i w
      \<lparr>cn_in = concat (map message_frame ss), cn_reset = r, cn_out = out, cn_sends = n\<rparr> =
    (w', c, Conn_closed) \<and> cn_out c = out @ concat (map message_frame responses)"
  using assms
proof (induction ss qs arbitrary: i w out n responses rule: list_all2_induct)
  case Nil
  then show ?case
    by (subst request_loop.simps)
      (auto simp: safe_sock_receive_def recv_all_def msg_header_size_def Let_def)
next
  case (Cons s ss q qs)
  from Cons.prems(1) obtain w1 x xs where x: "handle i q w = (w1, Inr x)" "responses = x # xs"
    "run_requests handle (Suc i) w1 qs = (w', Inr xs)"
    by (auto simp: then_do_def split: prod.splits sum.splits)
  obtain m where m: "n = Suc m" using Cons.prems(3) by (cases n) auto
  have "length x \<le> max_msg_size" using Cons.prems(2) x(2) by simp
  moreover obtain c where c: "request_loop junk handle (Suc i) w1
      \<lparr>cn_in = concat (map message_frame ss), cn_reset = r, cn_out = out @ message_frame x, cn_sends = m\<rparr> =
    (w', c, Conn_closed)" "cn_out c = (out @ message_frame x) @ concat (map message_frame xs)"
    using Cons.IH [OF x(3), of m "out @ message_frame x"] Cons.prems(2,3) x(2) m by auto
  ultimately show ?case
    using Cons.hyps x m request_loop_frame [of s q handle i w w1 x junk "concat (map message_frame ss)" r out m]
    by simp
qed

text \<open>The policy message of a client.\<close>

lemma receive_policy_frame:
  assumes "request_text s"
  shows "receive_policy True junk \<lparr>cn_in = message_frame s @ rest, cn_reset = r, cn_out = out, cn_sends = Suc n\<rparr> =
    ((\<lparr>cn_in = rest, cn_reset = r, cn_out = out @ message_frame ''ACK'', cn_sends = n\<rparr>, 1),
     bind_result (default_policy_of_input s) (\<lambda>p. Inr (Some p)))"
  using assms
  by (simp add: receive_policy_def receive_message_frame request_text_def c_str_no_null safe_sock_send_def msg_header_size_def)

text \<open>What a thread leaves behind, whatever the client sends.\<close>

lemma handle_connection_held:
  assumes "handle_connection connect mapped1 mapped2 junk0 junk envs db_type db_address w c = (w', c', h, Conn_closed)"
  shows "(mapped2 \<longrightarrow> \<not> h_socket h) \<and> h_maps h = (if mapped1 then 1 else 0)"
proof -
  obtain c1 maps r where rp: "receive_policy mapped1 junk0 c = ((c1, maps), r)" by (metis surj_pair)
  have "maps = (if mapped1 then 1 else 0)"
    using rp by (auto simp: receive_policy_def split: if_splits prod.splits)
  with assms rp show ?thesis
    by (auto simp: handle_connection_def split: sum.splits option.splits if_splits prod.splits conn_end.splits)
qed

end
