(* ===== verification/Native_Controller.thy ===== *)
theory Native_Controller
  imports Connection
begin

text \<open>
  The program without GDPR checks, \<^verbatim>\<open>native_controller.cpp\<close>: the controller's socket loop around plain
  get, put and delete, the baseline of the evaluation. The state is the database alone.
\<close>

definition native_get :: "('d, 'c) req_env \<Rightarrow> query \<Rightarrow> 'd \<Rightarrow> ('d, string) outcome" where
  "native_get env q d =
     then_do (d, gdpr_get (rq_kv env) d (q_key q)) (\<lambda>d ret_val.
       (d, Inr (case ret_val of Some v \<Rightarrow> v | None \<Rightarrow> GET_FAILED)))"

definition native_put :: "('d, 'c) req_env \<Rightarrow> query \<Rightarrow> 'd \<Rightarrow> ('d, string) outcome" where
  "native_put env q d =
     (case gdpr_put (rq_kv env) (rq_db_iv env) d (q_key q) (q_value q) of
        Inl e \<Rightarrow> (d, Inl e)
      | Inr (success, d') \<Rightarrow> (d', Inr (if success then PUT_SUCCESS else PUT_FAILED)))"

definition native_delete :: "('d, 'c) req_env \<Rightarrow> query \<Rightarrow> 'd \<Rightarrow> ('d, string) outcome" where
  "native_delete env q d =
     (case gdpr_del (rq_kv env) d (q_key q) of
        Inl e \<Rightarrow> (d, Inl e)
      | Inr (success, d') \<Rightarrow> (d', Inr (if success then DELETE_SUCCESS else DELETE_FAILED)))"

definition native_dispatch :: "('d, 'c) req_env \<Rightarrow> query \<Rightarrow> 'd \<Rightarrow> ('d, string) outcome" where
  "native_dispatch env q d =
     (if q_cmd q = ''invalid'' then (d, Inr INVALID_COMMAND)
      else if q_cmd q = ''get'' then native_get env q d
      else if q_cmd q = ''put'' then native_put env q d
      else if q_cmd q = ''delete'' then native_delete env q d
      else (d, Inr INVALID_COMMAND))"

definition native_handle_connection ::
  "(kv_kind \<Rightarrow> string \<Rightarrow> 'd kv_backend result) \<Rightarrow> bool \<Rightarrow> (nat \<Rightarrow> string)
     \<Rightarrow> (nat \<Rightarrow> ('d, 'c) req_env) \<Rightarrow> string \<Rightarrow> string \<Rightarrow> 'd \<Rightarrow> conn \<Rightarrow> 'd \<times> conn \<times> held \<times> conn_end" where
  "native_handle_connection connect mapped junk envs db_type db_address d c =
     (if \<not> mapped then (d, c, \<lparr>h_maps = 0, h_socket = True\<rparr>, Conn_closed)
      else
        case kv_factory_create connect db_type db_address of
          Inl e \<Rightarrow> (d, c, \<lparr>h_maps = 1, h_socket = True\<rparr>, Process_end e)
        | Inr be \<Rightarrow>
            case request_loop junk (\<lambda>i q d. native_dispatch (with_backend be (envs i)) q d) 0 d c of
              (d1, c1, Conn_closed) \<Rightarrow> (d1, c1, \<lparr>h_maps = 0, h_socket = False\<rparr>, Conn_closed)
            | (d1, c1, Process_end e) \<Rightarrow> (d1, c1, \<lparr>h_maps = 1, h_socket = True\<rparr>, Process_end e))"

section \<open>Facts\<close>

context gdpr_store
begin

lemma native_put_get:
  assumes kv: "rq_kv e1 = env" "rq_kv e2 = env" and d: "store_inv d" "store_key (q_key q1)"
    and iv: "rq_db_iv e1 = Some iv" "length iv = initialization_vector_len"
    and q: "q_key q2 = q_key q1" "store_val (q_value q1)"
    and p: "native_put e1 q1 d = (d', Inr PUT_SUCCESS)"
  shows "native_get e2 q2 d' = (d', Inr (q_value q1))"
proof -
  have "gdpr_put env (Some iv) d (q_key q1) (q_value q1) = Inr (True, d')"
    using p kv iv by (auto simp: native_put_def response_codes split: sum.splits prod.splits if_splits)
  then have "gdpr_get env d' (q_key q1) = Inr (Some (q_value q1))" using put_get d q iv by blast
  then show ?thesis using kv q by (simp add: native_get_def)
qed

end

end
