(* ===== verification/Process.thy ===== *)
theory Process
  imports Native_Controller Rocksdb_Server
begin

text \<open>
  The processes around the connections: \<^verbatim>\<open>main\<close> of \<^verbatim>\<open>controller.cpp\<close> and \<^verbatim>\<open>native_controller.cpp\<close> with
  the listening socket and the accept loop.

  What the system calls return is an argument: \<open>os_script\<close> has the descriptor or the failure of
  \<^verbatim>\<open>socket\<close>, the success of the options, of \<^verbatim>\<open>bind\<close> (for an address and a port) and of \<^verbatim>\<open>listen\<close>, the
  results of the successive \<^verbatim>\<open>accept4\<close> calls and the conversion of the address text. \<open>proc\<close> is what
  the process has: its open sockets, the address it listens on and the sockets it has handed to
  connection threads.
\<close>

record os_script =
  sc_socket :: "nat option"
  sc_reuse :: bool
  sc_nodelay :: bool
  sc_inet_addr :: "string \<Rightarrow> nat"
  sc_bind :: "nat \<Rightarrow> nat \<Rightarrow> bool"
  sc_listen :: bool
  sc_accepts :: "nat option list"

record proc =
  pr_sockets :: "nat set"
  pr_listens :: "(nat \<times> nat) option"
  pr_threads :: "nat list"

datatype main_end = Serving | Returned nat | Aborted cpp_error

definition new_proc :: proc where
  "new_proc = \<lparr>pr_sockets = {}, pr_listens = None, pr_threads = []\<rparr>"

definition safe_close_socket :: "nat \<Rightarrow> proc \<Rightarrow> proc" where
  "safe_close_socket fd pr = pr\<lparr>pr_sockets := pr_sockets pr - {fd}\<rparr>"

section \<open>The listening socket\<close>

text \<open>
  The port is read with \<^verbatim>\<open>std::stoi\<close> and cut to 16 bits; the text is only looked at after the socket
  was made. The result is the descriptor, or nothing when \<^verbatim>\<open>main\<close> returns 1.
\<close>

definition open_listener :: "os_script \<Rightarrow> string \<Rightarrow> string \<Rightarrow> proc \<Rightarrow> (proc, nat option) outcome" where
  "open_listener sc address port pr =
     (case sc_socket sc of
        None \<Rightarrow> (pr, Inr None)
      | Some fd \<Rightarrow>
          let pr1 = pr\<lparr>pr_sockets := insert fd (pr_sockets pr)\<rparr>
          in if \<not> sc_reuse sc then (safe_close_socket fd pr1, Inr None)
             else if \<not> sc_nodelay sc then (safe_close_socket fd pr1, Inr None)
             else
               then_do (pr1, stoi port) (\<lambda>pr2 n.
                 let addr = sc_inet_addr sc address; sin_port = nat (n mod 2 ^ 16)
                 in if \<not> sc_bind sc addr sin_port then (safe_close_socket fd pr2, Inr None)
                    else if \<not> sc_listen sc then (safe_close_socket fd pr2, Inr None)
                    else (pr2\<lparr>pr_listens := Some (addr, sin_port)\<rparr>, Inr (Some fd))))"

fun accept_loop :: "nat option list \<Rightarrow> proc \<Rightarrow> proc \<times> main_end" where
  "accept_loop [] pr = (pr, Serving)"
| "accept_loop (None # rest) pr = (pr, Returned 0)"
| "accept_loop (Some client_socket # rest) pr =
     accept_loop rest (pr\<lparr>pr_sockets := insert client_socket (pr_sockets pr),
                          pr_threads := pr_threads pr @ [client_socket]\<rparr>)"

definition serve :: "os_script \<Rightarrow> string \<Rightarrow> string \<Rightarrow> proc \<times> main_end" where
  "serve sc address port =
     (case open_listener sc address port new_proc of
        (pr, Inl e) \<Rightarrow> (pr, Aborted e)
      | (pr, Inr None) \<Rightarrow> (pr, Returned 1)
      | (pr, Inr (Some listen_socket)) \<Rightarrow> accept_loop (sc_accepts sc) pr)"

section \<open>The mains\<close>

definition controller_main ::
  "nat option \<Rightarrow> (string \<rightharpoonup> string) \<Rightarrow> (string \<Rightarrow> bool) \<Rightarrow> (string \<Rightarrow> bool) \<Rightarrow> os_script \<Rightarrow> string list
     \<Rightarrow> startup option \<times> proc \<times> main_end" where
  "controller_main rlimit fs dir_exists can_create sc args =
     (case controller_startup rlimit fs dir_exists can_create args of
        Inl e \<Rightarrow> (None, new_proc, Aborted e)
      | Inr su \<Rightarrow> (Some su, serve sc (su_address su) (su_port su)))"

definition native_main :: "os_script \<Rightarrow> string list \<Rightarrow> proc \<times> main_end" where
  "native_main sc args =
     (if get_command_line_argument args ''--db'' = [] then (new_proc, Aborted Quick_exit)
      else serve sc (get_command_line_argument args ''--controller_address'')
             (get_command_line_argument args ''--controller_port''))"

section \<open>What the mains guarantee\<close>

lemma accept_loop_threads:
  "fst (accept_loop acs pr) = pr\<lparr>pr_sockets := pr_sockets pr \<union> set (map the (takeWhile (\<lambda>a. a \<noteq> None) acs)),
     pr_threads := pr_threads pr @ map the (takeWhile (\<lambda>a. a \<noteq> None) acs)\<rparr>"
  by (induction acs pr rule: accept_loop.induct) auto

lemma accept_loop_end: "snd (accept_loop acs pr) = (if None \<in> set acs then Returned 0 else Serving)"
  by (induction acs pr rule: accept_loop.induct) auto

text \<open>\<^verbatim>\<open>main\<close> returns 1 without an open socket; it serves on the port of the command line modulo \<open>2 ^ 16\<close>.\<close>

lemma serve_cases:
  "(\<exists>e. serve sc address port = (\<lparr>pr_sockets = {the (sc_socket sc)}, pr_listens = None, pr_threads = []\<rparr>, Aborted e) \<and>
      stoi port = Inl e) \<or>
   serve sc address port = (new_proc, Returned 1) \<or>
   (\<exists>fd n. sc_socket sc = Some fd \<and> stoi port = Inr n \<and> sc_bind sc (sc_inet_addr sc address) (nat (n mod 2 ^ 16)) \<and>
      pr_listens (fst (serve sc address port)) = Some (sc_inet_addr sc address, nat (n mod 2 ^ 16)) \<and>
      pr_threads (fst (serve sc address port)) = map the (takeWhile (\<lambda>a. a \<noteq> None) (sc_accepts sc)) \<and>
      snd (serve sc address port) = (if None \<in> set (sc_accepts sc) then Returned 0 else Serving))"
  by (cases "sc_socket sc"; cases "stoi port")
    (auto simp: serve_def open_listener_def new_proc_def safe_close_socket_def Let_def accept_loop_threads accept_loop_end)

end
