(* ===== verification/Redis_Client.thy ===== *)
theory Redis_Client
  imports Kv_Client
begin

text \<open>
  \<^verbatim>\<open>kv_client/redis.hpp\<close>: the backend over redis-plus-plus. The library is not part of the
  repository; its three calls are the fields of \<open>redis_lib\<close>, over a type of server states, and may
  raise. \<open>redis_contract\<close> states the documented behaviour of GET, SET and DEL that the client
  relies on, and the sublocale proves the backend contract from it.
\<close>

record 'd redis_lib =
  rl_get :: "'d \<Rightarrow> string \<Rightarrow> string option result"
  rl_set :: "'d \<Rightarrow> string \<Rightarrow> string \<Rightarrow> (bool \<times> 'd) result"
  rl_del :: "'d \<Rightarrow> string \<Rightarrow> (int \<times> 'd) result"

definition redis_get :: "'d redis_lib \<Rightarrow> 'd \<Rightarrow> string \<Rightarrow> string option result" where
  "redis_get lib d key = rl_get lib d key"

definition redis_put :: "'d redis_lib \<Rightarrow> 'd \<Rightarrow> string \<Rightarrow> string \<Rightarrow> (bool \<times> 'd) result" where
  "redis_put lib d key v =
     bind_result (rl_set lib d key v) (\<lambda>(r, d'). if r then Inr (True, d') else Inr (False, d'))"

definition redis_del :: "'d redis_lib \<Rightarrow> 'd \<Rightarrow> string \<Rightarrow> (bool \<times> 'd) result" where
  "redis_del lib d key =
     bind_result (rl_del lib d key)
       (\<lambda>(n, d'). if n = 1 then Inr (True, d') else if n = 0 then Inr (False, d') else Inr (True, d'))"

definition redis_getm :: "'d redis_lib \<Rightarrow> 'd \<Rightarrow> string \<Rightarrow> string option result" where
  "redis_getm lib d key = rl_get lib d key"

definition redis_putm :: "'d redis_lib \<Rightarrow> 'd \<Rightarrow> string \<Rightarrow> string \<Rightarrow> (bool \<times> 'd) result" where
  "redis_putm lib d key v =
     bind_result (rl_set lib d key v) (\<lambda>(r, d'). if r then Inr (True, d') else Inr (False, d'))"

definition redis_backend :: "'d redis_lib \<Rightarrow> 'd kv_backend" where
  "redis_backend lib =
     \<lparr>kb_get = redis_get lib, kb_put = redis_put lib, kb_del = redis_del lib,
      kb_getm = redis_getm lib, kb_putm = redis_putm lib\<rparr>"

text \<open>
  GET returns the value under a key or nil, SET stores unless it reports otherwise, DEL returns the
  number of keys it removed.
\<close>

locale redis_contract =
  fixes lib :: "'d redis_lib" and redis_pairs :: "'d \<Rightarrow> string \<rightharpoonup> string"
  assumes redis_GET: "rl_get lib d k = Inr (redis_pairs d k)"
    and redis_SET: "rl_set lib d k v = Inr (r, d') \<Longrightarrow>
        redis_pairs d' = (if r then (redis_pairs d)(k \<mapsto> v) else redis_pairs d)"
    and redis_DEL: "rl_del lib d k = Inr (n, d') \<Longrightarrow>
        (n = 0 \<or> n = 1) \<and> redis_pairs d' = (if n = 1 then (redis_pairs d)(k := None) else redis_pairs d)"

sublocale redis_contract \<subseteq> kv: kv_contract_m "redis_backend lib" redis_pairs
  "\<lambda>_. True" "\<lambda>_. True" "\<lambda>_. True"
proof unfold_locales
  fix d k v b d'
  show "kb_get (redis_backend lib) d k = Inr (redis_pairs d k)"
    "kb_getm (redis_backend lib) d k = Inr (redis_pairs d k)"
    by (simp_all add: redis_backend_def redis_get_def redis_getm_def redis_GET)
  show "True \<and> redis_pairs d' = (if b then (redis_pairs d)(k \<mapsto> v) else redis_pairs d)"
    if "kb_put (redis_backend lib) d k v = Inr (b, d')"
    using that redis_SET [of d k v _ d']
    by (auto simp: redis_backend_def redis_put_def bind_result_eq_Inr_iff split: if_splits)
  show "True \<and> redis_pairs d' = (if b then (redis_pairs d)(k \<mapsto> v) else redis_pairs d)"
    if "kb_putm (redis_backend lib) d k v = Inr (b, d')"
    using that redis_SET [of d k v _ d']
    by (auto simp: redis_backend_def redis_putm_def bind_result_eq_Inr_iff split: if_splits)
  show "True \<and> redis_pairs d' = (if b then (redis_pairs d)(k := None) else redis_pairs d)"
    if "kb_del (redis_backend lib) d k = Inr (b, d')"
    using that redis_DEL [of d k _ d']
    by (auto simp: redis_backend_def redis_del_def bind_result_eq_Inr_iff split: if_splits)
qed

text \<open>A server that stays reachable answers; otherwise the library raises.\<close>

locale redis_contract_live = redis_contract +
  assumes redis_SET_returns: "\<exists>r d'. rl_set lib d k v = Inr (r, d')"
    and redis_DEL_returns: "\<exists>n d'. rl_del lib d k = Inr (n, d')"

sublocale redis_contract_live \<subseteq> kv_live: kv_contract_m_live "redis_backend lib" redis_pairs
  "\<lambda>_. True" "\<lambda>_. True" "\<lambda>_. True"
proof unfold_locales
  fix d k v
  obtain r d1 where "rl_set lib d k v = Inr (r, d1)" using redis_SET_returns by blast
  then show "\<exists>b d'. kb_put (redis_backend lib) d k v = Inr (b, d')"
    and "\<exists>b d'. kb_putm (redis_backend lib) d k v = Inr (b, d')"
    by (auto simp: redis_backend_def redis_put_def redis_putm_def)
  obtain n d2 where "rl_del lib d k = Inr (n, d2)" using redis_DEL_returns by blast
  then show "\<exists>b d'. kb_del (redis_backend lib) d k = Inr (b, d')"
    by (auto simp: redis_backend_def redis_del_def)
qed

text \<open>The reference server: a map, on which every call succeeds.\<close>

definition map_redis :: "(string \<rightharpoonup> string) redis_lib" where
  "map_redis =
     \<lparr>rl_get = (\<lambda>d k. Inr (d k)), rl_set = (\<lambda>d k v. Inr (True, d(k \<mapsto> v))),
      rl_del = (\<lambda>d k. Inr (if d k = None then 0 else 1, d(k := None)))\<rparr>"

interpretation map_redis: redis_contract_live map_redis "\<lambda>d. d"
  by unfold_locales (auto simp: map_redis_def fun_upd_idem split: if_splits)

end
