(* ===== verification/Stores.thy ===== *)
theory Stores
  imports Redis_Client Rocksdb_Client
begin

text \<open>
  The store contract on the program's own backends. A RocksDB library with a connection that holds,
  or a Redis library, that keeps its documented contract, with the engine's keys of the right length and an OpenSSL that keeps its own,
  gives the controllers an encrypted \<open>gdpr_store\<close> (\<open>rocksdb_sealed\<close>, \<open>redis_sealed\<close>); Redis also
  gives one without encryption. Each is then interpreted on the reference libraries, so that no
  contract is empty.
\<close>

locale rocksdb_sealed = rocksdb_connected lib rocksdb_pairs + openssl_contract ossl
  for lib :: "'d rocksdb_lib" and rocksdb_pairs and ossl :: "'c openssl" +
  fixes eng :: cipher_engine
  assumes rocksdb_keys: "engine_inv eng"

sublocale rocksdb_sealed \<subseteq> store: sealed_kv "rocksdb_backend lib" rocksdb_pairs
  "rocksdb_inv rocksdb_pairs" rocksdb_key rocksdb_val ossl eng
  by unfold_locales (use rocksdb_keys in \<open>auto simp: rocksdb_val_def\<close>)

text \<open>The RocksDB calls report a status and never raise, so every operation of a connected client returns.\<close>

sublocale rocksdb_sealed \<subseteq> store_live: sealed_kv_live "rocksdb_backend lib" rocksdb_pairs
  "rocksdb_inv rocksdb_pairs" rocksdb_key rocksdb_val ossl eng
proof unfold_locales
  fix d k v
  assume "rocksdb_inv rocksdb_pairs d" and k: "rocksdb_key k"
  show "\<exists>b d'. kb_del (rocksdb_backend lib) d k = Inr (b, d')"
    by (cases "proxy_del lib d k") (simp add: rocksdb_backend_def rocksdb_del_def execute_del [OF k])
  assume v: "rocksdb_val v"
  show "\<exists>b d'. kb_put (rocksdb_backend lib) d k v = Inr (b, d')"
    by (cases "proxy_put lib d k v") (simp add: rocksdb_backend_def rocksdb_put_def execute_put [OF k v])
qed

locale redis_sealed = redis_contract lib redis_pairs + openssl_contract ossl
  for lib :: "'d redis_lib" and redis_pairs and ossl :: "'c openssl" +
  fixes eng :: cipher_engine
  assumes redis_keys: "engine_inv eng"

sublocale redis_sealed \<subseteq> store: sealed_kv "redis_backend lib" redis_pairs
  "\<lambda>_. True" "\<lambda>_. True" "\<lambda>_. True" ossl eng
  by unfold_locales (use redis_keys in auto)

locale redis_sealed_live = redis_sealed + redis_contract_live lib redis_pairs

sublocale redis_sealed_live \<subseteq> store_live: sealed_kv_live "redis_backend lib" redis_pairs
  "\<lambda>_. True" "\<lambda>_. True" "\<lambda>_. True" ossl eng
  by unfold_locales

text \<open>The contracts of the two stores as statements about the programs' own backends.\<close>

context rocksdb_sealed
begin

lemma is_store:
  "gdpr_store_live (sealed_env (rocksdb_backend lib) ossl eng) (sealed_view ossl eng rocksdb_pairs)
     (\<lambda>d. rocksdb_inv rocksdb_pairs d \<and> readable ossl eng rocksdb_pairs d) rocksdb_key (\<lambda>v. length v < 2 ^ 29)"
  by unfold_locales

end

context redis_sealed
begin

lemma is_store:
  "gdpr_store (sealed_env (redis_backend lib) ossl eng) (sealed_view ossl eng redis_pairs)
     (\<lambda>d. True \<and> readable ossl eng redis_pairs d) (\<lambda>_. True) (\<lambda>v. length v < 2 ^ 29)"
  by unfold_locales

end

context redis_sealed_live
begin

lemma is_live_store:
  "gdpr_store_live (sealed_env (redis_backend lib) ossl eng) (sealed_view ossl eng redis_pairs)
     (\<lambda>d. True \<and> readable ossl eng redis_pairs d) (\<lambda>_. True) (\<lambda>v. length v < 2 ^ 29)"
  by unfold_locales

end

context redis_contract_live
begin

lemma is_plain_live_store:
  "gdpr_store_live (plain_env (redis_backend lib) env) redis_pairs (\<lambda>_. True) (\<lambda>_. True) (\<lambda>_. True)"
  by unfold_locales

end

context redis_contract
begin

lemma is_plain_store:
  "gdpr_store (plain_env (redis_backend lib) env) redis_pairs (\<lambda>_. True) (\<lambda>_. True) (\<lambda>_. True)"
  by unfold_locales

end

lemma default_engine_inv: "engine_inv default_engine"
  by (simp add: engine_inv_def default_engine_def encryption_key_len_def)

interpretation rocksdb_ref: rocksdb_sealed map_rocksdb "\<lambda>d. d" plain_openssl default_engine
  by unfold_locales (rule default_engine_inv)

interpretation redis_ref: redis_sealed_live map_redis "\<lambda>d. d" plain_openssl default_engine
  by unfold_locales (rule default_engine_inv)

text \<open>Encryption cannot fail on the reference OpenSSL, and a write cannot be refused.\<close>

lemma plain_encrypt:
  "encrypt plain_openssl eng (Some iv) input kt =
     (case get_encryption_key eng kt of
        None \<Rightarrow> \<lparr>er_ciphertext = [], er_success = False\<rparr>
      | Some key \<Rightarrow> \<lparr>er_ciphertext = container iv (take tag_len key) input, er_success = True\<rparr>)"
  by (simp add: encrypt_def evp_seal_def plain_openssl_def split: option.split)

end
