(* ===== verification/Store_Properties.thy ===== *)
theory Store_Properties
  imports Stores
begin

text \<open>
  The properties of the storage side: encryption, the two backends as stores, the RocksDB message
  format and its server.
\<close>

section \<open>Encryption\<close>

text \<open>
  C28. What \<^verbatim>\<open>cipher_engine::encrypt\<close> produces, \<^verbatim>\<open>decrypt\<close> reads back under the same key: the container of
  vector, tag, length and ciphertext is taken apart as it was put together, for every OpenSSL whose
  sealed texts open under the same key and vector.
\<close>

theorem cipher_roundtrip:
  assumes "openssl_contract ossl" "engine_inv eng" "length iv = initialization_vector_len"
    and "length input < 2 ^ 31" "er_success (encrypt ossl eng (Some iv) input kt)"
  shows "decrypt ossl eng (er_ciphertext (encrypt ossl eng (Some iv) input kt)) kt =
    Inr \<lparr>dr_plaintext = input, dr_success = True\<rparr>"
  using openssl_contract.decrypt_encrypt [OF assms] .

theorem cipher_roundtrip_witness:
  "decrypt plain_openssl default_engine
     (er_ciphertext (encrypt plain_openssl default_engine (Some ''abcdefghijkl'') ''value'' db_key)) db_key =
   Inr \<lparr>dr_plaintext = ''value'', dr_success = True\<rparr>"
  by (intro cipher_roundtrip)
    (simp_all add: plain_ossl.openssl_contract_axioms default_engine_inv initialization_vector_len_def
      plain_encrypt get_encryption_key_def)

text \<open>
  Setting a key from the command line succeeds exactly for the empty text (which keeps the key in
  place) and for texts of the key length, and the keys of the engine have the right length
  afterwards in every case.
\<close>

lemma init_encryption_key_keeps_keys:
  assumes "engine_inv eng" "kt \<noteq> max_key"
  shows "(fst (init_encryption_key eng k kt) \<longleftrightarrow> k = [] \<or> length k = encryption_key_len) \<and>
    engine_inv (snd (init_encryption_key eng k kt)) \<and>
    get_encryption_key (snd (init_encryption_key eng k kt)) kt =
      (if length k = encryption_key_len then Some k else get_encryption_key eng kt)"
  using assms
  by (cases kt)
    (auto simp: init_encryption_key_def engine_inv_def get_encryption_key_def set_key_def encryption_key_len_def)

section \<open>Backends\<close>

text \<open>
  C26. The RocksDB backend behind the encrypting client is a store for non-empty keys without blanks and
  shorter than \<open>2 ^ 29\<close> bytes, and for values shorter than that, while the connection to the server
  holds: over a RocksDB library and an OpenSSL that keep their contracts, the five \<^verbatim>\<open>gdpr_\<close> operations
  read and write the map of decrypted pairs, a write that reports success is the only change, and
  every operation returns. When the connection breaks in the write of a query, or in the read of its
  answer, a get, getm or delete raises.
\<close>

theorem rocksdb_is_encrypted_store:
  assumes "rocksdb_contract lib db_pairs" "openssl_contract ossl" "engine_inv eng"
  shows "(connected lib \<longrightarrow>
      gdpr_store_live (sealed_env (rocksdb_backend lib) ossl eng) (sealed_view ossl eng db_pairs)
        (\<lambda>d. rocksdb_inv db_pairs d \<and> readable ossl eng db_pairs d) rocksdb_key (\<lambda>v. length v < 2 ^ 29)) \<and>
    (rdb_write lib d = Some e \<or> rdb_write lib d = None \<and> (\<forall>d'. rdb_read lib d' = Some e) \<longrightarrow>
      gdpr_get (sealed_env (rocksdb_backend lib) ossl eng) d k = Inl e \<and>
      gdpr_getm (sealed_env (rocksdb_backend lib) ossl eng) d k = Inl e \<and>
      gdpr_del (sealed_env (rocksdb_backend lib) ossl eng) d k = Inl e)"
proof
  show "connected lib \<longrightarrow>
      gdpr_store_live (sealed_env (rocksdb_backend lib) ossl eng) (sealed_view ossl eng db_pairs)
        (\<lambda>d. rocksdb_inv db_pairs d \<and> readable ossl eng db_pairs d) rocksdb_key (\<lambda>v. length v < 2 ^ 29)"
    using assms
    by (blast intro: rocksdb_sealed.is_store rocksdb_sealed.intro rocksdb_sealed_axioms.intro rocksdb_connected.intro
        rocksdb_connected_axioms.intro)
  show "rdb_write lib d = Some e \<or> rdb_write lib d = None \<and> (\<forall>d'. rdb_read lib d' = Some e) \<longrightarrow>
      gdpr_get (sealed_env (rocksdb_backend lib) ossl eng) d k = Inl e \<and>
      gdpr_getm (sealed_env (rocksdb_backend lib) ossl eng) d k = Inl e \<and>
      gdpr_del (sealed_env (rocksdb_backend lib) ossl eng) d k = Inl e"
    using broken_connection [of lib d e] by (simp add: gdpr_get_def gdpr_getm_def gdpr_del_def sealed_env_def rocksdb_backend_def
        rocksdb_get_def rocksdb_getm_def rocksdb_del_def)
qed

theorem rocksdb_is_encrypted_store_witness:
  "gdpr_store_live (sealed_env (rocksdb_backend map_rocksdb) plain_openssl default_engine)
     (sealed_view plain_openssl default_engine (\<lambda>d. d))
     (\<lambda>d. rocksdb_inv (\<lambda>d. d) d \<and> readable plain_openssl default_engine (\<lambda>d. d) d)
     rocksdb_key (\<lambda>v. length v < 2 ^ 29)"
  using rocksdb_is_encrypted_store [OF map_rocksdb.rocksdb_contract_axioms plain_ossl.openssl_contract_axioms
      default_engine_inv] map_rocksdb.rocksdb_connection by blast

text \<open>
  C27. The Redis backend is a store for all keys, encrypted or not: over a Redis client library that
  keeps its contract, with encryption for values below \<open>2 ^ 29\<close> bytes and without it for all values. While
  the server is reachable, every operation of both stores returns.
\<close>

theorem redis_is_store:
  assumes "redis_contract lib db_pairs" "openssl_contract ossl" "engine_inv eng"
  shows "gdpr_store (sealed_env (redis_backend lib) ossl eng) (sealed_view ossl eng db_pairs)
      (\<lambda>d. True \<and> readable ossl eng db_pairs d) (\<lambda>_. True) (\<lambda>v. length v < 2 ^ 29) \<and>
    gdpr_store (plain_env (redis_backend lib) env) db_pairs (\<lambda>_. True) (\<lambda>_. True) (\<lambda>_. True) \<and>
    (redis_contract_live lib db_pairs \<longrightarrow>
      gdpr_store_live (sealed_env (redis_backend lib) ossl eng) (sealed_view ossl eng db_pairs)
        (\<lambda>d. True \<and> readable ossl eng db_pairs d) (\<lambda>_. True) (\<lambda>v. length v < 2 ^ 29) \<and>
      gdpr_store_live (plain_env (redis_backend lib) env) db_pairs (\<lambda>_. True) (\<lambda>_. True) (\<lambda>_. True))"
proof -
  have sealed: "redis_sealed lib db_pairs ossl eng"
    using assms by (intro redis_sealed.intro redis_sealed_axioms.intro)
  have "redis_sealed_live lib db_pairs ossl eng" if "redis_contract_live lib db_pairs"
    using sealed that by (rule redis_sealed_live.intro)
  then show ?thesis
    using redis_sealed.is_store [OF sealed] redis_contract.is_plain_store [OF assms(1)] redis_sealed_live.is_live_store
      redis_contract_live.is_plain_live_store by blast
qed

theorem redis_is_store_witness:
  "gdpr_store_live (plain_env (redis_backend map_redis) (sealed_env (redis_backend map_redis) plain_openssl default_engine))
     (\<lambda>d. d) (\<lambda>_. True) (\<lambda>_. True) (\<lambda>_. True)"
  using redis_is_store [OF map_redis.redis_contract_axioms plain_ossl.openssl_contract_axioms default_engine_inv]
    map_redis.redis_contract_live_axioms by blast

text \<open>
  Without encryption a metadata update through the RocksDB backend does not store its value: the
  server's parser keeps the value of a put only, so \<^verbatim>\<open>putm\<close> writes the empty text under the key.
\<close>

theorem rocksdb_putm_drops_value:
  assumes "rocksdb_key k" "rocksdb_val v" "connected lib"
  shows "rocksdb_putm lib d k v = Inr (rdb_Put lib d k [])"
proof -
  have "query_serialize (new_message ''putm'' k v) = ''putm'' @ '' '' @ k @ '' '' @ v"
    using assms by (simp add: query_serialize_def new_message_def rocksdb_val_def)
  moreover have "query_deserialize (''putm'' @ '' '' @ k @ '' '' @ v) = Inr (new_message ''putm'' k [])"
    using query_deserialize_with_value [of "''putm''" k v] assms
    by (simp add: valid_query_types_def rocksdb_key_def rocksdb_val_def new_message_def)
  ultimately have q: "query_deserialize (query_serialize (new_message ''putm'' k v)) = Inr (new_message ''putm'' k [])"
    "length (query_serialize (new_message ''putm'' k v)) < 2 ^ 31"
    using assms by (simp_all add: rocksdb_key_def rocksdb_val_def)
  obtain ok d' where p: "rdb_Put lib d k [] = (ok, d')" by (cases "rdb_Put lib d k []")
  then have "proxy_execute lib d (new_message ''putm'' k []) = (\<lparr>rm_is_success = ok, rm_data = []\<rparr>, d')"
    by (simp add: proxy_execute_def proxy_put_def new_message_def)
  from client_execute_eq [OF assms(3) q this] p show ?thesis by (simp add: rocksdb_putm_def)
qed

theorem rocksdb_putm_drops_value_witness:
  "rocksdb_putm map_rocksdb Map.empty ''key1'' ''u|0|1|0||0||0|v'' = Inr (True, [''key1'' \<mapsto> []])"
  using rocksdb_putm_drops_value [of "''key1''" "''u|0|1|0||0||0|v''" map_rocksdb Map.empty]
  by (simp add: rocksdb_key_def rocksdb_val_def map_rocksdb_def connected_def)

section \<open>The RocksDB server\<close>


text \<open>A session that puts and gets, and a frame of length minus one behind it.\<close>

lemma server_session_example:
  assumes "length bad = 4" "frame_length bad = - 1"
  shows "session_start map_rocksdb (Some Map.empty) (frame ''put k v'' @ frame ''get k'' @ bad) =
     (Some [''k'' \<mapsto> ''v''], frame ''1'' @ frame ''1v'', Server_crash Length_error)"
proof -
  have "split_frames bad = ([], bad)" using assms by (subst split_frames.simps) simp
  then have f: "split_frames (frame ''put k v'' @ frame ''get k'' @ bad) = ([''put k v'', ''get k''], bad)"
    by (simp add: split_frames_frame)
  have q: "parsed_query ''put k v'' = new_message ''put'' ''k'' ''v''" "parsed_query ''get k'' = new_message ''get'' ''k'' []"
    by code_simp+
  have e: "proxy_execute map_rocksdb Map.empty (new_message ''put'' ''k'' ''v'') = (\<lparr>rm_is_success = True, rm_data = []\<rparr>, [''k'' \<mapsto> ''v''])"
    "proxy_execute map_rocksdb [''k'' \<mapsto> ''v''] (new_message ''get'' ''k'' []) = (\<lparr>rm_is_success = True, rm_data = ''v''\<rparr>, [''k'' \<mapsto> ''v''])"
    by (simp_all add: proxy_execute_def proxy_put_def proxy_get_def new_message_def map_rocksdb_def)
  show ?thesis
    unfolding session_start_def session_start_open handle_read_split f
    using assms by (simp add: q e leftover_end_def response_serialize_def)
qed

end
