(* ===== verification/Server_Sessions.thy ===== *)
theory Server_Sessions
  imports Process Store_Properties
begin

text \<open>
  The RocksDB server as a process (\<^verbatim>\<open>rocksdb_server/server.cpp\<close>): its command line and start, the
  acceptor, and the sessions of several clients, which run in threads of their own over one database.
  A call of the library is atomic, so the sessions interleave query by query (\<open>server_run\<close>, with the
  executed queries and their responses as a trace).
\<close>

section \<open>Start and acceptor\<close>

text \<open>
  \<open>asserts\<close> says whether the build keeps \<^verbatim>\<open>assert\<close>; \<open>can_listen\<close> and \<open>open_db\<close> are the results of the
  acceptor's constructor and of \<^verbatim>\<open>DB::Open\<close>. The exceptions are caught and \<^verbatim>\<open>main\<close> returns 1.
\<close>

definition server_main ::
  "bool \<Rightarrow> (nat \<Rightarrow> bool) \<Rightarrow> (string \<Rightarrow> 'd option) \<Rightarrow> string list \<Rightarrow> main_end + (nat \<times> 'd option)" where
  "server_main asserts can_listen open_db args =
     (if asserts \<and> length args \<noteq> 3 then Inl (Aborted Assert_failed)
      else if length args < 3 then Inl (Aborted Undefined_behaviour)
      else
        case stoul (args ! 1) of
          Inl e \<Rightarrow> Inl (Returned 1)
        | Inr n \<Rightarrow>
            let port = unat n mod 2 ^ 16
            in if \<not> can_listen port then Inl (Returned 1) else Inr (port, open_db (args ! 2)))"

text \<open>A failed accept is ignored, the next one is waited for.\<close>

fun do_accept :: "nat option list \<Rightarrow> nat list" where
  "do_accept [] = []"
| "do_accept (None # rest) = do_accept rest"
| "do_accept (Some client # rest) = client # do_accept rest"

section \<open>Sessions side by side\<close>

text \<open>One turn of the loop of a session: its end, or the query, the response and what is left.\<close>

definition session_turn ::
  "'d rocksdb_lib \<Rightarrow> 'd option \<Rightarrow> string \<Rightarrow> session_end + (query_message \<times> response_message \<times> 'd option \<times> string)" where
  "session_turn lib db input =
     (if length input < 4 then Inl Client_finished
      else
        let message_length = frame_length input; rest = drop 4 input
        in if message_length < 0 then Inl (Server_crash Length_error)
           else if length rest < nat message_length then Inl Client_finished
           else (case bind_result (query_deserialize (take (nat message_length) rest))
                        (\<lambda>q. bind_result (pointer_execute lib db q) (\<lambda>(r, db'). Inr (q, r, db'))) of
                   Inl e \<Rightarrow> Inl (Server_crash e)
                 | Inr (q, r, db') \<Rightarrow> Inr (q, r, db', drop (nat message_length) rest)))"

lemma session_loop_turn:
  "session_loop (pointer_execute lib) db input out =
     (case session_turn lib db input of
        Inl e \<Rightarrow> (db, out, e)
      | Inr (q, r, db', rest) \<Rightarrow> session_loop (pointer_execute lib) db' rest (out @ frame (response_serialize r)))"
  by (subst session_loop.simps) (auto simp: session_turn_def Let_def bind_result_def split: sum.splits prod.splits)






section \<open>Traces\<close>
















section \<open>What the messages of the program's own client become\<close>




lemma parsed_putm:
  assumes "k \<noteq> []" "CHR '' '' \<notin> set k" "v \<noteq> []"
  shows "parsed_query (query_serialize (new_message ''putm'' k v)) = new_message ''putm'' k []"
  using assms query_deserialize_with_value [of "''putm''" k v]
  by (simp add: parsed_query_def query_serialize_def new_message_def valid_query_types_def)

lemma parsed_blank_key:
  assumes "c \<in> {''get'', ''getm'', ''del''}" "k \<noteq> []" "CHR '' '' \<notin> set k" "x \<noteq> []"
  shows "parsed_query (query_serialize (new_message c (k @ '' '' @ x) [])) = new_message c k []"
  using assms query_deserialize_with_value [of c k x]
  by (auto simp: parsed_query_def query_serialize_def new_message_def valid_query_types_def)

section \<open>The sessions are serial\<close>



end
