(* ===== verification/Interleaving.thy ===== *)
theory Interleaving
  imports Controller_Facts
begin

text \<open>
  Concurrent connections. \<^verbatim>\<open>main\<close> of \<^verbatim>\<open>controller.cpp\<close> runs every connection in a thread of its own, and
  nothing is locked from one access of a handler to the next: a handler reads the record, decides,
  writes its log entry (under the mutex of the key) and then writes the database. Each of these
  accesses is atomic by itself, the handlers are not.

  The first section splits the handlers at these accesses: \<open>read_phase\<close>, \<open>decide\<close> (which touches
  nothing shared), \<open>log_phase\<close> and \<open>act_phase\<close>. \<open>dispatch_phases\<close> proves that the four in sequence are
  the handlers. The second section runs the requests of several threads in any interleaving of the
  phases (\<open>pool_step\<close>, \<open>pool_run\<close>). Every step takes an environment of its own from a set \<open>E\<close>, so that
  clocks, random bytes and held mutexes differ from step to step; what all of them have in common,
  such as the key-value client, is a statement about \<open>E\<close>. A request that raises takes the process
  down (\<open>po_down\<close>).
\<close>

section \<open>The phases of a request\<close>

text \<open>What a handler is going to do once it has read the record and decided.\<close>

datatype action = Answer string | Fail cpp_error | Store string | Store_meta string | Remove

record plan =
  pl_monitor :: "gdpr_monitor option"
  pl_valid :: bool
  pl_logged :: string
  pl_action :: action

definition database_commands :: "string set" where
  "database_commands = {''get'', ''put'', ''delete'', ''getm'', ''putm''}"

definition read_phase :: "('d, 'c) req_env \<Rightarrow> query \<Rightarrow> 'd \<Rightarrow> string option result" where
  "read_phase env q d =
     (if q_cmd q = ''getm'' then gdpr_getm (rq_kv env) d (q_key q) else gdpr_get (rq_kv env) d (q_key q))"

definition checked ::
  "('d, 'c) req_env \<Rightarrow> query \<Rightarrow> default_policy \<Rightarrow> string option \<Rightarrow> (gdpr_filter \<Rightarrow> bool \<Rightarrow> plan result) \<Rightarrow> plan result" where
  "checked env q p res k =
     bind_result (gdpr_filter_of res) (\<lambda>f. bind_result (validate (rq_check_now env) f q p) (k f))"

definition plan_of :: "query \<Rightarrow> default_policy \<Rightarrow> gdpr_filter \<Rightarrow> bool \<Rightarrow> string \<Rightarrow> action \<Rightarrow> plan" where
  "plan_of q p f valid logged act =
     \<lparr>pl_monitor = Some (monitor_retrieved f q p), pl_valid = valid, pl_logged = logged, pl_action = act\<rparr>"

definition answer_with :: "(string \<Rightarrow> string) \<Rightarrow> string option \<Rightarrow> action" where
  "answer_with g res = (case res of Some v \<Rightarrow> Answer (g v) | None \<Rightarrow> Fail Bad_optional_access)"

definition decide :: "('d, 'c) req_env \<Rightarrow> query \<Rightarrow> default_policy \<Rightarrow> string option \<Rightarrow> plan result" where
  "decide env q p res =
     (if q_cmd q = ''get'' then
        checked env q p res (\<lambda>f ok.
          Inr (plan_of q p f ok [] (if ok then answer_with remove_gdpr_metadata res else Answer GET_FAILED)))
      else if q_cmd q = ''put'' then
        (case res of
           None \<Rightarrow>
             bind_result (rewriter_insert (rq_rewrite_now env) q p (q_value q)) (\<lambda>new_value.
               Inr \<lparr>pl_monitor = Some (monitor_first_put q p), pl_valid = True, pl_logged = new_value,
                    pl_action = Store new_value\<rparr>)
         | Some v \<Rightarrow>
             checked env q p res (\<lambda>f ok.
               if ok then bind_result (rewriter_update v (q_value q)) (\<lambda>new_value.
                 Inr (plan_of q p f ok new_value (Store new_value)))
               else Inr (plan_of q p f ok [] (Answer PUT_FAILED))))
      else if q_cmd q = ''delete'' then
        checked env q p res (\<lambda>f ok.
          Inr (plan_of q p f ok [] (if ok then Remove else Answer delete_refused)))
      else if q_cmd q = ''putm'' then
        (case res of
           None \<Rightarrow> Inr \<lparr>pl_monitor = None, pl_valid = True, pl_logged = [], pl_action = Answer putm_no_key\<rparr>
         | Some v \<Rightarrow>
             checked env q p res (\<lambda>f ok.
               if ok then bind_result (rewriter_putm (rq_rewrite_now env) v q) (\<lambda>new_value.
                 Inr (plan_of q p f ok new_value (Store_meta new_value)))
               else Inr (plan_of q p f ok [] (Answer PUTM_FAILED))))
      else
        checked env q p res (\<lambda>f ok.
          Inr (plan_of q p f ok []
                 (if ok then answer_with preserve_only_gdpr_metadata res else Answer GETM_FAILED))))"

definition log_phase :: "('d, 'c) req_env \<Rightarrow> logger \<Rightarrow> plan \<Rightarrow> logger result" where
  "log_phase env lg pl =
     (case pl_monitor pl of
        None \<Rightarrow> Inr lg
      | Some m \<Rightarrow> monitor_query (log_env_of env) lg m (pl_valid pl) (pl_logged pl))"

definition act_phase :: "('d, 'c) req_env \<Rightarrow> query \<Rightarrow> 'd \<Rightarrow> plan \<Rightarrow> (string \<times> 'd) result" where
  "act_phase env q d pl =
     (case pl_action pl of
        Answer s \<Rightarrow> Inr (s, d)
      | Fail e \<Rightarrow> Inl e
      | Store v \<Rightarrow> bind_result (gdpr_put (rq_kv env) (rq_db_iv env) d (q_key q) v)
          (\<lambda>(b, d'). Inr (if b then PUT_SUCCESS else PUT_FAILED, d'))
      | Store_meta v \<Rightarrow> bind_result (gdpr_putm (rq_kv env) (rq_db_iv env) d (q_key q) v)
          (\<lambda>(b, d'). Inr (if b then PUTM_SUCCESS else PUTM_FAILED, d'))
      | Remove \<Rightarrow> bind_result (gdpr_del (rq_kv env) d (q_key q))
          (\<lambda>(b, d'). Inr (if b then DELETE_SUCCESS else DELETE_FAILED, d')))"

definition phases ::
  "('d, 'c) req_env \<Rightarrow> query \<Rightarrow> default_policy \<Rightarrow> 'd world \<Rightarrow> ('d world, string) outcome" where
  "phases env q p w =
     then_do (w, read_phase env q (w_db w)) (\<lambda>w res.
     then_do (w, decide env q p res) (\<lambda>w pl.
       case log_phase env (w_log w) pl of
         Inl e \<Rightarrow> (w, Inl e)
       | Inr lg \<Rightarrow>
           (case act_phase env q (w_db w) pl of
              Inl e \<Rightarrow> (w\<lparr>w_log := lg\<rparr>, Inl e)
            | Inr (s, d) \<Rightarrow> (w\<lparr>w_log := lg, w_db := d\<rparr>, Inr s))))"

lemmas phase_defs =
  phases_def read_phase_def decide_def checked_def plan_of_def answer_with_def log_phase_def act_phase_def
  monitored_def validate_iff_permitted

lemma handle_get_phases: "q_cmd q = ''get'' \<Longrightarrow> handle_get env q p w = phases env q p w"
  by (auto simp: handle_get_def phase_defs then_do_def bind_result_def split: outcome_splits)

lemma handle_get_metadata_phases: "q_cmd q = ''getm'' \<Longrightarrow> handle_get_metadata env q p w = phases env q p w"
  by (auto simp: handle_get_metadata_def phase_defs then_do_def bind_result_def split: outcome_splits)

lemma handle_delete_phases: "q_cmd q = ''delete'' \<Longrightarrow> handle_delete env q p w = phases env q p w"
  by (auto simp: handle_delete_def phase_defs then_do_def stored_def bind_result_def split: outcome_splits)

lemma handle_put_phases:
  assumes "q_cmd q = ''put''"
  shows "handle_put env q p w = phases env q p w"
proof (cases "gdpr_get (rq_kv env) (w_db w) (q_key q)")
  case (Inl e)
  then show ?thesis using assms by (simp add: handle_put_def phases_def read_phase_def)
next
  case (Inr res)
  show ?thesis
  proof (cases res)
    case None
    then show ?thesis using Inr assms
      by (cases "rewriter_insert (rq_rewrite_now env) q p (q_value q)")
        (simp_all add: handle_put_def phase_defs stored_def bind_result_def split: sum.split prod.split)
  next
    case (Some v)
    show ?thesis
    proof (cases "gdpr_filter_of (Some v)")
      case (Inl e)
      then show ?thesis using Inr Some assms by (simp add: handle_put_def phases_def read_phase_def decide_def checked_def)
    next
      case (Inr f)
      then show ?thesis
        using \<open>gdpr_get (rq_kv env) (w_db w) (q_key q) = Inr res\<close> Some assms
        by (cases "rewriter_update v (q_value q)")
          (simp_all add: handle_put_def phase_defs stored_def bind_result_def split: sum.split prod.split)
    qed
  qed
qed

lemma handle_put_metadata_phases:
  assumes "q_cmd q = ''putm''"
  shows "handle_put_metadata env q p w = phases env q p w"
proof (cases "gdpr_get (rq_kv env) (w_db w) (q_key q)")
  case (Inl e)
  then show ?thesis using assms by (simp add: handle_put_metadata_def phases_def read_phase_def)
next
  case (Inr res)
  show ?thesis
  proof (cases res)
    case None
    then show ?thesis using Inr assms by (simp add: handle_put_metadata_def phase_defs)
  next
    case (Some v)
    show ?thesis
    proof (cases "gdpr_filter_of (Some v)")
      case (Inl e)
      then show ?thesis using Inr Some assms
        by (simp add: handle_put_metadata_def phases_def read_phase_def decide_def checked_def)
    next
      case (Inr f)
      then show ?thesis
        using \<open>gdpr_get (rq_kv env) (w_db w) (q_key q) = Inr res\<close> Some assms
        by (cases "rewriter_putm (rq_rewrite_now env) v q")
          (simp_all add: handle_put_metadata_def phase_defs stored_def bind_result_def split: sum.split prod.split)
    qed
  qed
qed

lemma dispatch_phases: "q_cmd q \<in> database_commands \<Longrightarrow> dispatch env q p w = phases env q p w"
  by (auto simp: database_commands_def dispatch_def handle_get_phases handle_put_phases handle_delete_phases
      handle_get_metadata_phases handle_put_metadata_phases)

section \<open>Interleaved requests\<close>

text \<open>
  A thread is a request with its policy and what its handler holds at the point it has reached: the
  record it read (\<^verbatim>\<open>res\<close>) and its plan.
\<close>

datatype thread =
    Ready query default_policy
  | Has_read query default_policy "string option"
  | Planned query default_policy "string option" plan
  | Logged query default_policy "string option" plan
  | Finished query default_policy string

record 'd pool =
  po_db :: 'd
  po_log :: logger
  po_threads :: "thread list"
  po_down :: "cpp_error option"

definition advance :: "'d pool \<Rightarrow> nat \<Rightarrow> thread \<Rightarrow> 'd pool" where
  "advance s i t = s\<lparr>po_threads := (po_threads s)[i := t]\<rparr>"

definition at_thread :: "'d pool \<Rightarrow> nat \<Rightarrow> thread \<Rightarrow> bool" where
  "at_thread s i t \<longleftrightarrow> po_down s = None \<and> i < length (po_threads s) \<and> po_threads s ! i = t"

inductive pool_step :: "('d, 'c) req_env set \<Rightarrow> 'd pool \<Rightarrow> 'd pool \<Rightarrow> bool" for E where
  step_read: "\<lbrakk>at_thread s i (Ready q p); q_cmd q \<in> database_commands; env \<in> E;
      read_phase env q (po_db s) = Inr res\<rbrakk> \<Longrightarrow> pool_step E s (advance s i (Has_read q p res))"
| step_decide: "\<lbrakk>at_thread s i (Has_read q p res); env \<in> E; decide env q p res = Inr pl\<rbrakk> \<Longrightarrow>
    pool_step E s (advance s i (Planned q p res pl))"
| step_log: "\<lbrakk>at_thread s i (Planned q p res pl); env \<in> E; log_phase env (po_log s) pl = Inr lg\<rbrakk> \<Longrightarrow>
    pool_step E s ((advance s i (Logged q p res pl))\<lparr>po_log := lg\<rparr>)"
| step_act: "\<lbrakk>at_thread s i (Logged q p res pl); env \<in> E; act_phase env q (po_db s) pl = Inr (r, d)\<rbrakk> \<Longrightarrow>
    pool_step E s ((advance s i (Finished q p r))\<lparr>po_db := d\<rparr>)"
| step_logs: "\<lbrakk>at_thread s i (Ready q p); q_cmd q = ''getlogs''; env \<in> E;
      handle_get_logs env q p \<lparr>w_db = po_db s, w_log = po_log s\<rparr> = (w, Inr r)\<rbrakk> \<Longrightarrow>
    pool_step E s ((advance s i (Finished q p r))\<lparr>po_log := w_log w\<rparr>)"
| step_other: "\<lbrakk>at_thread s i (Ready q p); q_cmd q \<notin> database_commands; q_cmd q \<noteq> ''getlogs''\<rbrakk> \<Longrightarrow>
    pool_step E s (advance s i (Finished q p INVALID_COMMAND))"
| raise_read: "\<lbrakk>at_thread s i (Ready q p); q_cmd q \<in> database_commands; env \<in> E;
      read_phase env q (po_db s) = Inl e\<rbrakk> \<Longrightarrow> pool_step E s (s\<lparr>po_down := Some e\<rparr>)"
| raise_decide: "\<lbrakk>at_thread s i (Has_read q p res); env \<in> E; decide env q p res = Inl e\<rbrakk> \<Longrightarrow>
    pool_step E s (s\<lparr>po_down := Some e\<rparr>)"
| raise_log: "\<lbrakk>at_thread s i (Planned q p res pl); env \<in> E; log_phase env (po_log s) pl = Inl e\<rbrakk> \<Longrightarrow>
    pool_step E s (s\<lparr>po_down := Some e\<rparr>)"
| raise_act: "\<lbrakk>at_thread s i (Logged q p res pl); env \<in> E; act_phase env q (po_db s) pl = Inl e\<rbrakk> \<Longrightarrow>
    pool_step E s (s\<lparr>po_down := Some e\<rparr>)"
| raise_logs: "\<lbrakk>at_thread s i (Ready q p); q_cmd q = ''getlogs''; env \<in> E;
      handle_get_logs env q p \<lparr>w_db = po_db s, w_log = po_log s\<rparr> = (w, Inl e)\<rbrakk> \<Longrightarrow>
    pool_step E s (s\<lparr>po_down := Some e\<rparr>)"

text \<open>A run, with the databases it went through, the last one first.\<close>

inductive pool_run :: "('d, 'c) req_env set \<Rightarrow> 'd pool \<Rightarrow> 'd list \<Rightarrow> 'd pool \<Rightarrow> bool" for E s0 where
  run_start: "pool_run E s0 [po_db s0] s0"
| run_step: "\<lbrakk>pool_run E s0 ds s; pool_step E s s'\<rbrakk> \<Longrightarrow> pool_run E s0 (po_db s' # ds) s'"

inductive_cases pool_stepE: "pool_step E s s'"

text \<open>After a crash there are no further steps.\<close>

lemma pool_step_up: "pool_step E s s' \<Longrightarrow> po_down s = None"
  by (erule pool_stepE) (simp_all add: at_thread_def)

section \<open>What the interleaving cannot break\<close>

text \<open>
  The invariant of a run: what a thread holds as its record was read from a database the run went
  through, and its plan was decided on that record.
\<close>

definition was_read :: "('d, 'c) req_env set \<Rightarrow> 'd set \<Rightarrow> query \<Rightarrow> string option \<Rightarrow> bool" where
  "was_read E D q res \<longleftrightarrow> (\<exists>env\<in>E. \<exists>d\<in>D. read_phase env q d = Inr res)"

definition was_decided :: "('d, 'c) req_env set \<Rightarrow> query \<Rightarrow> default_policy \<Rightarrow> string option \<Rightarrow> plan \<Rightarrow> bool" where
  "was_decided E q p res pl \<longleftrightarrow> (\<exists>env\<in>E. decide env q p res = Inr pl)"

fun thread_ok :: "('d, 'c) req_env set \<Rightarrow> 'd set \<Rightarrow> thread \<Rightarrow> bool" where
  "thread_ok E D (Ready q p) = True"
| "thread_ok E D (Has_read q p res) = was_read E D q res"
| "thread_ok E D (Planned q p res pl) = (was_read E D q res \<and> was_decided E q p res pl)"
| "thread_ok E D (Logged q p res pl) = (was_read E D q res \<and> was_decided E q p res pl)"
| "thread_ok E D (Finished q p r) = True"

lemma thread_ok_mono: "thread_ok E D t \<Longrightarrow> D \<subseteq> D' \<Longrightarrow> thread_ok E D' t"
  by (cases t) (auto simp: was_read_def)

lemma threads_advance:
  assumes "\<forall>t\<in>set ts. thread_ok E D t" "thread_ok E D t'"
  shows "\<forall>t\<in>set (ts[i := t']). thread_ok E D t"
  using assms set_update_subset_insert [of ts i t'] by blast

lemma pool_step_threads_ok:
  assumes "pool_step E s s'" "\<forall>t\<in>set (po_threads s). thread_ok E D t" "po_db s \<in> D"
  shows "\<forall>t\<in>set (po_threads s'). thread_ok E D t"
proof -
  have th: "thread_ok E D t" if "at_thread s i t" for i t using assms(2) that by (auto simp: at_thread_def)
  show ?thesis using assms(1)
  proof cases
    case (step_read i q p env res)
    then have "thread_ok E D (Has_read q p res)" using assms(3) by (auto simp: was_read_def)
    from threads_advance [OF assms(2) this] step_read show ?thesis by (simp add: advance_def)
  next
    case (step_decide i q p res env pl)
    then have "thread_ok E D (Planned q p res pl)" using th by (fastforce simp: was_decided_def)
    from threads_advance [OF assms(2) this] step_decide show ?thesis by (simp add: advance_def)
  next
    case (step_log i q p res pl env lg)
    then have "thread_ok E D (Logged q p res pl)" using th by fastforce
    from threads_advance [OF assms(2) this] step_log show ?thesis by (simp add: advance_def)
  next
    case (step_act i q p res pl env r d)
    then show ?thesis using assms(2) threads_advance [of "po_threads s" E D "Finished q p r"] by (simp add: advance_def)
  next
    case (step_logs i q p env w r)
    then show ?thesis using assms(2) threads_advance [of "po_threads s" E D "Finished q p r"] by (simp add: advance_def)
  next
    case (step_other i q p)
    then show ?thesis using assms(2) threads_advance [of "po_threads s" E D "Finished q p INVALID_COMMAND"]
      by (simp add: advance_def)
  qed (use assms(2) in simp_all)
qed

lemma pool_run_ok:
  assumes "pool_run E s0 ds s" "\<forall>t\<in>set (po_threads s0). \<exists>q p. t = Ready q p"
  shows "(\<forall>t\<in>set (po_threads s). thread_ok E (set ds) t) \<and> po_db s \<in> set ds"
  using assms(1)
proof induction
  case run_start
  then show ?case using assms(2) by force
next
  case (run_step ds s s')
  have "\<forall>t\<in>set (po_threads s'). thread_ok E (set ds) t"
    using pool_step_threads_ok [OF run_step.hyps(2)] run_step.IH by blast
  then show ?case using thread_ok_mono [of E "set ds" _ "set (po_db s' # ds)"] by auto
qed

text \<open>A plan that writes was granted by the record it was decided on.\<close>

lemma decide_write_granted:
  assumes "decide env q p res = Inr pl" "\<forall>s. pl_action pl \<noteq> Answer s" "\<forall>e. pl_action pl \<noteq> Fail e"
  shows "q_cmd q \<in> {''put'', ''delete'', ''putm''} \<and>
    (q_cmd q = ''put'' \<and> res = None \<or>
     (\<exists>v f. res = Some v \<and> gdpr_filter_of (Some v) = Inr f \<and> permitted (rq_check_now env) f q p))"
proof -
  have v: "\<exists>v. res = Some v" if "gdpr_filter_of res = Inr f" "f_valid f" for f
    using that by (cases res) (auto simp: empty_filter_def)
  show ?thesis
    using assms
    by (auto simp: decide_def checked_def plan_of_def answer_with_def validate_iff_permitted bind_result_eq_Inr_iff
        split: if_splits option.splits) (use v in fastforce)+
qed

lemma act_phase_writes:
  assumes "act_phase env q d pl = Inr (r, d')" "d' \<noteq> d"
  shows "(\<forall>s. pl_action pl \<noteq> Answer s) \<and> (\<forall>e. pl_action pl \<noteq> Fail e)"
  using assms by (auto simp: act_phase_def)

end
