(* ===== verification/Data_Properties.thy ===== *)
theory Data_Properties
  imports Query_Rewriter
begin

text \<open>
  The properties of the data layer: requests and policies as text, stored records as text, and the
  decision of the filter. Each rests on the lemmas of its component.
\<close>

section \<open>The access decision\<close>

text \<open>
  C13. \<^verbatim>\<open>gdpr_filter::validate\<close> never raises and decides exactly the access rule: the value exists, the
  user is its owner or in its share list, every requested purpose (of the query, or else of the
  client's policy) is allowed and none is objected to, and the value has not expired.
\<close>

theorem validate_decides_access:
  "validate now f q p = Inr (f_valid f \<and> permitted now f q p)"
  by (rule validate_iff_permitted)

section \<open>Stored records\<close>

lemma record_of_split:
  "record_of f v = (fields_text (butlast (metadata_fields_of f)) @ last (metadata_fields_of f)) @ CHR ''|'' # v"
  using fields_text_last [of "metadata_fields_of f"] by (simp add: record_of_def metadata_fields_of_def)

lemma record_of_tail: "\<exists>x. record_of f v = x @ CHR ''|'' # value_tail v \<and> fields_text (metadata_fields_of f) @ value_head v = x @ ''|''"
proof (cases v rule: value_cases)
  case 1
  then show ?thesis
    using record_of_split [of f v] fields_text_last [of "metadata_fields_of f"] by (auto simp: metadata_fields_of_def)
next
  case (2 a b)
  then show ?thesis by (intro exI [of _ "fields_text (metadata_fields_of f) @ a"]) (simp add: record_of_def)
qed

text \<open>What get and getm make of the record of any value.\<close>

lemma remove_record_value: "remove_gdpr_metadata (record_of f v) = shown_value f v"
proof -
  obtain x where x: "record_of f v = x @ CHR ''|'' # value_tail v" using record_of_tail by blast
  show ?thesis
    using remove_gdpr_metadata_append [OF value_tail_clean, of v x] x
    by (cases "value_tail v = []") (simp_all add: shown_value_def remove_gdpr_metadata_def)
qed

lemma preserve_record_value:
  "preserve_only_gdpr_metadata (record_of f v) = fields_text (metadata_fields_of f) @ value_head v"
proof -
  obtain x where x: "record_of f v = x @ CHR ''|'' # value_tail v"
    "fields_text (metadata_fields_of f) @ value_head v = x @ ''|''" using record_of_tail by blast
  show ?thesis
    unfolding x using preserve_only_gdpr_metadata_append [OF value_tail_clean] by simp
qed

lemma remove_record: "clean v \<Longrightarrow> v \<noteq> [] \<Longrightarrow> remove_gdpr_metadata (record_of f v) = v"
  unfolding record_of_split by (rule remove_gdpr_metadata_append)

lemma preserve_record: "clean v \<Longrightarrow> preserve_only_gdpr_metadata (record_of f v) = fields_text (metadata_fields_of f)"
  unfolding record_of_split
  using fields_text_last [of "metadata_fields_of f"]
  by (subst preserve_only_gdpr_metadata_append) (simp_all add: metadata_fields_of_def)

lemma example_metadata_wf:
  "wf_filter \<lparr>f_valid = True, f_user_key = ''alice'', f_encryption = True, f_purpose = 5, f_objection = 2,
     f_origin = ''web'', f_expiration = 100, f_share = ''bob,carol'', f_monitor = True\<rparr>"
  by (simp add: wf_filter_def int64_range_def)

text \<open>
  C14. A first put and the later reads agree on the text of a record, when the user, the origin and the
  share list hold no delimiter: what the inserting rewriter produces is read back by the filter as the
  metadata of the request (with the defaults of the policy). Of the value get returns what follows its
  last delimiter, that is the value itself if it has none, unless nothing follows it (as for the empty
  value): then get returns the whole record.
\<close>

theorem insert_roundtrip:
  assumes "rewriter_insert now q p v = Inr s" "clean_request q p"
  shows "\<exists>t. get_expiration_time now (value_or (q_expiration q) (dp_expiration p)) = Inr t \<and>
    gdpr_filter_of (Some s) = Inr (insert_metadata q p t) \<and>
    remove_gdpr_metadata s = (if value_tail v = [] then s else value_tail v) \<and>
    (v \<noteq> [] \<and> clean v \<longrightarrow> remove_gdpr_metadata s = v)"
proof -
  from assms(1) obtain t where t: "get_expiration_time now (value_or (q_expiration q) (dp_expiration p)) = Inr t"
    "s = record_of (insert_metadata q p t) v"
    by (auto simp: rewriter_insert_eq bind_result_eq_Inr_iff)
  have "wf_filter (insert_metadata q p t)"
    using insert_metadata_wf [OF assms(2)] get_expiration_time_range [OF t(1)] by blast
  then show ?thesis using t gdpr_filter_of_record remove_record_value shown_value_clean by (simp add: shown_value_def)
qed

lemma rewriter_insert_example:
  "rewriter_insert 0 (empty_query\<lparr>q_user_key := Some ''u''\<rparr>) empty_policy ''v'' = Inr ''u|0|0|0||0||0|v''"
  by code_simp

theorem insert_roundtrip_witness:
  "\<exists>t. get_expiration_time 0 0 = Inr t \<and>
    gdpr_filter_of (Some ''u|0|0|0||0||0|v'') =
      Inr (insert_metadata (empty_query\<lparr>q_user_key := Some ''u''\<rparr>) empty_policy t) \<and>
    remove_gdpr_metadata ''u|0|0|0||0||0|v'' = ''v''"
  using insert_roundtrip [OF rewriter_insert_example]
  by (auto simp: clean_request_def request_user_def empty_query_def empty_policy_def)

text \<open>
  A put on an existing key never changes the metadata: whatever text is stored, if the filter
  accepts it then the updating rewriter returns a text with the same metadata, from which get reads
  the new value.
\<close>

theorem update_keeps_metadata:
  assumes "gdpr_filter_of (Some res) = Inr f"
  shows "\<exists>s. rewriter_update res v = Inr s \<and> gdpr_filter_of (Some s) = Inr f \<and>
    (clean v \<and> v \<noteq> [] \<longrightarrow> remove_gdpr_metadata s = v)"
  using rewriter_update_keeps_metadata [OF assms, of v] by metis

theorem update_keeps_metadata_witness:
  "\<exists>s. rewriter_update (record_of (empty_filter\<lparr>f_valid := True\<rparr>) ''old'') ''new'' = Inr s \<and>
     gdpr_filter_of (Some s) = Inr (empty_filter\<lparr>f_valid := True\<rparr>) \<and> remove_gdpr_metadata s = ''new''"
  using update_keeps_metadata [of "record_of (empty_filter\<lparr>f_valid := True\<rparr>) ''old''" "empty_filter\<lparr>f_valid := True\<rparr>" "''new''"]
    gdpr_filter_of_record [of "empty_filter\<lparr>f_valid := True\<rparr>" "''old''"]
  by (simp add: wf_filter_def empty_filter_def int64_range_def)

text \<open>
  A metadata update replaces exactly the fields the request names, keeps the others and the
  value, and writes a record the filter reads back.
\<close>

theorem putm_updates_named_fields:
  assumes "wf_filter f" "clean v" "clean_putm q" "putm_expiration now q f = Inr t"
  shows "\<exists>s. rewriter_putm now (record_of f v) q = Inr s \<and>
    gdpr_filter_of (Some s) = Inr (putm_metadata q f t) \<and> (v \<noteq> [] \<longrightarrow> remove_gdpr_metadata s = v)"
proof -
  have "wf_filter (putm_metadata q f t)"
    using putm_metadata_wf [OF assms(1,3)] putm_expiration_range [OF assms(1,4)] by blast
  then show ?thesis
    using rewriter_putm_record [OF assms(1,2), of now q] assms(2,4) gdpr_filter_of_record remove_record
    by simp
qed

theorem putm_updates_named_fields_witness:
  "\<exists>s. rewriter_putm 0 (record_of (empty_filter\<lparr>f_valid := True, f_user_key := ''u''\<rparr>) ''val'')
      (empty_query\<lparr>q_share := Some ''bob''\<rparr>) = Inr s \<and>
     gdpr_filter_of (Some s) = Inr (empty_filter\<lparr>f_valid := True, f_user_key := ''u'', f_share := ''bob''\<rparr>) \<and>
     remove_gdpr_metadata s = ''val''"
  using putm_updates_named_fields [of "empty_filter\<lparr>f_valid := True, f_user_key := ''u''\<rparr>" "''val''"
      "empty_query\<lparr>q_share := Some ''bob''\<rparr>" 0 0]
  by (simp add: wf_filter_def empty_filter_def int64_range_def clean_putm_def empty_query_def
      putm_expiration_def putm_metadata_def)

text \<open>
  A stored text with fewer than eight delimiters is not a record: the filter raises instead of
  deciding.
\<close>

lemma count_bars_fields: "\<forall>t\<in>set ts. clean t \<Longrightarrow> count_list (fields_text ts) (CHR ''|'') = length ts"
proof (induction ts)
  case (Cons t ts)
  then have "count_list t (CHR ''|'') = 0" by simp
  with Cons show ?case by (simp add: count_list_append)
qed simp

lemma filter_rejects_short_text:
  assumes "count_list s (CHR ''|'') < metadata_prefix_fields"
  shows "\<exists>e. gdpr_filter_of (Some s) = Inl e"
proof -
  obtain ts rest where s: "s = fields_text ts @ rest" "\<forall>t\<in>set ts. clean t"
    "length ts = 8 \<or> (length ts < 8 \<and> clean rest)" using fields_text_exists [of s 8] by blast
  then have "length ts < 8 \<and> clean rest"
    using assms count_bars_fields [OF s(2)] by (auto simp: metadata_prefix_fields_def count_list_append)
  then show ?thesis unfolding s(1) using gdpr_filter_of_short [OF s(2)] by blast
qed

text \<open>
  What get makes of values the format cannot carry: of a value with a delimiter only the part
  behind the last one is returned, and for an empty value the whole record, metadata included.
\<close>

theorem get_of_awkward_values:
  assumes "clean b" "b \<noteq> []"
  shows "remove_gdpr_metadata (record_of f (a @ CHR ''|'' # b)) = b \<and>
    remove_gdpr_metadata (record_of f []) = record_of f []"
proof
  have "record_of f (a @ CHR ''|'' # b) = (fields_text (metadata_fields_of f) @ a) @ CHR ''|'' # b"
    by (simp add: record_of_def)
  then show "remove_gdpr_metadata (record_of f (a @ CHR ''|'' # b)) = b"
    using assms by (metis remove_gdpr_metadata_append)
  let ?p = "fields_text (butlast (metadata_fields_of f)) @ last (metadata_fields_of f)"
  have "find_last_of (CHR ''|'') (?p @ CHR ''|'' # []) = Some (length ?p)"
    by (rule find_last_of_append) simp
  then show "remove_gdpr_metadata (record_of f []) = record_of f []"
    unfolding record_of_split by (simp add: remove_gdpr_metadata_def)
qed

theorem get_of_awkward_values_witness:
  "remove_gdpr_metadata (record_of empty_filter ''left|right'') = ''right'' \<and>
   remove_gdpr_metadata (record_of empty_filter []) = record_of empty_filter []"
  using get_of_awkward_values [of "''right''" empty_filter "''left''"] by simp

section \<open>Purposes\<close>

text \<open>
  A list of purpose names sets exactly the bits of the known names it holds, and bit 0 when it
  holds a name that is not one of \<^verbatim>\<open>purpose0\<close> to \<^verbatim>\<open>purpose63\<close>: an unknown name counts as \<^verbatim>\<open>purpose0\<close>.
\<close>

theorem set_bitmap_purposes:
  "purposes (set_bitmap 0 ks) =
     {i. i < num_purposes \<and> purpose_name i \<in> set ks} \<union>
     (if \<exists>k\<in>set ks. \<forall>i<num_purposes. k \<noteq> purpose_name i then {0} else {})"
proof (intro set_eqI)
  fix i
  have known: "get_pur_index k = i \<longleftrightarrow> (i < 64 \<and> k = purpose_name i) \<or> (i = 0 \<and> (\<forall>j<64. k \<noteq> purpose_name j))" for k
    using get_pur_index_less [of k] get_pur_index_unknown [of k] pur_index_purpose by metis
  show "i \<in> purposes (set_bitmap 0 ks) \<longleftrightarrow> i \<in> {i. i < num_purposes \<and> purpose_name i \<in> set ks} \<union>
     (if \<exists>k\<in>set ks. \<forall>i<num_purposes. k \<noteq> purpose_name i then {0} else {})"
    unfolding purposes_def mem_Collect_eq bit_set_bitmap known num_purposes_def by auto
qed

text \<open>
  The quantified formulas of the statement are part of the set it computes; at a list with one
  known and one unknown name it reads as follows.
\<close>

theorem set_bitmap_purposes_witness:
  "{0, 3} \<subseteq> purposes (set_bitmap 0 [''purpose3'', ''analytics''])"
proof -
  have u: "\<forall>i<num_purposes. ''analytics'' \<noteq> purpose_name i" by (simp add: purpose_name_def)
  have k: "''purpose3'' = purpose_name 3"
    by code_simp
  have "\<exists>k\<in>set [''purpose3'', ''analytics'']. \<forall>i<num_purposes. k \<noteq> purpose_name i" using u by auto
  then show ?thesis
    unfolding set_bitmap_purposes [of "[''purpose3'', ''analytics'']"] using k by (simp add: num_purposes_def)
qed

section \<open>Requests as text\<close>

fun option_text :: "string \<times> string \<Rightarrow> string" where
  "option_text (name, v) = name @ CHR ''('' # (CHR 0x22 # v @ [CHR 0x22]) @ '')''"

fun parse_options :: "query \<Rightarrow> (string \<times> string) list \<Rightarrow> query result" where
  "parse_options q [] = Inr q"
| "parse_options q ((name, v) # os) = bind_result (parse_option q name v) (\<lambda>q'. parse_options q' os)"

definition request_options :: "(string \<times> string) list \<Rightarrow> bool" where
  "request_options os \<longleftrightarrow> (\<forall>(name, v)\<in>set os. name \<noteq> ''query'' \<and> CHR ''('' \<notin> set name \<and>
     CHR ''&'' \<notin> set name \<and> CHR ''&'' \<notin> set v)"

lemma process_all_options:
  "request_options os \<Longrightarrow> process_all q (map option_text os) = parse_options q os"
proof (induction os arbitrary: q)
  case (Cons o1 os)
  obtain name v where o1: "o1 = (name, v)" by (cases o1)
  with Cons.prems have n: "CHR ''('' \<notin> set name" "name \<noteq> ''query''" and os: "request_options os"
    by (auto simp: request_options_def)
  have "process_all q (map option_text (o1 # os)) =
      bind_result (parse_option q name v) (\<lambda>q'. process_all q' (map option_text os))"
    using o1 process_predicate_option [OF n, of q v] by simp
  then show ?case using o1 Cons.IH [OF os] by simp
qed simp

lemma option_text_separator:
  "request_options os \<Longrightarrow> t \<in> set (map option_text os) \<Longrightarrow> CHR ''&'' \<notin> set t"
  by (auto simp: request_options_def)

lemma not_in_command:
  assumes "map to_lower cmd = low" "to_lower c = c" "c \<notin> set low"
  shows "c \<notin> set cmd"
  using assms by (metis image_eqI list.set_map)

text \<open>
  C29. The form of request that the parser implements is read as written: \<^verbatim>\<open>query(command("key"))\<close> for get,
  delete, getm, putm and getLogs, \<^verbatim>\<open>query(put("key","value"))\<close>, the command in any case and with any text
  between the arguments of a put, followed by any options \<^verbatim>\<open>name("value")\<close>, each directly behind an
  ampersand. No quote is in the arguments of the command and between them, no ampersand is in any part,
  and no parenthesis opens in the name of an option. The result is the command with the options applied
  in order, an error of an option included. (An option with a blank before its name, or a name that
  \<^verbatim>\<open>parse_option\<close> does not know, such as \<^verbatim>\<open>sessionKeyIs\<close>, raises.)
\<close>

theorem request_parses:
  assumes "request_options os" "CHR 0x22 \<notin> set k" "CHR ''&'' \<notin> set k" "CHR 0x22 \<notin> set v" "CHR ''&'' \<notin> set v"
    and "CHR 0x22 \<notin> set m" "CHR ''&'' \<notin> set m"
    and "map to_lower cmd \<in> {''get'', ''delete'', ''getm'', ''putm'', ''getlogs''}" "map to_lower cput = ''put''"
  shows "query_of_input (join_with (CHR ''&'') (command1 cmd k # map option_text os)) =
      parse_options (if map to_lower cmd = ''getlogs'' then empty_query\<lparr>q_cmd := ''getlogs'', q_log_key := k\<rparr>
                     else empty_query\<lparr>q_cmd := map to_lower cmd, q_key := k\<rparr>) os \<and>
    query_of_input (join_with (CHR ''&'') (command_sep cput k m v # map option_text os)) =
      parse_options (empty_query\<lparr>q_cmd := ''put'', q_key := k, q_value := v\<rparr>) os"
proof
  have sym: "to_lower c = c" if "c \<in> {CHR ''('', CHR 0x22, CHR ''&''}" for c using that by (auto simp: to_lower_def)
  have c: "c \<notin> set cmd" if "c \<in> {CHR ''('', CHR 0x22, CHR ''&''}" for c
    by (rule not_in_command [OF refl sym [OF that]]) (use that assms(8) in auto)
  have d: "c \<notin> set cput" if "c \<in> {CHR ''('', CHR 0x22, CHR ''&''}" for c
    by (rule not_in_command [OF assms(9) sym [OF that]]) (use that in auto)
  have cmd: "CHR ''('' \<notin> set cmd" "CHR 0x22 \<notin> set cmd" "CHR ''&'' \<notin> set cmd" by (rule c, simp)+
  have cput: "CHR ''('' \<notin> set cput" "CHR 0x22 \<notin> set cput" "CHR ''&'' \<notin> set cput" by (rule d, simp)+
  have opts: "\<forall>t\<in>set (map option_text os). CHR ''&'' \<notin> set t" using option_text_separator [OF assms(1)] by blast
  have "map to_lower cmd \<notin> {''exit'', ''put''}" using assms(8) by auto
  note p1 = process_predicate_command1 [OF cmd(1,2) this assms(2), of empty_query]
  have a1: "CHR ''&'' \<notin> set (command1 cmd k)" using cmd(3) assms(3) by (simp add: command1_def)
  show "query_of_input (join_with (CHR ''&'') (command1 cmd k # map option_text os)) =
      parse_options (if map to_lower cmd = ''getlogs'' then empty_query\<lparr>q_cmd := ''getlogs'', q_log_key := k\<rparr>
                     else empty_query\<lparr>q_cmd := map to_lower cmd, q_key := k\<rparr>) os"
    using p1 a1 opts process_all_options [OF assms(1)] by (subst query_of_input_predicates) auto
  note p2 = process_predicate_sep [OF assms(9) cput(1,2) assms(2,6,4), of empty_query]
  have a2: "CHR ''&'' \<notin> set (command_sep cput k m v)" using cput(3) assms(3,5,7) by (simp add: command_sep_def)
  show "query_of_input (join_with (CHR ''&'') (command_sep cput k m v # map option_text os)) =
      parse_options (empty_query\<lparr>q_cmd := ''put'', q_key := k, q_value := v\<rparr>) os"
    using p2 a2 opts process_all_options [OF assms(1)] by (subst query_of_input_predicates) auto
qed

theorem request_parses_witness:
  "query_of_input (join_with (CHR ''&'') [command1 ''getLogs'' ''key1'', option_text (''sessionKey'', ''alice'')]) =
     Inr (empty_query\<lparr>q_cmd := ''getlogs'', q_log_key := ''key1'', q_user_key := Some ''alice''\<rparr>) \<and>
   query_of_input (join_with (CHR ''&'') [command_sep ''PUT'' ''key1'' '', '' ''value1'', option_text (''sessionKey'', ''alice'')]) =
     Inr (empty_query\<lparr>q_cmd := ''put'', q_key := ''key1'', q_value := ''value1'', q_user_key := Some ''alice''\<rparr>)"
proof -
  have "map to_lower ''getLogs'' = ''getlogs''" "map to_lower ''PUT'' = ''put''" by code_simp+
  then show ?thesis
    using request_parses [of "[(''sessionKey'', ''alice'')]" "''key1''" "''value1''" "'', ''" "''getLogs''" "''PUT''"]
    by (simp add: request_options_def parse_option_def)
qed

text \<open>
  A request with a predicate that \<^verbatim>\<open>parse_option\<close> does not handle raises, whatever its value. This
  includes predicates the table \<^verbatim>\<open>policy_predicates\<close> of the parser lists as supported, such as
  \<^verbatim>\<open>sessionKeyIs\<close> (see the witness).
\<close>

theorem unsupported_predicate_raises:
  assumes "name \<notin> set supported_options" "request_options [(name, v)]"
    and "CHR 0x22 \<notin> set k" "CHR ''&'' \<notin> set k"
  shows "query_of_input (join_with (CHR ''&'') [command1 ''get'' k, option_text (name, v)]) =
    Inl (Invalid_argument (''Error: predicate '' @ name @ '' not supported.''))"
proof -
  have low: "map to_lower ''get'' = ''get''" by (simp add: to_lower_def)
  have "process_predicate empty_query (command1 ''get'' k) = Inr (empty_query\<lparr>q_cmd := ''get'', q_key := k\<rparr>)"
    using process_predicate_command1 [of "''get''" k empty_query] low assms(3) by simp
  moreover have "process_all q [option_text (name, v)] =
      Inl (Invalid_argument (''Error: predicate '' @ name @ '' not supported.''))" for q
    using process_all_options [OF assms(2), of q] parse_option_unsupported [OF assms(1)] by simp
  moreover have "CHR ''&'' \<notin> set (command1 ''get'' k)" using assms(4) by (simp add: command1_def)
  moreover have "CHR ''&'' \<notin> set (option_text (name, v))" using assms(2) by (simp add: request_options_def)
  ultimately show ?thesis by (subst query_of_input_predicates) auto
qed

theorem unsupported_predicate_raises_witness:
  "''sessionKeyIs'' \<in> set policy_predicates \<and>
   query_of_input (join_with (CHR ''&'') [command1 ''get'' ''key1'', option_text (''sessionKeyIs'', ''alice'')]) =
     Inl (Invalid_argument ''Error: predicate sessionKeyIs not supported.'')"
  using unsupported_predicate_raises [of "''sessionKeyIs''" "''alice''" "''key1''"]
  by (simp add: policy_predicates_def supported_options_def request_options_def)

section \<open>Policies as text\<close>

lemma map_of_rev_distinct: "distinct (map fst ps) \<Longrightarrow> map_of (rev ps) = map_of ps"
  by (intro map_of_inject_set [THEN iffD2]) (simp_all add: rev_map [symmetric])

text \<open>
  C31. The policy a client sends is read as written: for every order of the eight options, each with a
  value of its kind, the constructor returns the policy with those values.
\<close>

theorem policy_text_parses:
  assumes ps: "distinct (map fst ps)" "\<forall>(opt, x)\<in>set ps. word_text opt \<and> hd opt = CHR ''-'' \<and> word_text x"
    and opts: "map_of ps ''-sessionKey'' = Some u" "map_of ps ''-encryption'' = Some (bool_to_str e)"
      "map_of ps ''-purpose'' = Some (join_with (CHR '','') purs)"
      "map_of ps ''-objection'' = Some (join_with (CHR '','') objs)"
      "map_of ps ''-origin'' = Some orig" "map_of ps ''-expTime'' = Some (to_string t)"
      "map_of ps ''-objShare'' = Some share" "map_of ps ''-monitor'' = Some (bool_to_str m)"
    and names: "purs \<noteq> []" "\<forall>k\<in>set purs. CHR '','' \<notin> set k" "objs \<noteq> []" "\<forall>k\<in>set objs. CHR '','' \<notin> set k"
    and t: "int64_range t"
  shows "default_policy_of_input (render_options ps) =
    Inr \<lparr>dp_user_key = u, dp_encryption = e, dp_purpose = set_bitmap 0 purs, dp_objection = set_bitmap 0 objs,
         dp_origin = orig, dp_expiration = t, dp_share = share, dp_monitor = m\<rparr>"
proof -
  have loop: "option_loop (render_options ps) Map.empty = map_of ps"
    using option_loop_render [OF ps(2)] map_of_rev_distinct [OF ps(1)] by simp
  have "set policy_options \<subseteq> dom (map_of ps)" using opts by (simp add: policy_options_def domI)
  then have "check_policy (map_of ps) = Inr ()" by (simp add: check_policy_Inr)
  then show ?thesis
    using loop opts t split_join_on [OF names(1,2)] split_join_on [OF names(3,4)]
    by (simp add: default_policy_of_input_def opt_at_def str_to_bool_to_str split_comma_string_eq)
qed

theorem policy_text_parses_witness:
  "default_policy_of_input (render_options
     [(''-sessionKey'', ''alice''), (''-encryption'', ''true''), (''-purpose'', ''purpose0,purpose1''),
      (''-objection'', ''purpose2''), (''-origin'', ''web''), (''-expTime'', ''0''), (''-objShare'', ''bob''),
      (''-monitor'', ''false'')]) =
    Inr \<lparr>dp_user_key = ''alice'', dp_encryption = True, dp_purpose = set_bitmap 0 [''purpose0'', ''purpose1''],
         dp_objection = set_bitmap 0 [''purpose2''], dp_origin = ''web'', dp_expiration = 0,
         dp_share = ''bob'', dp_monitor = False\<rparr>"
proof -
  have "to_string 0 = ''0''" by code_simp
  then show ?thesis
    by (intro policy_text_parses)
      (simp_all add: bool_to_str_def word_text_def is_space_def int64_range_def)
qed

text \<open>
  C30. Whatever text a client sends, a request that the parser accepts is well typed: its command is in
  lower case, its key and value carry no quotation mark and its numbers are 32-bit integers. So an
  expiration it names never overflows the clock arithmetic (until the year 2191), and the record for
  its first put can always be written. The expiration of a policy is a 64-bit number and has no such
  bound.
\<close>

theorem parsed_request_typed:
  assumes "query_of_input s = Inr q"
  shows "query_typed q \<and>
    (\<forall>now p v. 0 \<le> now \<and> now \<le> 7 * 10 ^ 18 \<and> q_expiration q \<noteq> None \<longrightarrow> (\<exists>t. rewriter_insert now q p v = Inr t))"
proof -
  have typed: "query_typed q" using assms by (rule query_of_input_typed)
  have "\<exists>t. get_expiration_time now n = Inr t" if "0 \<le> now" "now \<le> 7 * 10 ^ 18" "q_expiration q = Some n" for now n
    using that typed by (auto simp: get_expiration_time_def s2ns_def query_typed_def int32_range_def int64_range_def)
  then have "\<exists>t. rewriter_insert now q p v = Inr t"
    if "0 \<le> now" "now \<le> 7 * 10 ^ 18" "q_expiration q \<noteq> None" for now p v
    using that by (fastforce simp: rewriter_insert_eq)
  with typed show ?thesis by blast
qed

theorem parsed_request_typed_witness:
  "\<exists>q. query_of_input (join_with (CHR ''&'') [command2 ''put'' ''k'' ''v'', option_text (''objExp'', ''60'')]) = Inr q \<and>
    (\<exists>t. rewriter_insert (7 * 10 ^ 18) q empty_policy ''v'' = Inr t)"
proof -
  let ?q = "empty_query\<lparr>q_cmd := ''put'', q_key := ''k'', q_value := ''v'', q_expiration := Some 60\<rparr>"
  have q: "query_of_input (join_with (CHR ''&'') [command2 ''put'' ''k'' ''v'', option_text (''objExp'', ''60'')]) = Inr ?q"
    by code_simp
  from parsed_request_typed [OF q] have "\<exists>t. rewriter_insert (7 * 10 ^ 18) ?q empty_policy ''v'' = Inr t"
    by (simp del: power.simps)
  with q show ?thesis by blast
qed

end
