(* ===== verification/Log_Properties.thy ===== *)
theory Log_Properties
  imports Gdpr_Regulator
begin

text \<open>
  The properties of the audit log: monitored operations extend the trail of their key and nothing
  else, the regulator reads the trail back, and the table of open streams stays consistent and
  bounded.

  \<open>audit_trail cipher lg k es\<close> says that the log file of \<open>k\<close> holds exactly the encoded entries \<open>es\<close>,
  in order, each stored as the encryption of the build (\<open>cipher\<close>) stores it.
\<close>

section \<open>Trails\<close>

definition written :: "('c openssl \<times> cipher_engine) option \<Rightarrow> string \<Rightarrow> string \<Rightarrow> bool" where
  "written cipher e s \<longleftrightarrow> length e < 2 ^ 31 \<and>
     (case cipher of
        None \<Rightarrow> s = e
      | Some (ossl, eng) \<Rightarrow> \<exists>iv. length iv = initialization_vector_len \<and>
          stored_entry (Some (ossl, eng, Some iv)) e = Some s)"

definition audit_trail :: "('c openssl \<times> cipher_engine) option \<Rightarrow> logger \<Rightarrow> string \<Rightarrow> string list \<Rightarrow> bool" where
  "audit_trail cipher lg k es \<longleftrightarrow>
     (\<exists>ss. list_all2 (written cipher) es ss \<and> file_content lg k = concat (map entry_frame ss))"

definition cipher_ok :: "('c openssl \<times> cipher_engine) option \<Rightarrow> bool" where
  "cipher_ok cipher \<longleftrightarrow> (case cipher of None \<Rightarrow> True | Some (ossl, eng) \<Rightarrow> openssl_contract ossl \<and> engine_inv eng)"

text \<open>The encryption of one request: that of the build with the vector the request draws.\<close>

definition request_cipher :: "('c openssl \<times> cipher_engine) option \<Rightarrow> string \<Rightarrow> 'c log_cipher" where
  "request_cipher cipher iv = map_option (\<lambda>(ossl, eng). (ossl, eng, Some iv)) cipher"

lemma written_stored:
  assumes "stored_entry (request_cipher cipher iv) e = Some s" "length iv = initialization_vector_len" "length e < 2 ^ 31"
  shows "written cipher e s"
  using assms by (cases cipher) (auto simp: written_def request_cipher_def stored_entry_def)

lemma open_written:
  assumes "cipher_ok cipher" "written cipher e s"
  shows "open_entry cipher s = Inr e" and "length s < 2 ^ 63"
proof -
  have "open_entry cipher s = Inr e \<and> length s < 2 ^ 63"
  proof (cases cipher)
    case None
    with assms show ?thesis by (simp add: written_def open_entry_def)
  next
    case (Some c)
    obtain ossl eng where c: "cipher = Some (ossl, eng)" using Some by (cases c) simp
    with assms obtain iv where iv: "length iv = initialization_vector_len" and e: "length e < 2 ^ 31"
      and s: "er_success (encrypt ossl eng (Some iv) e log_key)" "s = er_ciphertext (encrypt ossl eng (Some iv) e log_key)"
      and k: "openssl_contract ossl" "engine_inv eng"
      by (auto simp: written_def cipher_ok_def stored_entry_def Let_def split: if_splits)
    from s(1) obtain key ct mac where ek: "get_encryption_key eng log_key = Some key"
      and se: "evp_seal ossl key iv e = Some (ct, mac)"
      by (auto simp: encrypt_def Let_def split: option.splits)
    have "length ct = length e" "length mac = 16"
      using openssl_contract.seal_open [OF k(1) get_key_length [OF k(2) ek] iv e se] by (simp_all add: tag_len_def)
    then have "length s < 2 ^ 63"
      using s(2) ek se e iv by (simp add: encrypt_def container_def initialization_vector_len_def)
    moreover have "open_entry cipher s = Inr e"
      using openssl_contract.decrypt_encrypt [OF k iv e s(1)] c s(2) by (simp add: open_entry_def decrypt_log_entry_def)
    ultimately show ?thesis by blast
  qed
  then show "open_entry cipher s = Inr e" "length s < 2 ^ 63" by blast+
qed

lemma log_file_path_inject [simp]: "log_file_path lg k = log_file_path lg k' \<longleftrightarrow> k = k'"
  by (simp add: log_file_path_def)

lemma log_file_path_dir: "lg_dir lg' = lg_dir lg \<Longrightarrow> log_file_path lg' = log_file_path lg"
  by (simp add: log_file_path_def fun_eq_iff)

lemma extend_trail:
  assumes tr: "audit_trail cipher lg (q_key q) es" and dir: "lg_dir lg' = lg_dir lg"
    and fs: "lg_fs lg' = logged_fs env lg needed q p valid new_val"
    and env: "le_cipher env = request_cipher cipher iv" "length iv = initialization_vector_len"
    and log: "needed \<longrightarrow> logged_bytes env q p valid new_val \<noteq> None"
    and len: "length (request_entry (le_now env) q p valid new_val) < 2 ^ 31"
  shows "audit_trail cipher lg' (q_key q) (if needed then es @ [request_entry (le_now env) q p valid new_val] else es)"
proof (cases needed)
  case True
  with log obtain s where s: "logged_bytes env q p valid new_val = Some s" by auto
  then have "written cipher (request_entry (le_now env) q p valid new_val) s"
    using written_stored [OF _ env(2) len] env(1) by (simp add: logged_bytes_def)
  moreover have "file_content lg' (q_key q) = file_content lg (q_key q) @ entry_frame s"
    using True s fs log_file_path_dir [OF dir] by (simp add: file_content_def [of lg'] logged_fs_def with_entry_def)
  moreover obtain ss where "list_all2 (written cipher) es ss" "file_content lg (q_key q) = concat (map entry_frame ss)"
    using tr by (auto simp: audit_trail_def)
  ultimately show ?thesis using True
    by (auto simp: audit_trail_def intro!: exI [of _ "ss @ [s]"] list_all2_appendI)
next
  case False
  with tr fs log_file_path_dir [OF dir] show ?thesis by (simp add: audit_trail_def file_content_def logged_fs_def)
qed

text \<open>
  C23. A monitored operation extends the audit trail of its key by exactly its own entry and leaves the
  trail of every other key as it was; an operation on a record without monitoring leaves every trail
  as it was. The logger is consistent afterwards.
\<close>

theorem monitored_operation_extends_trail:
  assumes lg: "logger_ok lg" and tr: "audit_trail cipher lg (q_key (gm_query m)) es"
    and env: "le_cipher env = request_cipher cipher iv" "length iv = initialization_vector_len"
    and log: "gm_needed m \<longrightarrow> can_log env lg (gm_query m) (gm_policy m) valid new_val"
    and len: "length (request_entry (le_now env) (gm_query m) (gm_policy m) valid new_val) < 2 ^ 31"
  shows "\<exists>lg'. monitor_query env lg m valid new_val = Inr lg' \<and> logger_ok lg' \<and>
    audit_trail cipher lg' (q_key (gm_query m))
      (if gm_needed m then es @ [request_entry (le_now env) (gm_query m) (gm_policy m) valid new_val] else es) \<and>
    (\<forall>k. k \<noteq> q_key (gm_query m) \<longrightarrow> file_content lg' k = file_content lg k)"
proof -
  let ?k = "q_key (gm_query m)"
  obtain lg' where l: "monitor_query env lg m valid new_val = Inr lg'" "logger_ok lg'" "lg_dir lg' = lg_dir lg"
    "lg_fs lg' = logged_fs env lg (gm_needed m) (gm_query m) (gm_policy m) valid new_val"
    using monitor_query_ok [OF lg log] by blast
  have "file_content lg' k = file_content lg k" if "k \<noteq> ?k" for k
    using that l(4) log_file_path_dir [OF l(3)] by (simp add: file_content_def logged_fs_def with_entry_def)
  with l(1,2) extend_trail [OF tr l(3,4) env _ len] log show ?thesis by (auto simp: can_log_def)
qed

definition example_logger :: logger where
  "example_logger = \<lparr>lg_dir = ''logs'', lg_files = [], lg_used = [], lg_max = 2, lg_fs = Map.empty\<rparr>"

lemma example_logger_ok: "logger_ok example_logger"
  by (simp add: example_logger_def logger_ok_def stream_inv_def streams_exist_def)

definition example_log_env :: "string log_env" where
  "example_log_env = \<lparr>le_locked = (\<lambda>_. False), le_can_open = (\<lambda>_. True),
     le_cipher = request_cipher (Some (plain_openssl, default_engine)) ''abcdefghijkl'', le_now = 1000\<rparr>"

lemma example_can_log: "can_log example_log_env lg q p valid v"
  by (simp add: can_log_def example_log_env_def logged_bytes_def stored_entry_def request_cipher_def
      encrypt_def evp_seal_def plain_openssl_def get_encryption_key_def)

lemma example_log_env_selectors:
  "le_cipher example_log_env = request_cipher (Some (plain_openssl, default_engine)) ''abcdefghijkl''"
  "le_now example_log_env = 1000"
  by (simp_all add: example_log_env_def)

lemma empty_trail: "audit_trail cipher example_logger k []"
  by (simp add: audit_trail_def file_content_def example_logger_def)

definition example_put :: query where
  "example_put = empty_query\<lparr>q_cmd := ''put'', q_key := ''k'', q_monitor := Some True\<rparr>"

lemma example_put_selectors: "q_key example_put = ''k''" "q_monitor example_put = Some True"
  by (simp_all add: example_put_def)

theorem monitored_operation_extends_trail_witness:
  "\<exists>lg'. monitor_query example_log_env example_logger (monitor_first_put example_put empty_policy) True ''v'' =
      Inr lg' \<and> logger_ok lg' \<and>
    audit_trail (Some (plain_openssl, default_engine)) lg' ''k''
      [request_entry 1000 example_put empty_policy True ''v''] \<and>
    (\<forall>k. k \<noteq> ''k'' \<longrightarrow> file_content lg' k = file_content example_logger k)"
proof -
  have "length (request_entry 1000 example_put empty_policy True ''v'') < 2 ^ 31"
    by (simp add: request_entry_def encode_entry_def request_user_def example_put_def empty_query_def empty_policy_def)
  then show ?thesis
    using monitored_operation_extends_trail [OF example_logger_ok empty_trail example_log_env_selectors(1),
        of "monitor_first_put example_put empty_policy" True "''v''"]
    by (simp add: example_can_log initialization_vector_len_def example_put_selectors example_log_env_selectors(2))
qed

section \<open>Reading\<close>

definition access_line :: "(string \<Rightarrow> string) \<Rightarrow> int \<times> string \<times> string \<times> bool \<Rightarrow> string" where
  "access_line stale = (\<lambda>(t, u, cmd, ok).
     ''Timestamp: '' @ timestamp_to_datetime t @ '', User key: '' @ u @ '', Operation: '' @
     stale (convert_enum_to_operation (operation_code (convert_operation_to_enum cmd))) @
     '', Result: '' @ (if ok then ''valid'' else ''invalid''))"

text \<open>
  The line as a reader expects it. The name of the operation is printed from a \<^verbatim>\<open>string_view\<close> of a string
  that is gone (\<open>stale\<close>); the line is this one if the view still reads as it did.
\<close>

definition report_line :: "int \<times> string \<times> string \<times> bool \<Rightarrow> string" where
  "report_line = (\<lambda>(t, u, cmd, ok).
     ''Timestamp: '' @ timestamp_to_datetime t @ '', User key: '' @ u @ '', Operation: '' @ cmd @
     '', Result: '' @ (if ok then ''valid'' else ''invalid''))"

definition known_access :: "int \<times> string \<times> string \<times> bool \<Rightarrow> bool" where
  "known_access = (\<lambda>(t, u, cmd, ok). cmd \<in> {''get'', ''put'', ''delete'', ''getm'', ''putm''})"

lemma access_lines_report:
  "\<forall>a\<in>set as. known_access a \<Longrightarrow> map (access_line (\<lambda>s. s)) as = map report_line as"
  using convert_roundtrip by (fastforce simp: access_line_def report_line_def known_access_def)

definition access_entry :: "int \<times> string \<times> string \<times> bool \<Rightarrow> string" where
  "access_entry = (\<lambda>(t, u, cmd, ok). encode_entry t u (operation_result cmd ok) [])"

definition readable_access :: "int \<Rightarrow> int \<times> string \<times> string \<times> bool \<Rightarrow> bool" where
  "readable_access thres = (\<lambda>(t, u, cmd, ok). int64_range t \<and> t \<le> thres \<and> log_delimiter \<notin> set u)"

lemma decode_access:
  "readable_access thres a \<Longrightarrow> decode_log_entry stale thres (access_entry a) = Inr (access_line stale a)"
  by (auto simp: readable_access_def access_entry_def access_line_def decode_encode_entry Let_def)

lemma read_accesses:
  assumes "cipher_ok cipher" "list_all2 (written cipher) (map access_entry as) ss"
    and "\<forall>a\<in>set as. readable_access thres a"
  shows "read_and_decode_log_entries stale cipher thres (concat (map entry_frame ss) @ rest) es =
    read_and_decode_log_entries stale cipher thres rest (es @ map (access_line stale) as)"
  using assms(2,3)
proof (induction as arbitrary: ss es)
  case (Cons a as)
  then obtain s ss' where ss: "ss = s # ss'" "written cipher (access_entry a) s"
    "list_all2 (written cipher) (map access_entry as) ss'" by (auto simp: list_all2_Cons1)
  have "decode_log_entry stale thres (access_entry a) = Inr (access_line stale a)"
    using Cons.prems(2) by (intro decode_access) simp
  then show ?case
    using Cons.IH [OF ss(3)] Cons.prems(2) ss(1)
      read_entry_frame [OF open_written(2,1) [OF assms(1) ss(2)]]
    by simp
qed simp

lemma read_nothing [simp]: "read_and_decode_log_entries stale cipher thres [] es = Inr es"
  by (simp add: read_and_decode_log_entries.simps [of stale cipher thres "[]"])

text \<open>
  The regulator reads an audit trail back: from the log of a key that is not there or holds accesses without a new
  value (gets, deletions, metadata reads and refused writes), encrypted or not, it gets one line per
  access, in order, with the time, the user, the operation and the verdict of each, and the files are
  left as they were.
\<close>

lemma read_key_log_accesses:
  assumes lg: "logger_ok lg" "loggable_key k"
    and tr: "audit_trail (re_cipher env) lg k (map access_entry as)"
    and env: "cipher_ok (re_cipher env)" "re_can_open env (log_file_path lg k)"
    and as: "\<forall>a\<in>set as. readable_access (gr_timestamp_thres r) a"
  shows "\<exists>lg'. read_key_log env lg r k = Inr (map (access_line (re_stale env)) as, lg') \<and>
    logger_ok lg' \<and> lg_fs lg' = lg_fs lg"
proof (cases "lg_fs lg (log_file_path lg k)")
  case None
  then have "file_content lg k = []" by (simp add: file_content_def)
  moreover have "entry_frame s \<noteq> []" for s by (simp add: entry_frame_def flip: length_0_conv)
  ultimately have "as = []" using tr by (cases as) (auto simp: audit_trail_def list_all2_Cons1)
  with None lg show ?thesis by (simp add: read_key_log_def read_log_def log_decode_def log_file_path_def)
next
  case c: (Some c)
  obtain ss where ss: "list_all2 (written (re_cipher env)) (map access_entry as) ss" "c = concat (map entry_frame ss)"
    using tr c by (auto simp: audit_trail_def file_content_def)
  have "read_and_decode_log_entries (re_stale env) (re_cipher env) (gr_timestamp_thres r) c [] =
      Inr (map (access_line (re_stale env)) as)"
    using read_accesses [OF env(1) ss(1) as, of "re_stale env" "[]" "[]"] ss(2) by simp
  from read_key_log_ok [OF lg(1,2) c env(2) this] show ?thesis by blast
qed

definition example_access :: "int \<times> string \<times> string \<times> bool" where
  "example_access = (1000, ''alice'', ''get'', True)"

definition example_log_file :: logger where
  "example_log_file = example_logger\<lparr>lg_fs := [''logs/k.log'' \<mapsto> entry_frame (access_entry example_access)]\<rparr>"

definition example_read_env :: "string read_env" where
  "example_read_env = \<lparr>re_locked = (\<lambda>_. False), re_can_open = (\<lambda>_. True), re_stale = (\<lambda>s. s), re_cipher = None\<rparr>"

text \<open>A log of one access, read back.\<close>

lemma example_log_read:
  "\<exists>lg'. read_key_log example_read_env example_log_file (new_regulator 2000) ''k'' =
      Inr ([''Timestamp: '' @ timestamp_to_datetime 1000 @ '', User key: alice, Operation: get, Result: valid''], lg') \<and>
    logger_ok lg' \<and> lg_fs lg' = lg_fs example_log_file"
proof -
  have f: "logger_ok example_log_file" "log_file_path example_log_file ''k'' = ''logs/k.log''"
    "lg_fs example_log_file ''logs/k.log'' = Some (entry_frame (access_entry example_access))"
    using example_logger_ok
    by (simp_all add: example_log_file_def example_logger_def logger_ok_def stream_inv_def streams_exist_def
        log_file_path_def log_file_extension_def)
  have "audit_trail None example_log_file ''k'' (map access_entry [example_access])"
    using f by (auto simp: audit_trail_def file_content_def written_def access_entry_def example_access_def
        encode_entry_def intro!: exI [of _ "[access_entry example_access]"])
  moreover have "access_line (\<lambda>s. s) example_access =
      ''Timestamp: '' @ timestamp_to_datetime 1000 @ '', User key: alice, Operation: get, Result: valid''"
    using convert_roundtrip [of "''get''"] by (simp add: access_line_def example_access_def)
  ultimately show ?thesis
    using read_key_log_accesses [OF f(1), of "''k''" example_read_env "[example_access]" "new_regulator 2000"] f(2,3)
    by (simp add: loggable_key_def example_read_env_def cipher_ok_def readable_access_def example_access_def
        new_regulator_def int64_range_def log_delimiter_def)
qed




section \<open>The stream table\<close>

text \<open>
  C25. Getting the stream of a key whose file can be opened succeeds, leaves the stream open and the
  table consistent (every used key has one open stream and no other key has one), creates the file
  if it was missing and changes no other; and the table stays within the limit on open files as long
  as there is room or some used key is not locked.
\<close>

theorem stream_table_invariant:
  assumes "stream_inv lg" "streams_exist lg" "can_open (log_file_path lg k)"
  shows "\<exists>lg'. get_or_open_log_stream locked can_open lg k = Inr lg' \<and> stream_inv lg' \<and> streams_exist lg' \<and>
    is_open lg' k \<and> lg_fs lg' = touched lg k \<and>
    (1 \<le> lg_max lg \<and> length (lg_files lg) \<le> lg_max lg \<and>
       (length (lg_files lg) < lg_max lg \<or> (\<exists>x\<in>set (lg_used lg). \<not> locked x)) \<longrightarrow>
     length (lg_files lg') \<le> lg_max lg)"
  using get_or_open_ok [where can_open = can_open and locked = locked, OF assms]
    get_or_open_bounded [where can_open = can_open and locked = locked, OF assms(1) _ _ _ assms(3)]
  by blast

theorem stream_table_invariant_witness:
  "\<exists>lg'. get_or_open_log_stream (\<lambda>_. False) (\<lambda>_. True) example_logger ''k'' = Inr lg' \<and> stream_inv lg' \<and>
    streams_exist lg' \<and> is_open lg' ''k'' \<and> lg_fs lg' = touched example_logger ''k'' \<and> length (lg_files lg') \<le> 2"
  using stream_table_invariant [of example_logger "\<lambda>_. True" "''k''" "\<lambda>_. False"] example_logger_ok
  by (simp add: logger_ok_def) (simp add: example_logger_def)

lemma log_after_open:
  assumes "get_or_open_log_stream locked can_open lg (q_key q) = Inr lg1" "is_open lg1 (q_key q)"
  shows "\<exists>lg'. log_encoded_query locked can_open cipher t lg q p ok v = Inr lg' \<and> lg_used lg' = lg_used lg1 \<and>
    lg_files lg' = lg_files lg1 \<and> lg_dir lg' = lg_dir lg1 \<and> lg_max lg' = lg_max lg1"
  using assms by (auto simp: log_encoded_query_def Let_def write_file_def split: option.split)

lemma log_without_stream:
  assumes "get_or_open_log_stream locked can_open lg (q_key q) = Inr lg1" "\<not> is_open lg1 (q_key q)"
    and "get_or_open_log_stream locked can_open lg1 (q_key q) = Inr lg2" "\<not> is_open lg2 (q_key q)"
  shows "log_encoded_query locked can_open cipher t lg q p ok v = Inr lg2"
  using assms by (auto simp: log_encoded_query_def Let_def write_file_def split: option.split)

lemmas stream_step_defs =
  get_or_open_log_stream_def close_older_fd_def open_stream_def is_open_def Let_def

text \<open>
  A log file that cannot be opened leads to a crash later on: the failed key is recorded as used
  once per attempt (a log call makes two) while the map holds it once, and the second time the key is
  chosen to make room the logger dereferences a null pointer. Here the limit is two open files and
  four keys are logged in turn, each call holding the mutex of its own key, the file of the first
  being the one that cannot be opened.
\<close>

theorem failed_open_crashes_logger:
  assumes keys: "q_key q1 = x" "q_key q2 = a" "q_key q3 = b" "q_key q4 = c" "distinct [x, a, b, c]"
    and lg: "lg_files lg = []" "lg_used lg = []" "lg_max lg = 2"
    and paths: "\<not> can_open (log_file_path lg x)" "can_open (log_file_path lg a)" "can_open (log_file_path lg b)"
  shows "bind_result (log_encoded_query (\<lambda>k. k = x) can_open cipher1 t1 lg q1 p ok1 v1) (\<lambda>lg1.
         bind_result (log_encoded_query (\<lambda>k. k = a) can_open cipher2 t2 lg1 q2 p ok2 v2) (\<lambda>lg2.
         bind_result (log_encoded_query (\<lambda>k. k = b) can_open cipher3 t3 lg2 q3 p ok3 v3) (\<lambda>lg3.
           log_encoded_query (\<lambda>k. k = c) can_open cipher4 t4 lg3 q4 p ok4 v4))) = Inl Undefined_behaviour"
proof -
  let ?lg1 = "lg\<lparr>lg_used := [x, x], lg_files := [(x, False)]\<rparr>"
  have 1: "log_encoded_query (\<lambda>k. k = x) can_open cipher1 t1 lg q1 p ok1 v1 = Inr ?lg1"
    using keys lg paths
    by (intro log_without_stream [where ?lg1.0 = "lg\<lparr>lg_used := [x], lg_files := [(x, False)]\<rparr>"])
      (simp_all add: stream_step_defs log_file_path_def)
  obtain lg2 where 2: "log_encoded_query (\<lambda>k. k = a) can_open cipher2 t2 ?lg1 q2 p ok2 v2 = Inr lg2"
    "lg_used lg2 = [x, x, a]" "lg_files lg2 = [(x, False), (a, True)]" "lg_dir lg2 = lg_dir lg" "lg_max lg2 = 2"
    using keys lg paths log_after_open [of "\<lambda>k. k = a" can_open ?lg1 q2 "open_stream can_open ?lg1 a" cipher2 t2 p ok2 v2]
    by (auto simp: stream_step_defs log_file_path_def)
  let ?lg2 = "lg2\<lparr>lg_used := [x, a], lg_files := [(a, True)]\<rparr>"
  obtain lg3 where 3: "log_encoded_query (\<lambda>k. k = b) can_open cipher3 t3 lg2 q3 p ok3 v3 = Inr lg3"
    "lg_used lg3 = [x, a, b]" "lg_files lg3 = [(a, True), (b, True)]" "lg_max lg3 = 2"
    using keys 2 paths log_after_open [of "\<lambda>k. k = b" can_open lg2 q3 "open_stream can_open ?lg2 b" cipher3 t3 p ok3 v3]
    by (auto simp: stream_step_defs log_file_path_def)
  have "get_or_open_log_stream (\<lambda>k. k = c) can_open lg3 c = Inl Undefined_behaviour"
    using keys 3 by (auto simp: stream_step_defs)
  then have "log_encoded_query (\<lambda>k. k = c) can_open cipher4 t4 lg3 q4 p ok4 v4 = Inl Undefined_behaviour"
    using keys(4) by (simp add: log_encoded_query_def)
  with 1 2(1) 3(1) show ?thesis by simp
qed

definition key_query :: "string \<Rightarrow> query" where
  "key_query k = empty_query\<lparr>q_cmd := ''get'', q_key := k\<rparr>"

theorem failed_open_crashes_logger_witness:
  "bind_result (log_encoded_query (\<lambda>k. k = ''a/b'') (\<lambda>path. path \<noteq> ''logs/a/b.log'') (None :: string log_cipher) 0
       example_logger (key_query ''a/b'') empty_policy True []) (\<lambda>lg1.
   bind_result (log_encoded_query (\<lambda>k. k = ''k1'') (\<lambda>path. path \<noteq> ''logs/a/b.log'') (None :: string log_cipher) 0
       lg1 (key_query ''k1'') empty_policy True []) (\<lambda>lg2.
   bind_result (log_encoded_query (\<lambda>k. k = ''k2'') (\<lambda>path. path \<noteq> ''logs/a/b.log'') (None :: string log_cipher) 0
       lg2 (key_query ''k2'') empty_policy True []) (\<lambda>lg3.
     log_encoded_query (\<lambda>k. k = ''k3'') (\<lambda>path. path \<noteq> ''logs/a/b.log'') (None :: string log_cipher) 0
       lg3 (key_query ''k3'') empty_policy True []))) = Inl Undefined_behaviour"
  by (rule failed_open_crashes_logger)
    (simp_all add: key_query_def example_logger_def log_file_path_def log_file_extension_def)

end
