(* ===== verification/Access_Properties.thy ===== *)
theory Access_Properties
  imports Controller_Facts Data_Properties Log_Properties Store_Properties
begin

text \<open>
  The properties of the request handlers: what a client can read and change, and what is recorded of
  it. The first group holds for every backend and every stored text; the second relates the handlers
  to the abstract store over any backend that is a \<open>gdpr_store\<close>, which the RocksDB and Redis clients
  are proved to be.

  The reference environments at the start are used by the examples: \<open>redis_env\<close> is the controller
  without encryption over a Redis server, \<open>rocksdb_env\<close> the one with encryption over RocksDB.
\<close>

section \<open>Reference environments\<close>

definition redis_env :: "(string \<rightharpoonup> string, string) req_env" where
  "redis_env =
     \<lparr>rq_kv = plain_env (redis_backend map_redis) (sealed_env (redis_backend map_redis) plain_openssl default_engine),
      rq_check_now = 0, rq_rewrite_now = 0, rq_log_now = 0, rq_db_iv = Some ''abcdefghijkl'',
      rq_log_iv = Some ''abcdefghijkl'', rq_locked = (\<lambda>_. False), rq_can_open = (\<lambda>_. True), rq_listing = [],
      rq_stale = (\<lambda>s. s)\<rparr>"

definition rocksdb_env :: "(string \<rightharpoonup> string, string) req_env" where
  "rocksdb_env = redis_env\<lparr>rq_kv := sealed_env (rocksdb_backend map_rocksdb) plain_openssl default_engine\<rparr>"

definition demo_query :: "string \<Rightarrow> query" where
  "demo_query cmd = empty_query\<lparr>q_cmd := cmd, q_key := ''k'', q_value := ''v'', q_user_key := Some ''u''\<rparr>"

definition demo_filter :: gdpr_filter where
  "demo_filter = empty_filter\<lparr>f_valid := True, f_user_key := ''u''\<rparr>"

definition demo_world :: "(string \<rightharpoonup> string) \<Rightarrow> (string \<rightharpoonup> string) world" where
  "demo_world d = \<lparr>w_db = d, w_log = example_logger\<rparr>"

lemma demo_query_selectors [simp]:
  "q_cmd (demo_query cmd) = cmd" "q_key (demo_query cmd) = ''k''" "q_value (demo_query cmd) = ''v''"
  "q_user_key (demo_query cmd) = Some ''u''" "q_monitor (demo_query cmd) = None"
  "q_expiration (demo_query cmd) = None" "q_purpose (demo_query cmd) = None" "q_objection (demo_query cmd) = None"
  "q_origin (demo_query cmd) = None" "q_share (demo_query cmd) = None" "q_cond_purpose (demo_query cmd) = 0"
  by (simp_all add: demo_query_def empty_query_def)

lemma demo_policy_selectors [simp]:
  "dp_user_key empty_policy = []" "dp_monitor empty_policy = False" "dp_purpose empty_policy = 0"
  "dp_expiration empty_policy = 0" "dp_origin empty_policy = []" "dp_share empty_policy = []"
  by (simp_all add: empty_policy_def)

lemma demo_filter_wf: "wf_filter demo_filter"
  by (simp add: demo_filter_def wf_filter_def empty_filter_def int64_range_def)

lemma demo_filter_selectors [simp]: "f_valid demo_filter" "\<not> f_monitor demo_filter"
  by (simp_all add: demo_filter_def empty_filter_def)

lemma demo_permitted: "permitted now demo_filter (demo_query cmd) empty_policy"
  by (simp add: permitted_def demo_filter_def empty_filter_def request_user_def request_purposes_def)

lemma demo_stranger: "\<not> permitted now demo_filter (demo_query cmd\<lparr>q_user_key := Some ''eve''\<rparr>) empty_policy"
  by (simp add: permitted_def demo_filter_def empty_filter_def request_user_def share_users_def)

lemma demo_filter_of: "gdpr_filter_of (Some (record_of demo_filter v)) = Inr demo_filter"
  by (rule gdpr_filter_of_record [OF demo_filter_wf])

lemma demo_insert:
  "insert_metadata (demo_query cmd) empty_policy 0 = demo_filter"
  by (simp add: insert_metadata_def demo_filter_def empty_filter_def request_user_def empty_policy_def)

lemma redis_env_store: "gdpr_store (rq_kv redis_env) (\<lambda>d. d) (\<lambda>_. True) (\<lambda>_. True) (\<lambda>_. True)"
  unfolding redis_env_def using map_redis.is_plain_store by simp

lemma redis_env_ops [simp]:
  "gdpr_get (rq_kv redis_env) d k = Inr (d k)" "gdpr_getm (rq_kv redis_env) d k = Inr (d k)"
  "gdpr_put (rq_kv redis_env) iv d k v = Inr (True, d(k \<mapsto> v))"
  "gdpr_putm (rq_kv redis_env) iv d k v = Inr (True, d(k \<mapsto> v))"
  by (simp_all add: redis_env_def plain_env_def sealed_env_def redis_backend_def map_redis_def redis_get_def
      redis_getm_def redis_put_def redis_putm_def gdpr_get_def gdpr_getm_def gdpr_put_def gdpr_putm_def)

lemma demo_world_selectors [simp]: "w_db (demo_world d) = d" "w_log (demo_world d) = example_logger"
  by (simp_all add: demo_world_def)

section \<open>Nothing without a grant\<close>

text \<open>
  C1. Complete mediation of writes: whatever the backend does and whatever bytes are stored, a request
  changes the database only if it is a put, delete or metadata update whose stored record grants
  access to the requester, or a put on a key under which the backend has nothing or, with encryption,
  has bytes that do not decrypt. In the last case there is no check: such a record is overwritten as
  if the key were new.
\<close>

theorem writes_need_grant:
  assumes "w_db (fst (dispatch env q p w)) \<noteq> w_db w"
  shows "q_cmd q = ''put'' \<and> (absent (rq_kv env) (w_db w) (q_key q) \<or> undecryptable (rq_kv env) (w_db w) (q_key q)) \<or>
    q_cmd q \<in> {''put'', ''delete'', ''putm''} \<and> access_granted env q p (w_db w)"
proof -
  have "q_cmd q \<in> {''put'', ''delete'', ''putm''}"
    using assms
    by (auto simp: dispatch_def handle_get_db handle_get_metadata_db handle_get_logs_db split: if_splits)
  then show ?thesis using assms dispatch_db [of env q p w] gdpr_get_None [of "rq_kv env"] by blast
qed

lemma demo_put:
  "handle_put redis_env (demo_query ''put'') empty_policy (demo_world Map.empty) =
     (demo_world [''k'' \<mapsto> record_of demo_filter ''v''], Inr PUT_SUCCESS)"
  by (simp add: handle_put_def rewriter_insert_eq get_expiration_time_def demo_insert monitored_def monitor_query_def
      demo_world_def)

theorem writes_need_grant_witness:
  "w_db (fst (dispatch redis_env (demo_query ''put'') empty_policy (demo_world Map.empty))) \<noteq> Map.empty \<and>
   (absent (rq_kv redis_env) Map.empty ''k'' \<or> undecryptable (rq_kv redis_env) Map.empty ''k'' \<or>
    access_granted redis_env (demo_query ''put'') empty_policy Map.empty)"
proof
  show "w_db (fst (dispatch redis_env (demo_query ''put'') empty_policy (demo_world Map.empty))) \<noteq> Map.empty"
    by (simp add: dispatch_def demo_put)
  then have "w_db (fst (dispatch redis_env (demo_query ''put'') empty_policy (demo_world Map.empty))) \<noteq>
      w_db (demo_world Map.empty)" by simp
  from writes_need_grant [OF this]
  show "absent (rq_kv redis_env) Map.empty ''k'' \<or> undecryptable (rq_kv redis_env) Map.empty ''k'' \<or>
      access_granted redis_env (demo_query ''put'') empty_policy Map.empty" by auto
qed

text \<open>
  C2. Complete mediation of reads: a get answers with something other than its failure code only if
  the stored record grants access, and then with the value part of that record.
\<close>

theorem get_needs_grant:
  assumes "handle_get env q p w = (w', Inr r)" "r \<noteq> GET_FAILED"
  shows "access_granted env q p (w_db w) \<and>
    (\<exists>v. gdpr_get (rq_kv env) (w_db w) (q_key q) = Inr (Some v) \<and> r = remove_gdpr_metadata v) \<and> w_db w' = w_db w"
  using handle_get_response [OF assms] handle_get_db [of env q p w] assms(1) by (auto simp: access_granted_def)

lemma demo_get:
  "handle_get redis_env (demo_query ''get'') empty_policy (demo_world [''k'' \<mapsto> record_of demo_filter ''v'']) =
     (demo_world [''k'' \<mapsto> record_of demo_filter ''v''], Inr ''v'')"
  by (simp add: handle_get_def demo_filter_of validate_iff_permitted demo_permitted monitored_def monitor_query_def
      remove_record demo_world_def)

theorem get_needs_grant_witness:
  "access_granted redis_env (demo_query ''get'') empty_policy [''k'' \<mapsto> record_of demo_filter ''v'']"
  using get_needs_grant [OF demo_get] by (simp add: response_codes)

section \<open>The handlers implement the abstract store\<close>

text \<open>States of the reference environments that hold one record.\<close>

definition demo_state :: gdpr_state where
  "demo_state = [''k'' \<mapsto> (demo_filter, ''v'')]"

definition sealed_demo :: "string \<rightharpoonup> string" where
  "sealed_demo = [''k'' \<mapsto> er_ciphertext (encrypt plain_openssl default_engine (Some ''abcdefghijkl'')
     (record_of demo_filter ''v'') db_key)]"

lemma demo_state_lookup [simp]: "demo_state ''k'' = Some (demo_filter, ''v'')"
  by (simp add: demo_state_def)

lemma demo_represents: "represents [''k'' \<mapsto> record_of demo_filter ''v''] demo_state" "represents Map.empty Map.empty"
  using demo_filter_wf by (auto simp: represents_def demo_state_def)

lemma demo_access [simp]:
  "spec_access now demo_state (demo_query cmd) empty_policy = Some (demo_filter, ''v'')"
  by (simp add: spec_access_def demo_permitted)

lemma demo_record_length: "length (record_of demo_filter v) = 14 + length v"
proof -
  have "to_string 0 = ''0''" by code_simp
  then show ?thesis by (simp add: record_of_def metadata_fields_of_def demo_filter_def empty_filter_def)
qed

lemma redis_log_ready: "log_ready redis_env example_logger q p"
  using example_logger_ok
  by (simp add: log_ready_def redis_env_def log_env_of_def plain_env_def logged_bytes_def stored_entry_def)

lemma rocksdb_log_ready: "logger_ok lg \<Longrightarrow> log_ready rocksdb_env lg q p"
  by (simp add: log_ready_def rocksdb_env_def redis_env_def log_env_of_def sealed_env_def logged_bytes_def
      stored_entry_def plain_encrypt get_encryption_key_def)

lemma rocksdb_env_store:
  "gdpr_store_live (rq_kv rocksdb_env) (sealed_view plain_openssl default_engine (\<lambda>d. d))
     (\<lambda>d. rocksdb_inv (\<lambda>d. d) d \<and> readable plain_openssl default_engine (\<lambda>d. d) d) rocksdb_key (\<lambda>v. length v < 2 ^ 29)"
  unfolding rocksdb_env_def using rocksdb_ref.is_store by simp

lemma rocksdb_env_iv [simp]: "rq_db_iv rocksdb_env = Some ''abcdefghijkl''"
  by (simp add: rocksdb_env_def redis_env_def)

lemma sealed_demo_facts:
  "rocksdb_inv (\<lambda>d. d) sealed_demo" "readable plain_openssl default_engine (\<lambda>d. d) sealed_demo"
  "sealed_view plain_openssl default_engine (\<lambda>d. d) sealed_demo = [''k'' \<mapsto> record_of demo_filter ''v'']"
proof -
  have l: "length (record_of demo_filter ''v'') < 2 ^ 29" "length ''abcdefghijkl'' = initialization_vector_len"
    "er_success (encrypt plain_openssl default_engine (Some ''abcdefghijkl'') (record_of demo_filter ''v'') db_key)"
    by (simp_all add: demo_record_length initialization_vector_len_def plain_encrypt get_encryption_key_def)
  note e = rocksdb_ref.store.encrypt_stored [OF l]
  from e(1) show "rocksdb_inv (\<lambda>d. d) sealed_demo" by (simp add: rocksdb_inv_def sealed_demo_def rocksdb_val_def)
  from e(3) show "readable plain_openssl default_engine (\<lambda>d. d) sealed_demo" by (simp add: readable_def sealed_demo_def)
  from e(2) show "sealed_view plain_openssl default_engine (\<lambda>d. d) sealed_demo = [''k'' \<mapsto> record_of demo_filter ''v'']"
    by (simp add: sealed_view_def sealed_demo_def fun_eq_iff)
qed

lemma sealed_empty_facts:
  "rocksdb_inv (\<lambda>d. d) Map.empty" "readable plain_openssl default_engine (\<lambda>d. d) Map.empty"
  "sealed_view plain_openssl default_engine (\<lambda>d. d) Map.empty = Map.empty"
  by (simp_all add: rocksdb_inv_def readable_def sealed_view_def fun_eq_iff)

lemma rocksdb_key_demo: "rocksdb_key ''k''"
  by (simp add: rocksdb_key_def)

text \<open>
  C3. A get implements the abstract read: over any store of records with well-formed metadata, and when
  the log of the key can be written, it returns, with the failure code unless the record permits the
  request. If it does, the response is what follows the last delimiter of the stored value, so the
  value itself if it has none, and the whole record if nothing follows, as for the empty value
  (\<open>shown_value\<close>). The database is left as it was, and one log entry with the verdict is left exactly if
  the record asks for monitoring.
\<close>

theorem get_implements_read:
  assumes store: "gdpr_store (rq_kv env) pairs ok key_ok val_ok"
    and w: "ok (w_db w)" "key_ok (q_key q)" "represents (pairs (w_db w)) st" "log_ready env (w_log w) q p"
  shows "\<exists>lg' r. handle_get env q p w = (w\<lparr>w_log := lg'\<rparr>, Inr r) \<and>
    r = (case spec_access (rq_check_now env) st q p of Some (f, v) \<Rightarrow> shown_value f v | None \<Rightarrow> GET_FAILED) \<and>
    (\<forall>f v. spec_access (rq_check_now env) st q p = Some (f, v) \<and> clean v \<and> v \<noteq> [] \<longrightarrow> r = v) \<and>
    audited env (w_log w) (\<exists>f v. st (q_key q) = Some (f, v) \<and> f_monitor f) q p
      (spec_access (rq_check_now env) st q p \<noteq> None) [] lg'"
  using gdpr_store.get_refines [OF store refl w, unfolded remove_record_value] by (auto simp: shown_value_clean)

theorem get_implements_read_witness:
  "\<exists>lg'. handle_get redis_env (demo_query ''get'') empty_policy (demo_world [''k'' \<mapsto> record_of demo_filter ''v'']) =
     ((demo_world [''k'' \<mapsto> record_of demo_filter ''v''])\<lparr>w_log := lg'\<rparr>, Inr ''v'')"
  using get_implements_read [OF redis_env_store, where w = "demo_world [''k'' \<mapsto> record_of demo_filter ''v'']"
      and q = "demo_query ''get''" and st = demo_state and p = empty_policy] demo_represents(1) redis_log_ready
  by auto

text \<open>
  A getm implements the abstract read of the metadata: the eight fields of the record, and what the
  value has up to its last delimiter, or the failure code.
\<close>

theorem getm_implements_read:
  assumes store: "gdpr_store (rq_kv env) pairs ok key_ok val_ok"
    and w: "ok (w_db w)" "key_ok (q_key q)" "represents (pairs (w_db w)) st" "log_ready env (w_log w) q p"
  shows "\<exists>lg'. handle_get_metadata env q p w =
      (w\<lparr>w_log := lg'\<rparr>,
       Inr (case spec_access (rq_check_now env) st q p of
              Some (f, v) \<Rightarrow> fields_text (metadata_fields_of f) @ value_head v | None \<Rightarrow> GETM_FAILED)) \<and>
    audited env (w_log w) (\<exists>f v. st (q_key q) = Some (f, v) \<and> f_monitor f) q p
      (spec_access (rq_check_now env) st q p \<noteq> None) [] lg'"
  using gdpr_store.getm_refines [OF store refl w, unfolded preserve_record_value] .

theorem getm_implements_read_witness:
  "\<exists>lg'. handle_get_metadata redis_env (demo_query ''getm'') empty_policy
       (demo_world [''k'' \<mapsto> record_of demo_filter ''v'']) =
     ((demo_world [''k'' \<mapsto> record_of demo_filter ''v''])\<lparr>w_log := lg'\<rparr>,
      Inr (fields_text (metadata_fields_of demo_filter)))"
  using getm_implements_read [OF redis_env_store, where w = "demo_world [''k'' \<mapsto> record_of demo_filter ''v'']"
      and q = "demo_query ''getm''" and st = demo_state and p = empty_policy] demo_represents(1) redis_log_ready
  by (auto simp: value_clean)

text \<open>
  C4. The first put of a key implements insertion, for any value that the store carries, when the user,
  the origin and the share list hold no delimiter and the log of the key can be written: over a store
  that answers, it returns, stores the value under the metadata of the request completed by the policy,
  or reports a failure and stores nothing, and logs the new record exactly if monitoring is asked for.
  If the expiration overflows, it raises and does nothing.
\<close>

theorem put_implements_insert:
  assumes store: "gdpr_store_live (rq_kv env) pairs ok key_ok val_ok"
    and w: "ok (w_db w)" "key_ok (q_key q)" "represents (pairs (w_db w)) st" "log_ready env (w_log w) q p"
    and iv: "rq_db_iv env = Some iv" "length iv = initialization_vector_len"
    and new: "st (q_key q) = None" "clean_request q p"
  shows "case get_expiration_time (rq_rewrite_now env) (value_or (q_expiration q) (dp_expiration p)) of
      Inl e \<Rightarrow> handle_put env q p w = (w, Inl e)
    | Inr t \<Rightarrow> val_ok (record_of (insert_metadata q p t) (q_value q)) \<longrightarrow>
        (\<exists>w' resp. handle_put env q p w = (w', Inr resp) \<and>
          write_result pairs ok st (st(q_key q \<mapsto> (insert_metadata q p t, q_value q))) PUT_SUCCESS PUT_FAILED (w_db w') resp \<and>
          audited env (w_log w) (value_or (q_monitor q) (dp_monitor p)) q p True
            (record_of (insert_metadata q p t) (q_value q)) (w_log w'))"
  using gdpr_store_live.insert_refines [OF store refl w iv new]
    gdpr_store.insert_raises [OF gdpr_store_live.axioms(1) [OF store] refl w(1-3) new(1)]
  by (simp split: sum.split)

lemma demo_clean: "clean_request (demo_query cmd) empty_policy"
  by (simp add: clean_request_def request_user_def)

theorem put_implements_insert_witness:
  "\<exists>w' resp. handle_put rocksdb_env (demo_query ''put'') empty_policy (demo_world Map.empty) = (w', Inr resp) \<and>
    write_result (sealed_view plain_openssl default_engine (\<lambda>d. d))
      (\<lambda>d. rocksdb_inv (\<lambda>d. d) d \<and> readable plain_openssl default_engine (\<lambda>d. d) d)
      Map.empty demo_state PUT_SUCCESS PUT_FAILED (w_db w') resp"
  using put_implements_insert [OF rocksdb_env_store, where w = "demo_world Map.empty" and q = "demo_query ''put''"
      and st = Map.empty and p = empty_policy and iv = "''abcdefghijkl''"]
    sealed_empty_facts demo_represents(2) rocksdb_log_ready [OF example_logger_ok] rocksdb_key_demo demo_clean
  by (auto simp: demo_insert demo_record_length get_expiration_time_def initialization_vector_len_def demo_state_def)

text \<open>
  C5. A put on an existing key whose record grants the request keeps every field of the metadata and
  replaces what follows the last delimiter of the stored value, so the whole value if it has no
  delimiter, or reports a failure and changes nothing; it is logged with the new record if the record
  is monitored. This is for any stored value and any new value that the store carries, over a store
  that answers, when the log of the key can be written.
\<close>

theorem put_implements_update:
  assumes store: "gdpr_store_live (rq_kv env) pairs ok key_ok val_ok"
    and w: "ok (w_db w)" "key_ok (q_key q)" "represents (pairs (w_db w)) st" "log_ready env (w_log w) q p"
    and iv: "rq_db_iv env = Some iv" "length iv = initialization_vector_len"
    and granted: "spec_access (rq_check_now env) st q p = Some (f, v)"
    and sv: "val_ok (record_of f (value_head v @ q_value q))"
  shows "\<exists>w' resp. handle_put env q p w = (w', Inr resp) \<and>
    write_result pairs ok st (st(q_key q \<mapsto> (f, value_head v @ q_value q))) PUT_SUCCESS PUT_FAILED (w_db w') resp \<and>
    (clean v \<longrightarrow> value_head v @ q_value q = q_value q) \<and>
    audited env (w_log w) (f_monitor f) q p True (record_of f (value_head v @ q_value q)) (w_log w')"
  using gdpr_store_live.update_refines [OF store refl w iv granted sv] by (auto simp: value_clean)

theorem put_implements_update_witness:
  "\<exists>w' resp. handle_put rocksdb_env (demo_query ''put'') empty_policy (demo_world sealed_demo) = (w', Inr resp) \<and>
    write_result (sealed_view plain_openssl default_engine (\<lambda>d. d))
      (\<lambda>d. rocksdb_inv (\<lambda>d. d) d \<and> readable plain_openssl default_engine (\<lambda>d. d) d)
      demo_state (demo_state(''k'' \<mapsto> (demo_filter, ''v''))) PUT_SUCCESS PUT_FAILED (w_db w') resp"
  using put_implements_update [OF rocksdb_env_store, where w = "demo_world sealed_demo" and q = "demo_query ''put''"
      and st = demo_state and p = empty_policy and iv = "''abcdefghijkl''" and f = demo_filter and v = "''v''"]
    sealed_demo_facts demo_represents(1) rocksdb_log_ready [OF example_logger_ok] rocksdb_key_demo
  by (auto simp: demo_record_length initialization_vector_len_def value_clean)




text \<open>
  C7. A deletion whose record grants the request removes the key and its record, or reports a failure
  and removes nothing; it is logged without a value.
\<close>

theorem delete_implements_removal:
  assumes store: "gdpr_store_live (rq_kv env) pairs ok key_ok val_ok"
    and w: "ok (w_db w)" "key_ok (q_key q)" "represents (pairs (w_db w)) st" "log_ready env (w_log w) q p"
    and granted: "spec_access (rq_check_now env) st q p = Some (f, v)"
  shows "\<exists>w' resp. handle_delete env q p w = (w', Inr resp) \<and>
    write_result pairs ok st (st(q_key q := None)) DELETE_SUCCESS DELETE_FAILED (w_db w') resp \<and>
    audited env (w_log w) (f_monitor f) q p True [] (w_log w')"
  using gdpr_store_live.delete_refines [OF store refl w granted] .

theorem delete_implements_removal_witness:
  "\<exists>w' resp. handle_delete rocksdb_env (demo_query ''delete'') empty_policy (demo_world sealed_demo) = (w', Inr resp) \<and>
    write_result (sealed_view plain_openssl default_engine (\<lambda>d. d))
      (\<lambda>d. rocksdb_inv (\<lambda>d. d) d \<and> readable plain_openssl default_engine (\<lambda>d. d) d)
      demo_state (demo_state(''k'' := None)) DELETE_SUCCESS DELETE_FAILED (w_db w') resp"
  using delete_implements_removal [OF rocksdb_env_store, where w = "demo_world sealed_demo"
      and q = "demo_query ''delete''" and st = demo_state and p = empty_policy and f = demo_filter and v = "''v''"]
    sealed_demo_facts demo_represents(1) rocksdb_log_ready [OF example_logger_ok] rocksdb_key_demo
  by auto

text \<open>
  C8. A put, metadata update or deletion of an existing record that does not grant the request is
  refused with its failure response, changes nothing, and is logged as invalid if the record is
  monitored.
\<close>

theorem refused_writes_change_nothing:
  assumes store: "gdpr_store (rq_kv env) pairs ok key_ok val_ok"
    and w: "ok (w_db w)" "key_ok (q_key q)" "represents (pairs (w_db w)) st" "log_ready env (w_log w) q p"
    and refused: "st (q_key q) = Some (f, v)" "\<not> permitted (rq_check_now env) f q p"
  shows "\<exists>lg'. audited env (w_log w) (f_monitor f) q p False [] lg' \<and>
    handle_put env q p w = (w\<lparr>w_log := lg'\<rparr>, Inr PUT_FAILED) \<and>
    handle_put_metadata env q p w = (w\<lparr>w_log := lg'\<rparr>, Inr PUTM_FAILED) \<and>
    handle_delete env q p w = (w\<lparr>w_log := lg'\<rparr>, Inr delete_refused)"
  using gdpr_store.refused_writes [OF store refl w refused] .

theorem refused_writes_change_nothing_witness:
  "\<exists>lg'. handle_delete redis_env (demo_query ''delete''\<lparr>q_user_key := Some ''eve''\<rparr>) empty_policy
       (demo_world [''k'' \<mapsto> record_of demo_filter ''v'']) =
     ((demo_world [''k'' \<mapsto> record_of demo_filter ''v''])\<lparr>w_log := lg'\<rparr>, Inr delete_refused)"
  using refused_writes_change_nothing [OF redis_env_store, where w = "demo_world [''k'' \<mapsto> record_of demo_filter ''v'']"
      and q = "demo_query ''delete''\<lparr>q_user_key := Some ''eve''\<rparr>" and st = demo_state and p = empty_policy
      and f = demo_filter and v = "''v''"] demo_represents(1) redis_log_ready demo_stranger
  by auto

section \<open>Two requests\<close>

text \<open>The lifetime a put asks for is over a second after it has passed: times are kept in whole seconds.\<close>

lemma lifetime_over:
  assumes "get_expiration_time now n = Inr t" "0 \<le> now" "0 < n" "now + (n + 1) * s2ns \<le> later"
  shows "t \<noteq> 0" "t < trunc_div later s2ns"
proof -
  have t: "t = now div s2ns + n"
    using assms(1-3) by (auto simp: get_expiration_time_def trunc_div_def s2ns_def split: if_splits)
  have "(now + (n + 1) * s2ns) div s2ns \<le> later div s2ns" using assms(4) by (simp add: zdiv_mono1 s2ns_def)
  moreover have "0 \<le> now div s2ns" "0 \<le> later" using assms(2-4) by (simp_all add: s2ns_def)
  ultimately show "t \<noteq> 0" "t < trunc_div later s2ns" using t assms(3) by (simp_all add: trunc_div_def s2ns_def)
qed

text \<open>
  C9. What was put can be got, by whom its metadata permits and for as long as it asks for: after a first
  put that reported success, with no delimiter in its user, origin and share list, a get of the key, by
  any request and in any later environment over the same store, returns the failure code if the metadata
  of the put does not permit the request, and otherwise the value that was put, if that is not empty
  and has no delimiter; of another value it returns what \<open>shown_value\<close> says. In particular it fails for
  everybody from one second after the lifetime the put asked for. The log of the key can be written.
\<close>

theorem put_then_get:
  assumes store: "gdpr_store_live (rq_kv env) pairs ok key_ok val_ok" "rq_kv env2 = rq_kv env"
    and w: "ok (w_db w)" "key_ok (q_key q)" "represents (pairs (w_db w)) st" "log_ready env (w_log w) q p"
    and iv: "rq_db_iv env = Some iv" "length iv = initialization_vector_len"
    and new: "st (q_key q) = None" "clean_request q p"
    and t: "get_expiration_time (rq_rewrite_now env) (value_or (q_expiration q) (dp_expiration p)) = Inr t"
    and sv: "val_ok (record_of (insert_metadata q p t) (q_value q))"
    and put: "handle_put env q p w = (w1, Inr PUT_SUCCESS)"
    and get: "q_key q2 = q_key q" "log_ready env2 (w_log w1) q2 p2"
  shows "\<exists>lg' r. handle_get env2 q2 p2 w1 = (w1\<lparr>w_log := lg'\<rparr>, Inr r) \<and>
    r = (if permitted (rq_check_now env2) (insert_metadata q p t) q2 p2
         then shown_value (insert_metadata q p t) (q_value q) else GET_FAILED) \<and>
    (clean (q_value q) \<and> q_value q \<noteq> [] \<longrightarrow> shown_value (insert_metadata q p t) (q_value q) = q_value q) \<and>
    (0 \<le> rq_rewrite_now env \<and> 0 < value_or (q_expiration q) (dp_expiration p) \<and>
     rq_rewrite_now env + (value_or (q_expiration q) (dp_expiration p) + 1) * s2ns \<le> rq_check_now env2 \<longrightarrow> r = GET_FAILED)"
proof -
  let ?f = "insert_metadata q p t" let ?st = "st(q_key q \<mapsto> (?f, q_value q))"
  have "write_result pairs ok st ?st PUT_SUCCESS PUT_FAILED (w_db w1) PUT_SUCCESS"
    using gdpr_store_live.insert_refines [OF store(1) refl w iv new t sv] put by auto
  then have w1: "ok (w_db w1)" "represents (pairs (w_db w1)) ?st"
    by (auto simp: write_result_def response_codes)
  have st2: "gdpr_store (rq_kv env2) pairs ok key_ok val_ok" using store by (simp add: gdpr_store_live_def)
  have sa: "spec_access (rq_check_now env2) ?st q2 p2 =
      (if permitted (rq_check_now env2) ?f q2 p2 then Some (?f, q_value q) else None)"
    using get(1) by (simp add: spec_access_def)
  have k: "key_ok (q_key q2)" using w(2) get(1) by simp
  have late: "\<not> permitted (rq_check_now env2) ?f q2 p2" if "0 \<le> rq_rewrite_now env"
    "0 < value_or (q_expiration q) (dp_expiration p)"
    "rq_rewrite_now env + (value_or (q_expiration q) (dp_expiration p) + 1) * s2ns \<le> rq_check_now env2"
    using lifetime_over [OF t that] by (simp add: permitted_def insert_metadata_def)
  obtain lg' where "handle_get env2 q2 p2 w1 = (w1\<lparr>w_log := lg'\<rparr>,
      Inr (if permitted (rq_check_now env2) ?f q2 p2 then shown_value ?f (q_value q) else GET_FAILED))"
    using gdpr_store.get_refines [OF st2 refl w1(1) k w1(2) get(2), unfolded sa] by (auto simp: remove_record_value)
  with late shown_value_clean [of "q_value q" ?f] show ?thesis by auto
qed

lemma rocksdb_put_demo:
  "\<exists>w1. handle_put rocksdb_env (demo_query ''put'') empty_policy (demo_world Map.empty) = (w1, Inr PUT_SUCCESS) \<and>
     w_log w1 = example_logger"
proof -
  have g: "gdpr_get (rq_kv rocksdb_env) Map.empty ''k'' = Inr None"
    using gdpr_store.gget [OF rocksdb_env_store [unfolded gdpr_store_live_def, THEN conjunct1], of Map.empty "''k''"]
      sealed_empty_facts rocksdb_key_demo by simp
  let ?c = "er_ciphertext (encrypt plain_openssl default_engine (Some ''abcdefghijkl'') (record_of demo_filter ''v'') db_key)"
  have v: "rocksdb_val ?c"
    by (simp add: plain_encrypt get_encryption_key_def container_def rocksdb_val_def demo_record_length
        default_engine_def tag_len_def)
  have "gdpr_put (rq_kv rocksdb_env) (Some ''abcdefghijkl'') Map.empty ''k'' (record_of demo_filter ''v'') =
      Inr (True, [''k'' \<mapsto> ?c])"
    using map_rocksdb.execute_put [OF rocksdb_key_demo v, of Map.empty]
    by (simp add: rocksdb_env_def sealed_env_def gdpr_put_def rocksdb_backend_def rocksdb_put_def proxy_put_def
        map_rocksdb_def plain_encrypt get_encryption_key_def)
  with g show ?thesis
    by (simp add: handle_put_def rewriter_insert_eq get_expiration_time_def demo_insert monitored_def
        monitor_query_def stored_def)
qed

theorem put_then_get_witness:
  "\<exists>w1 lg'. handle_put rocksdb_env (demo_query ''put'') empty_policy (demo_world Map.empty) = (w1, Inr PUT_SUCCESS) \<and>
     handle_get rocksdb_env (demo_query ''get'') empty_policy w1 = (w1\<lparr>w_log := lg'\<rparr>, Inr ''v'')"
proof -
  obtain w1 where w1: "handle_put rocksdb_env (demo_query ''put'') empty_policy (demo_world Map.empty) =
      (w1, Inr PUT_SUCCESS)" "w_log w1 = example_logger" using rocksdb_put_demo by blast
  have "\<exists>lg'. handle_get rocksdb_env (demo_query ''get'') empty_policy w1 = (w1\<lparr>w_log := lg'\<rparr>, Inr ''v'')"
    using put_then_get [OF rocksdb_env_store refl, where w = "demo_world Map.empty" and q = "demo_query ''put''"
        and st = Map.empty and p = empty_policy and iv = "''abcdefghijkl''" and t = 0 and ?w1.0 = w1
        and ?q2.0 = "demo_query ''get''" and ?p2.0 = empty_policy]
      w1 sealed_empty_facts demo_represents(2) rocksdb_log_ready [OF example_logger_ok] rocksdb_key_demo demo_clean
      demo_permitted
    by (auto simp: demo_insert demo_record_length get_expiration_time_def initialization_vector_len_def)
  with w1(1) show ?thesis by blast
qed

section \<open>The regulator's request\<close>

lemma handle_get_logs_accesses:
  assumes lg: "logger_ok (w_log w)" "loggable_key (q_log_key q)"
    and tr: "audit_trail (re_cipher (read_env_of env)) (w_log w) (q_log_key q) (map access_entry as)"
    and env: "cipher_ok (re_cipher (read_env_of env))" "rq_can_open env (log_file_path (w_log w) (q_log_key q))"
      "rq_stale env = (\<lambda>s. s)"
    and as: "\<forall>a\<in>set as. readable_access (rq_check_now env) a \<and> known_access a"
    and q: "request_user q p = regulator_key" "q_log_key q \<noteq> ''read_all''" "q_log_key q \<noteq> ''dir''"
  shows "\<exists>lg'. lg_fs lg' = lg_fs (w_log w) \<and> handle_get_logs env q p w =
    (w\<lparr>w_log := lg'\<rparr>, Inr (lines_text ((''Reading the log file of key '' @ q_log_key q @ '':'') # map report_line as)))"
proof -
  have o: "re_can_open (read_env_of env) (log_file_path (w_log w) (q_log_key q))" "re_stale (read_env_of env) = (\<lambda>s. s)"
    using env(2,3) by (simp_all add: read_env_of_def)
  obtain lg' where "read_key_log (read_env_of env) (w_log w) (new_regulator (rq_check_now env)) (q_log_key q) =
      Inr (map report_line as, lg')" "lg_fs lg' = lg_fs (w_log w)"
    using read_key_log_accesses [OF lg tr env(1) o(1), of "new_regulator (rq_check_now env)"] as
      access_lines_report [of as] unfolding o(2) by (auto simp: new_regulator_def)
  with q show ?thesis
    by (auto simp: handle_get_logs_def validate_reg_key_def request_user_def)
qed

lemma handle_get_logs_refused:
  "request_user q p \<noteq> regulator_key \<Longrightarrow> handle_get_logs env q p w = (w, Inr GET_LOGS_FAILED)"
  by (simp add: handle_get_logs_def validate_reg_key_def request_user_def)

text \<open>
  C24. Logs go to the regulator and to nobody else. A getLogs request of any other user is answered with
  the failure code and changes nothing, and no getLogs request changes the database. The regulator who
  names a key (one without slash and dot, and not one of the words for all logs and for the directory)
  whose log is missing or holds only accesses without a new value, not later than now and by users
  without the log's delimiter, gets one line per access, in order, with the time, the user, the
  operation and the verdict, and no log file changes. The log can be opened and decrypted, and the
  dangling view of the operation's name still reads as it did. (A log that holds a record cannot be
  read.)
\<close>

theorem getlogs_serves_regulator_only:
  "(request_user q p \<noteq> regulator_key \<longrightarrow> handle_get_logs env q p w = (w, Inr GET_LOGS_FAILED)) \<and>
   w_db (fst (handle_get_logs env q p w)) = w_db w \<and>
   (request_user q p = regulator_key \<and> q_log_key q \<noteq> ''read_all'' \<and> q_log_key q \<noteq> ''dir'' \<and>
    logger_ok (w_log w) \<and> loggable_key (q_log_key q) \<and> rq_can_open env (log_file_path (w_log w) (q_log_key q)) \<and>
    cipher_ok (re_cipher (read_env_of env)) \<and> rq_stale env = (\<lambda>s. s) \<and>
    audit_trail (re_cipher (read_env_of env)) (w_log w) (q_log_key q) (map access_entry as) \<and>
    (\<forall>a\<in>set as. readable_access (rq_check_now env) a \<and> known_access a) \<longrightarrow>
    (\<exists>lg'. lg_fs lg' = lg_fs (w_log w) \<and> handle_get_logs env q p w =
      (w\<lparr>w_log := lg'\<rparr>, Inr (lines_text ((''Reading the log file of key '' @ q_log_key q @ '':'') # map report_line as)))))"
  using handle_get_logs_refused [of q p env w] handle_get_logs_db [of env q p w]
    handle_get_logs_accesses [of w q env as p] by blast

definition audit_query :: query where
  "audit_query = empty_query\<lparr>q_cmd := ''getlogs'', q_log_key := ''k'', q_user_key := Some ''reg''\<rparr>"

lemma audit_query_facts:
  "request_user audit_query empty_policy = regulator_key" "q_log_key audit_query = ''k''"
  by (simp_all add: audit_query_def request_user_def regulator_key_def empty_query_def)

definition demo_access :: "int \<times> string \<times> string \<times> bool" where
  "demo_access = (0, ''alice'', ''get'', True)"

lemma demo_access_facts: "readable_access 0 demo_access" "known_access demo_access"
  by (simp_all add: demo_access_def readable_access_def known_access_def int64_range_def log_delimiter_def)

lemma demo_access_trail:
  assumes "lg = example_logger\<lparr>lg_fs := [''logs/k.log'' \<mapsto> entry_frame (access_entry demo_access)]\<rparr>"
  shows "logger_ok lg" "audit_trail None lg ''k'' (map access_entry [demo_access])"
  using assms
  by (auto simp: example_logger_def logger_ok_def stream_inv_def streams_exist_def file_content_def audit_trail_def written_def
      log_file_path_def log_file_extension_def access_entry_def demo_access_def encode_entry_def
      intro!: exI [of _ "[access_entry demo_access]"])

theorem getlogs_serves_regulator_only_witness:
  "\<exists>lg'. handle_get_logs redis_env audit_query empty_policy
      ((demo_world Map.empty)\<lparr>w_log := example_logger\<lparr>lg_fs := [''logs/k.log'' \<mapsto> entry_frame (access_entry demo_access)]\<rparr>\<rparr>) =
    ((demo_world Map.empty)\<lparr>w_log := lg'\<rparr>, Inr (lines_text [''Reading the log file of key k:'',
      ''Timestamp: '' @ timestamp_to_datetime 0 @ '', User key: alice, Operation: get, Result: valid'']))"
proof -
  let ?lg = "example_logger\<lparr>lg_fs := [''logs/k.log'' \<mapsto> entry_frame (access_entry demo_access)]\<rparr>"
  have "cipher_ok (re_cipher (read_env_of redis_env))" "rq_can_open redis_env path" "re_cipher (read_env_of redis_env) = None"
    "rq_check_now redis_env = 0" "rq_stale redis_env = (\<lambda>s. s)" for path
    by (simp_all add: redis_env_def read_env_of_def plain_env_def cipher_ok_def)
  moreover have "loggable_key ''k''" by (simp add: loggable_key_def)
  ultimately have "\<exists>lg'. handle_get_logs redis_env audit_query empty_policy ((demo_world Map.empty)\<lparr>w_log := ?lg\<rparr>) =
      ((demo_world Map.empty)\<lparr>w_log := ?lg, w_log := lg'\<rparr>, Inr (lines_text ((''Reading the log file of key '' @ ''k'' @ '':'') # map report_line [demo_access])))"
    using getlogs_serves_regulator_only [where w = "(demo_world Map.empty)\<lparr>w_log := ?lg\<rparr>"
        and env = redis_env and as = "[demo_access]" and q = audit_query and p = empty_policy]
      demo_access_trail [OF refl] demo_access_facts by (auto simp: audit_query_facts)
  then show ?thesis by (simp add: report_line_def demo_access_def)
qed

section \<open>Keys the RocksDB server does not take whole\<close>

lemma blank_key_reads:
  assumes "ke_backend env = rocksdb_backend lib" "rocksdb_key k" "x \<noteq> []" "length x < 2 ^ 29"
  shows "gdpr_get env d (k @ '' '' @ x) = gdpr_get env d k" "gdpr_del env d (k @ '' '' @ x) = gdpr_del env d k"
  using assms(1) blank_key_operations [OF assms(2-4), where lib = lib and d = d]
  by (simp_all add: gdpr_get_def gdpr_del_def rocksdb_backend_def)

lemma logged_elsewhere:
  assumes "audited env lg needed q p valid v lg'" "q_key q \<noteq> k"
  shows "lg_fs lg' (log_file_path lg k) = lg_fs lg (log_file_path lg k)"
  using assms by (auto simp: audited_def logged_fs_def with_entry_def)

text \<open>
  C35. The audit trail of a key can be evaded over RocksDB: with a blank and any further text behind the
  key, a get or a deletion is executed on the record of the key itself, with the same verdict, the same
  response and the same effect on the database as under the plain key, but the log of the key is left
  as it was; the entry, if one is written, goes to the log of the longer key.
\<close>

theorem blank_key_evades_audit:
  assumes backend: "ke_backend (rq_kv env) = rocksdb_backend lib"
    and key: "rocksdb_key (q_key q)" "x \<noteq> []" "length x < 2 ^ 29"
    and log: "log_ready env (w_log w) (q\<lparr>q_key := q_key q @ '' '' @ x\<rparr>) p"
    and h: "h = handle_get \<or> h = handle_delete" and run: "h env q p w = (w1, Inr r)"
  shows "\<exists>w2. h env (q\<lparr>q_key := q_key q @ '' '' @ x\<rparr>) p w = (w2, Inr r) \<and> w_db w2 = w_db w1 \<and>
    lg_fs (w_log w2) (log_file_path (w_log w) (q_key q)) = lg_fs (w_log w) (log_file_path (w_log w) (q_key q))"
proof -
  let ?q = "q\<lparr>q_key := q_key q @ '' '' @ x\<rparr>"
  note same = blank_key_reads [OF backend key]
  obtain res f ok lg where get: "gdpr_get (rq_kv env) (w_db w) (q_key q) = Inr res" "gdpr_filter_of res = Inr f"
      "validate (rq_check_now env) f q p = Inr ok"
    and m: "monitored env w (monitor_retrieved f q p) ok [] = (w\<lparr>w_log := lg\<rparr>, Inr ())"
    using h run by (auto simp: handle_get_def handle_delete_def monitored_def then_do_def split: prod.splits sum.splits)
  have "validate (rq_check_now env) f ?q p = validate (rq_check_now env) f q p" by (simp add: validate_def)
  with get(3) have v: "validate (rq_check_now env) f ?q p = Inr ok" by simp
  obtain lg2 where l: "monitored env w (monitor_retrieved f ?q p) ok [] = (w\<lparr>w_log := lg2\<rparr>, Inr ())"
    "audited env (w_log w) (gm_needed (monitor_retrieved f ?q p)) ?q p ok [] lg2"
    using monitored_ok [OF log, of "monitor_retrieved f ?q p" ok "[]"] by auto
  have "lg_fs lg2 (log_file_path (w_log w) (q_key q)) = lg_fs (w_log w) (log_file_path (w_log w) (q_key q))"
    by (rule logged_elsewhere [OF l(2)]) simp
  moreover have "\<exists>w2. h env ?q p w = (w2, Inr r) \<and> w_db w2 = w_db w1 \<and> w_log w2 = lg2"
    using h
  proof
    assume "h = handle_get"
    then show ?thesis
      using run get m v l(1) same
      by (cases ok) (auto simp: handle_get_def split: option.splits)
  next
    assume "h = handle_delete"
    then show ?thesis
      using run get m v l(1) same
      by (cases ok; cases "gdpr_del (rq_kv env) (w_db w) (q_key q)") (auto simp: handle_delete_def stored_def split: prod.splits)
  qed
  ultimately show ?thesis by auto
qed

lemma blank_key_parses:
  "query_of_input (command1 ''get'' ''k x'') = Inr (empty_query\<lparr>q_cmd := ''get'', q_key := ''k x''\<rparr>)"
  by code_simp

lemma rocksdb_demo_get:
  "\<exists>w1. handle_get rocksdb_env (demo_query ''get'') empty_policy (demo_world sealed_demo) = (w1, Inr ''v'')"
  using gdpr_store.get_refines [OF rocksdb_env_store [unfolded gdpr_store_live_def, THEN conjunct1] refl,
      where w = "demo_world sealed_demo" and q = "demo_query ''get''" and st = demo_state and p = empty_policy]
    sealed_demo_facts demo_represents(1) rocksdb_log_ready [OF example_logger_ok] rocksdb_key_demo demo_filter_wf
  by (auto simp: spec_access_def demo_permitted remove_record)

theorem blank_key_evades_audit_witness:
  "\<exists>w2. handle_get rocksdb_env ((demo_query ''get'')\<lparr>q_key := ''k x''\<rparr>) empty_policy (demo_world sealed_demo) = (w2, Inr ''v'') \<and>
    lg_fs (w_log w2) (log_file_path example_logger ''k'') = lg_fs example_logger (log_file_path example_logger ''k'')"
proof -
  obtain w1 where w1: "handle_get rocksdb_env (demo_query ''get'') empty_policy (demo_world sealed_demo) = (w1, Inr ''v'')"
    using rocksdb_demo_get by blast
  have "ke_backend (rq_kv rocksdb_env) = rocksdb_backend map_rocksdb" by (simp add: rocksdb_env_def sealed_env_def)
  then show ?thesis
    using blank_key_evades_audit [where env = rocksdb_env and lib = map_rocksdb and q = "demo_query ''get''" and x = "''x''"
        and w = "demo_world sealed_demo" and p = empty_policy and h = handle_get and ?w1.0 = w1 and r = "''v''"]
      w1 rocksdb_key_demo rocksdb_log_ready [OF example_logger_ok]
    by auto
qed

end
