(* ===== verification/Session_Refinement.thy ===== *)
theory Session_Refinement
  imports Connection Interleaving Access_Properties
begin

text \<open>
  The abstract store as a state machine, and the refinement of whole sequences of requests. A step of
  \<open>spec_step\<close> is a request with its response; a write may fail, as a backend may refuse it, but then it
  has no effect. The values of its states are not empty and hold no delimiter, so that a get returns
  them whole, and no text of a record is longer than a message, so that every record a request writes is
  within the store's bounds.
\<close>

section \<open>The specification\<close>

inductive spec_step :: "int \<Rightarrow> int \<Rightarrow> default_policy \<Rightarrow> gdpr_state \<Rightarrow> query \<Rightarrow> string \<Rightarrow> gdpr_state \<Rightarrow> bool"
  for check rewrite :: int and p where
  spec_get: "q_cmd q = ''get'' \<Longrightarrow>
    spec_step check rewrite p st q (case spec_access check st q p of Some (f, v) \<Rightarrow> v | None \<Rightarrow> GET_FAILED) st"
| spec_getm: "q_cmd q = ''getm'' \<Longrightarrow>
    spec_step check rewrite p st q
      (case spec_access check st q p of Some (f, v) \<Rightarrow> fields_text (metadata_fields_of f) | None \<Rightarrow> GETM_FAILED) st"
| spec_insert: "\<lbrakk>q_cmd q = ''put''; st (q_key q) = None;
      get_expiration_time rewrite (value_or (q_expiration q) (dp_expiration p)) = Inr t\<rbrakk> \<Longrightarrow>
    spec_step check rewrite p st q PUT_SUCCESS (st(q_key q \<mapsto> (insert_metadata q p t, q_value q)))"
| spec_update: "\<lbrakk>q_cmd q = ''put''; spec_access check st q p = Some (f, v)\<rbrakk> \<Longrightarrow>
    spec_step check rewrite p st q PUT_SUCCESS (st(q_key q \<mapsto> (f, q_value q)))"
| spec_put_failed: "q_cmd q = ''put'' \<Longrightarrow> spec_step check rewrite p st q PUT_FAILED st"
| spec_set_metadata: "\<lbrakk>q_cmd q = ''putm''; spec_access check st q p = Some (f, v); putm_expiration rewrite q f = Inr t\<rbrakk> \<Longrightarrow>
    spec_step check rewrite p st q PUTM_SUCCESS (st(q_key q \<mapsto> (putm_metadata q f t, v)))"
| spec_putm_failed: "\<lbrakk>q_cmd q = ''putm''; st (q_key q) \<noteq> None\<rbrakk> \<Longrightarrow> spec_step check rewrite p st q PUTM_FAILED st"
| spec_putm_absent: "\<lbrakk>q_cmd q = ''putm''; st (q_key q) = None\<rbrakk> \<Longrightarrow> spec_step check rewrite p st q putm_no_key st"
| spec_remove: "\<lbrakk>q_cmd q = ''delete''; spec_access check st q p = Some (f, v)\<rbrakk> \<Longrightarrow>
    spec_step check rewrite p st q DELETE_SUCCESS (st(q_key q := None))"
| spec_delete_failed: "\<lbrakk>q_cmd q = ''delete''; spec_access check st q p = Some (f, v)\<rbrakk> \<Longrightarrow>
    spec_step check rewrite p st q DELETE_FAILED st"
| spec_delete_refused: "\<lbrakk>q_cmd q = ''delete''; spec_access check st q p = None\<rbrakk> \<Longrightarrow>
    spec_step check rewrite p st q delete_refused st"
| spec_getlogs: "\<lbrakk>q_cmd q = ''getlogs''; request_user q p \<noteq> regulator_key\<rbrakk> \<Longrightarrow>
    spec_step check rewrite p st q GET_LOGS_FAILED st"
| spec_invalid: "q_cmd q \<notin> insert ''getlogs'' database_commands \<Longrightarrow>
    spec_step check rewrite p st q INVALID_COMMAND st"

inductive spec_run ::
  "(nat \<Rightarrow> int \<times> int) \<Rightarrow> default_policy \<Rightarrow> nat \<Rightarrow> gdpr_state \<Rightarrow> query list \<Rightarrow> string list \<Rightarrow> gdpr_state \<Rightarrow> bool"
  for clock p where
  spec_stop: "spec_run clock p i st [] [] st"
| spec_next: "\<lbrakk>spec_step (fst (clock i)) (snd (clock i)) p st q r st1; spec_run clock p (Suc i) st1 qs rs st'\<rbrakk> \<Longrightarrow>
    spec_run clock p i st (q # qs) (r # rs) st'"

section \<open>Requests and environments\<close>

text \<open>
  The requests of a session: parsed ones; with no delimiter in the user, the origin, the share list and
  the value; with a value that is not empty; a policy whose expiration is in the range of the requests'
  own; and no read of the logs by the regulator, whose response is not a matter of the store.
\<close>

definition session_request :: "default_policy \<Rightarrow> query \<Rightarrow> bool" where
  "session_request p q \<longleftrightarrow> query_typed q \<and> clean_request q p \<and> clean_putm q \<and> int32_range (dp_expiration p) \<and>
     (q_cmd q = ''put'' \<longrightarrow> clean (q_value q) \<and> q_value q \<noteq> []) \<and>
     (q_cmd q = ''getlogs'' \<longrightarrow> request_user q p \<noteq> regulator_key)"

definition session_env :: "('d, 'c) kv_env \<Rightarrow> ('d, 'c) req_env \<Rightarrow> bool" where
  "session_env kv env \<longleftrightarrow> rq_kv env = kv \<and> (\<forall>path. rq_can_open env path) \<and>
     (\<forall>q p valid v. logged_bytes (log_env_of env) q p valid v \<noteq> None) \<and>
     (\<exists>iv. rq_db_iv env = Some iv \<and> length iv = initialization_vector_len) \<and>
     0 \<le> rq_rewrite_now env \<and> rq_rewrite_now env \<le> 7 * 10 ^ 18"

text \<open>
  The records of a session: every text of a request fits in a message, so every text of a record does.
\<close>

definition small_filter :: "gdpr_filter \<Rightarrow> bool" where
  "small_filter f \<longleftrightarrow> length (f_user_key f) \<le> max_msg_size \<and> length (f_origin f) \<le> max_msg_size \<and>
     length (f_share f) \<le> max_msg_size"

definition session_state :: "gdpr_state \<Rightarrow> bool" where
  "session_state st \<longleftrightarrow>
     (\<forall>k f v. st k = Some (f, v) \<longrightarrow> v \<noteq> [] \<and> clean v \<and> length v \<le> max_msg_size \<and> small_filter f)"

definition small_request :: "default_policy \<Rightarrow> query \<Rightarrow> bool" where
  "small_request p q \<longleftrightarrow> query_within max_msg_size q \<and> policy_within max_msg_size p"

lemma session_stateD:
  assumes "session_state st" "st k = Some (f, v)"
  shows "v \<noteq> []" "length v \<le> max_msg_size" "small_filter f" "clean v"
  using assms by (auto simp: session_state_def)

lemma session_state_update:
  "\<lbrakk>session_state st; v \<noteq> []; clean v; length v \<le> max_msg_size; small_filter f\<rbrakk> \<Longrightarrow> session_state (st(k \<mapsto> (f, v)))"
  by (simp add: session_state_def)

lemma session_state_remove: "session_state st \<Longrightarrow> session_state (st(k := None))"
  by (simp add: session_state_def)

lemma small_record:
  "\<lbrakk>wf_filter f; small_filter f; length v \<le> max_msg_size\<rbrakk> \<Longrightarrow> length (record_of f v) < 2 ^ 29"
  using record_of_length [of f v] by (simp add: small_filter_def max_msg_size_def)

lemma small_insert_metadata: "small_request p q \<Longrightarrow> small_filter (insert_metadata q p t)"
  by (cases "q_user_key q"; cases "q_origin q"; cases "q_share q")
    (auto simp: small_request_def query_within_def policy_within_def small_filter_def insert_metadata_def request_user_def)

lemma small_putm_metadata: "small_request p q \<Longrightarrow> small_filter f \<Longrightarrow> small_filter (putm_metadata q f t)"
  by (cases "q_user_key q"; cases "q_origin q"; cases "q_share q")
    (auto simp: small_request_def query_within_def small_filter_def putm_metadata_def)

lemma small_request_of_texts:
  assumes "request_text ps" "default_policy_of_input ps = Inr p" "request_text s" "query_of_input s = Inr q"
  shows "small_request p q"
  using default_policy_within [OF assms(2)] query_of_input_within [OF assms(4)] assms(1,3)
  by (auto simp: small_request_def request_text_def query_within_def policy_within_def
      elim!: option.pred_mono_strong)

lemma session_log_ready: "session_env kv env \<Longrightarrow> logger_ok lg \<Longrightarrow> log_ready env lg q p"
  by (simp add: session_env_def log_ready_def)

lemma expiration_in_range:
  assumes "0 \<le> now" "now \<le> 7 * 10 ^ 18" "int32_range n"
  shows "\<exists>t. get_expiration_time now n = Inr t"
  using assms by (auto simp: get_expiration_time_def s2ns_def int32_range_def int64_range_def)

lemma session_expirations:
  assumes "session_env kv env" "session_request p q"
  shows "\<exists>t. get_expiration_time (rq_rewrite_now env) (value_or (q_expiration q) (dp_expiration p)) = Inr t"
    and "\<exists>t. putm_expiration (rq_rewrite_now env) q f = Inr t"
  using assms expiration_in_range [of "rq_rewrite_now env"]
  by (cases "q_expiration q"; simp add: session_env_def session_request_def query_typed_def putm_expiration_def)+

section \<open>One request\<close>

text \<open>What one request leaves: the response and the state of a step, and a logger that still works.\<close>

definition refines_step ::
  "('d \<Rightarrow> string \<rightharpoonup> string) \<Rightarrow> ('d \<Rightarrow> bool) \<Rightarrow> ('d, 'c) req_env \<Rightarrow> default_policy \<Rightarrow> gdpr_state \<Rightarrow> query
     \<Rightarrow> ('d world, string) outcome \<Rightarrow> bool" where
  "refines_step pairs ok env p st q out \<longleftrightarrow>
     (\<exists>w' r st'. out = (w', Inr r) \<and> spec_step (rq_check_now env) (rq_rewrite_now env) p st q r st' \<and>
        ok (w_db w') \<and> represents (pairs (w_db w')) st' \<and> session_state st' \<and> logger_ok (w_log w'))"

lemma refines_stepI:
  assumes "out = (w', Inr r)" "spec_step (rq_check_now env) (rq_rewrite_now env) p st q r st'"
    and "ok (w_db w')" "represents (pairs (w_db w')) st'" "session_state st'" "logger_ok (w_log w')"
  shows "refines_step pairs ok env p st q out"
  using assms by (auto simp: refines_step_def)

lemma refines_keep:
  assumes "out = (w\<lparr>w_log := lg\<rparr>, Inr r)" "spec_step (rq_check_now env) (rq_rewrite_now env) p st q r st"
    and "ok (w_db w)" "represents (pairs (w_db w)) st" "session_state st" "logger_ok lg"
  shows "refines_step pairs ok env p st q out"
  using assms by (intro refines_stepI [of out "w\<lparr>w_log := lg\<rparr>" r env p st q st]) simp_all

lemma write_refines_step:
  assumes "\<exists>w' r. out = (w', Inr r) \<and> write_result pairs ok st st' s e (w_db w') r \<and> audited env lg needed q p valid v (w_log w')"
    and "spec_step (rq_check_now env) (rq_rewrite_now env) p st q s st'"
    and "spec_step (rq_check_now env) (rq_rewrite_now env) p st q e st"
    and "session_state st" "session_state st'"
  shows "refines_step pairs ok env p st q out"
  using assms by (auto simp: refines_step_def write_result_def audited_def)

context gdpr_store_live
begin

lemma reads_refine:
  assumes e: "session_env env renv" and q: "q_cmd q = ''get'' \<or> q_cmd q = ''getm''"
    and w: "store_inv (w_db w)" "store_key (q_key q)" "represents (pairs (w_db w)) st" "logger_ok (w_log w)" "session_state st"
  shows "refines_step pairs store_inv renv p st q (dispatch renv q p w)"
proof -
  have kv: "rq_kv renv = env" using e by (simp add: session_env_def)
  note l = session_log_ready [OF e w(4), of q p]
  let ?a = "spec_access (rq_check_now renv) st q p"
  have v: "(case ?a of Some (f, v) \<Rightarrow> remove_gdpr_metadata (record_of f v) | None \<Rightarrow> GET_FAILED) =
      (case ?a of Some (f, v) \<Rightarrow> v | None \<Rightarrow> GET_FAILED)"
    "(case ?a of Some (f, v) \<Rightarrow> preserve_only_gdpr_metadata (record_of f v) | None \<Rightarrow> GETM_FAILED) =
      (case ?a of Some (f, v) \<Rightarrow> fields_text (metadata_fields_of f) | None \<Rightarrow> GETM_FAILED)"
    using session_stateD(1,4) [OF w(5)]
    by (fastforce simp: spec_access_def preserve_record remove_record split: option.splits)+
  show ?thesis
    using q
  proof
    assume c: "q_cmd q = ''get''"
    then show ?thesis
      using get_refines [OF kv w(1-3) l] w spec_get [OF c, of "rq_check_now renv" "rq_rewrite_now renv" p st] v(1)
      by (fastforce simp: dispatch_def refines_step_def audited_def)
  next
    assume c: "q_cmd q = ''getm''"
    then show ?thesis
      using getm_refines [OF kv w(1-3) l] w spec_getm [OF c, of "rq_check_now renv" "rq_rewrite_now renv" p st] v(2)
      by (fastforce simp: dispatch_def refines_step_def audited_def)
  qed
qed

lemma put_refines:
  assumes e: "session_env env renv" and q: "session_request p q" "q_cmd q = ''put''" and sz: "small_request p q" and sv: "\<And>v. length v < 2 ^ 29 \<Longrightarrow> store_val v"
    and w: "store_inv (w_db w)" "store_key (q_key q)" "represents (pairs (w_db w)) st" "logger_ok (w_log w)" "session_state st"
  shows "refines_step pairs store_inv renv p st q (dispatch renv q p w)"
proof -
  obtain iv where kv: "rq_kv renv = env" and iv: "rq_db_iv renv = Some iv" "length iv = initialization_vector_len"
    using e by (auto simp: session_env_def)
  note l = session_log_ready [OF e w(4), of q p]
  have c: "clean_request q p" "clean (q_value q)" "q_value q \<noteq> []" using q by (auto simp: session_request_def)
  have d: "dispatch renv q p w = handle_put renv q p w" using q(2) by (simp add: dispatch_def)
  obtain t where t: "get_expiration_time (rq_rewrite_now renv) (value_or (q_expiration q) (dp_expiration p)) = Inr t"
    using session_expirations(1) [OF e q(1)] by blast
  have z: "length (q_value q) \<le> max_msg_size" using sz by (simp add: small_request_def query_within_def)
  note upd = session_state_update [OF w(5) c(3,2) z]
  show ?thesis
  proof (cases "st (q_key q)")
    case None
    note f = insert_metadata_wf [OF c(1) get_expiration_time_range [OF t]] small_insert_metadata [OF sz, of t]
    show ?thesis
      unfolding d using w(5) upd [OF f(2)]
      by (intro write_refines_step [OF insert_refines [OF kv w(1-3) l iv None c(1) t sv [OF small_record [OF f z]]]
            spec_insert [where st = st, OF q(2) None t] spec_put_failed [OF q(2)]])
  next
    case (Some fv)
    obtain f v where fv: "fv = (f, v)" by (cases fv)
    have f: "wf_filter f" "small_filter f"
      using represents_Some [OF w(3)] session_stateD(3) [OF w(5)] Some fv by blast+
    have h: "value_head v = []" using value_clean [OF session_stateD(4) [OF w(5) Some [unfolded fv]]] by blast
    show ?thesis
    proof (cases "permitted (rq_check_now renv) f q p")
      case True
      then have g: "spec_access (rq_check_now renv) st q p = Some (f, v)" using Some fv by (simp add: spec_access_def)
      show ?thesis
        unfolding d using w(5) upd [OF f(2)]
        by (intro write_refines_step [OF update_refines [OF kv w(1-3) l iv g, unfolded h append_Nil, OF sv [OF small_record [OF f z]]]
              spec_update [OF q(2) g] spec_put_failed [OF q(2)]])
    next
      case False
      then show ?thesis
        unfolding d using refused_writes [OF kv w(1-3) l Some [unfolded fv]] w spec_put_failed [OF q(2)] refines_keep
        by (metis audited_def)
    qed
  qed
qed

lemma putm_refines_step:
  assumes e: "session_env env renv" and q: "session_request p q" "q_cmd q = ''putm''" and sz: "small_request p q" and sv: "\<And>v. length v < 2 ^ 29 \<Longrightarrow> store_val v"
    and w: "store_inv (w_db w)" "store_key (q_key q)" "represents (pairs (w_db w)) st" "logger_ok (w_log w)" "session_state st"
  shows "refines_step pairs store_inv renv p st q (dispatch renv q p w)"
proof -
  obtain iv where kv: "rq_kv renv = env" and iv: "rq_db_iv renv = Some iv" "length iv = initialization_vector_len"
    using e by (auto simp: session_env_def)
  note l = session_log_ready [OF e w(4), of q p]
  have c: "clean_putm q" using q by (auto simp: session_request_def)
  have d: "dispatch renv q p w = handle_put_metadata renv q p w" using q(2) by (simp add: dispatch_def)
  show ?thesis
  proof (cases "st (q_key q)")
    case None
    then have "handle_put_metadata renv q p w = (w, Inr putm_no_key)"
      using gget [OF w(1,2)] represents_None [OF w(3) None] kv by (simp add: handle_put_metadata_def)
    then show ?thesis
      unfolding d using w spec_putm_absent [where st = st, OF q(2) None]
      by (intro refines_keep [where w = w and lg = "w_log w"]) auto
  next
    case (Some fv)
    obtain f v where fv: "fv = (f, v)" by (cases fv)
    have k: "st (q_key q) \<noteq> None" using Some by simp
    obtain t where t: "putm_expiration (rq_rewrite_now renv) q f = Inr t" using session_expirations(2) [OF e q(1)] by blast
    note r = represents_Some [OF w(3) Some [unfolded fv]] and z = session_stateD [OF w(5) Some [unfolded fv]]
    have f: "wf_filter (putm_metadata q f t)" "small_filter (putm_metadata q f t)"
      using putm_metadata_wf [OF _ c putm_expiration_range [OF _ t]] small_putm_metadata [OF sz z(3)] r by blast+
    have h: "remove1 (CHR ''|'') v = v" using z(4) by (rule remove1_idem)
    show ?thesis
    proof (cases "permitted (rq_check_now renv) f q p")
      case True
      then have g: "spec_access (rq_check_now renv) st q p = Some (f, v)" using Some fv by (simp add: spec_access_def)
      show ?thesis
        unfolding d using w(5) session_state_update [OF w(5) z(1,4,2) f(2)]
        by (intro write_refines_step [OF putm_refines [OF kv w(1-3) l iv g c t, unfolded h, OF sv [OF small_record [OF f z(2)]]]
              spec_set_metadata [OF q(2) g t] spec_putm_failed [where st = st, OF q(2) k]])
    next
      case False
      then show ?thesis
        unfolding d using refused_writes [OF kv w(1-3) l Some [unfolded fv]] w spec_putm_failed [where st = st, OF q(2) k] refines_keep
        by (metis audited_def)
    qed
  qed
qed

lemma delete_refines_step:
  assumes e: "session_env env renv" and q: "q_cmd q = ''delete''"
    and w: "store_inv (w_db w)" "store_key (q_key q)" "represents (pairs (w_db w)) st" "logger_ok (w_log w)" "session_state st"
  shows "refines_step pairs store_inv renv p st q (dispatch renv q p w)"
proof -
  have kv: "rq_kv renv = env" using e by (auto simp: session_env_def)
  note l = session_log_ready [OF e w(4), of q p]
  have d: "dispatch renv q p w = handle_delete renv q p w" using q by (simp add: dispatch_def)
  show ?thesis
  proof (cases "spec_access (rq_check_now renv) st q p")
    case None
    have "\<exists>lg needed. handle_delete renv q p w = (w\<lparr>w_log := lg\<rparr>, Inr delete_refused) \<and>
        audited renv (w_log w) needed q p False [] lg"
    proof (cases "st (q_key q)")
      case absent: None
      show ?thesis
        using monitored_ok [OF l, of "monitor_retrieved empty_filter q p" False "[]"] gget [OF w(1,2)]
          represents_None [OF w(3) absent] kv
        by (auto simp: handle_delete_def validate_iff_permitted empty_filter_def)
    next
      case (Some fv)
      then obtain f v where fv: "st (q_key q) = Some (f, v)" "\<not> permitted (rq_check_now renv) f q p"
        using None by (cases fv) (auto simp: spec_access_def split: if_splits)
      show ?thesis using refused_writes [OF kv w(1-3) l fv] by blast
    qed
    then show ?thesis unfolding d using w spec_delete_refused [OF q None] refines_keep by (metis audited_def)
  next
    case (Some fv)
    obtain f v where fv: "spec_access (rq_check_now renv) st q p = Some (f, v)" using Some by (cases fv) auto
    show ?thesis
      unfolding d using w(5) session_state_remove [OF w(5)]
      by (intro write_refines_step [OF delete_refines [OF kv w(1-3) l fv] spec_remove [OF q fv] spec_delete_failed [OF q fv]])
  qed
qed

lemma dispatch_refines:
  assumes e: "session_env env renv" and q: "session_request p q" "small_request p q"
    and sv: "q_cmd q \<in> database_commands \<Longrightarrow> store_key (q_key q)" "\<And>v. length v < 2 ^ 29 \<Longrightarrow> store_val v"
    and w: "store_inv (w_db w)" "represents (pairs (w_db w)) st" "logger_ok (w_log w)" "session_state st"
  shows "refines_step pairs store_inv renv p st q (dispatch renv q p w)"
proof (cases "q_cmd q \<in> database_commands")
  case True
  then consider "q_cmd q = ''get'' \<or> q_cmd q = ''getm''" | "q_cmd q = ''put''" | "q_cmd q = ''putm''" | "q_cmd q = ''delete''"
    by (auto simp: database_commands_def)
  then show ?thesis
    using reads_refine [OF e _ w(1) sv(1) [OF True] w(2-4)] put_refines [OF e q(1) _ q(2) sv(2) w(1) sv(1) [OF True] w(2-4)]
      putm_refines_step [OF e q(1) _ q(2) sv(2) w(1) sv(1) [OF True] w(2-4)]
      delete_refines_step [OF e _ w(1) sv(1) [OF True] w(2-4)] by metis
next
  case False
  show ?thesis
  proof (cases "q_cmd q = ''getlogs''")
    case True
    then have u: "request_user q p \<noteq> regulator_key" using q(1) by (simp add: session_request_def)
    with True have "dispatch renv q p w = (w, Inr GET_LOGS_FAILED)" by (simp add: dispatch_def handle_get_logs_refused)
    then show ?thesis
      using w spec_getlogs [where st = st, OF True u] by (intro refines_keep [where w = w and lg = "w_log w"]) auto
  next
    case other: False
    have "dispatch renv q p w = (w, Inr INVALID_COMMAND)" "q_cmd q \<notin> insert ''getlogs'' database_commands"
      using False other by (auto simp: dispatch_def database_commands_def)
    then show ?thesis
      using w spec_invalid [of q "rq_check_now renv" "rq_rewrite_now renv" p st]
      by (intro refines_keep [where w = w and lg = "w_log w"]) auto
  qed
qed

text \<open>A sequence of requests is a run of the specification.\<close>

lemma run_requests_refines:
  assumes "\<forall>i. session_env env (envs i)"
    and "\<forall>q\<in>set qs. session_request p q \<and> small_request p q \<and> (q_cmd q \<in> database_commands \<longrightarrow> store_key (q_key q))"
    and sv: "\<And>v. length v < 2 ^ 29 \<Longrightarrow> store_val v"
    and "store_inv (w_db w)" "represents (pairs (w_db w)) st" "logger_ok (w_log w)" "session_state st"
  shows "\<exists>w' rs st'. run_requests (\<lambda>i q w. dispatch (envs i) q p w) i w qs = (w', Inr rs) \<and>
    spec_run (\<lambda>i. (rq_check_now (envs i), rq_rewrite_now (envs i))) p i st qs rs st' \<and>
    store_inv (w_db w') \<and> represents (pairs (w_db w')) st' \<and> session_state st' \<and> logger_ok (w_log w')"
  using assms(2,4-7)
proof (induction qs arbitrary: i w st)
  case Nil
  then show ?case using spec_stop by fastforce
next
  case (Cons q qs)
  obtain w1 r st1 where 1: "dispatch (envs i) q p w = (w1, Inr r)"
    "spec_step (rq_check_now (envs i)) (rq_rewrite_now (envs i)) p st q r st1" "store_inv (w_db w1)"
    "represents (pairs (w_db w1)) st1" "session_state st1" "logger_ok (w_log w1)"
    using dispatch_refines [OF _ _ _ _ sv, of "envs i" p q w st] assms(1) Cons.prems by (auto simp: refines_step_def)
  obtain w' rs st' where 2: "run_requests (\<lambda>i q w. dispatch (envs i) q p w) (Suc i) w1 qs = (w', Inr rs)"
    "spec_run (\<lambda>i. (rq_check_now (envs i), rq_rewrite_now (envs i))) p (Suc i) st1 qs rs st'"
    "store_inv (w_db w')" "represents (pairs (w_db w')) st'" "session_state st'" "logger_ok (w_log w')"
    using Cons.IH [of w1 st1 "Suc i"] Cons.prems(1) 1 by auto
  show ?case
    using 1 2 spec_next [of "\<lambda>i. (rq_check_now (envs i), rq_rewrite_now (envs i))" i p st q r st1 qs rs st'] by auto
qed

end

section \<open>Redis without encryption\<close>

lemma redis_env_live_store:
  "gdpr_store_live (rq_kv redis_env) (\<lambda>d. d) (\<lambda>_. True) (\<lambda>_. True) (\<lambda>_. True)"
  unfolding redis_env_def using map_redis.is_plain_live_store by simp

lemma redis_session_env: "session_env (rq_kv redis_env) redis_env"
  using redis_log_ready by (simp add: session_env_def log_ready_def) (simp add: redis_env_def initialization_vector_len_def)

lemma demo_query_session:
  assumes "cmd \<in> database_commands"
  shows "session_request empty_policy (demo_query cmd)" "small_request empty_policy (demo_query cmd)"
  using assms
  by (auto simp: session_request_def query_typed_def clean_request_def clean_putm_def request_user_def database_commands_def
      int32_range_def to_lower_def small_request_def query_within_def policy_within_def max_msg_size_def demo_query_def empty_query_def)

end
