(* ===== verification/Interleaving_Facts.thy ===== *)
theory Interleaving_Facts
  imports Interleaving Log_Properties "HOL-Library.Multiset"
begin

text \<open>
  What holds of every interleaving of concurrent requests: a run ends after at most four steps per
  request and does not get stuck before every request has its response or the process is down;
  requests that do not conflict behave as if each handler had run atomically, one after the other
  (\<open>serial\<close>).
\<close>

section \<open>Progress\<close>

fun remaining :: "thread \<Rightarrow> nat" where
  "remaining (Ready q p) = 4"
| "remaining (Has_read q p res) = 3"
| "remaining (Planned q p res pl) = 2"
| "remaining (Logged q p res pl) = 1"
| "remaining (Finished q p r) = 0"

fun request_of :: "thread \<Rightarrow> query \<times> default_policy" where
  "request_of (Ready q p) = (q, p)"
| "request_of (Has_read q p res) = (q, p)"
| "request_of (Planned q p res pl) = (q, p)"
| "request_of (Logged q p res pl) = (q, p)"
| "request_of (Finished q p r) = (q, p)"

definition work :: "'d pool \<Rightarrow> nat" where
  "work s = (if po_down s = None then sum_list (map remaining (po_threads s)) else 0)"

text \<open>The shape of every step: one thread moves on, or the process goes down.\<close>

lemma pool_step_shape:
  assumes "pool_step E s s'"
  shows "\<exists>i t. at_thread s i t \<and> 0 < remaining t \<and>
    (po_down s' \<noteq> None \<and> po_threads s' = po_threads s \<and> po_db s' = po_db s \<and> po_log s' = po_log s \<or>
     po_down s' = None \<and> (\<exists>t'. po_threads s' = (po_threads s)[i := t'] \<and> remaining t' < remaining t \<and>
       request_of t' = request_of t))"
  using assms
  by cases (auto simp: advance_def at_thread_def intro!: exI)

lemma work_decreases:
  assumes "pool_step E s s'"
  shows "work s' < work s"
proof -
  obtain i t where t: "at_thread s i t" "0 < remaining t" and
    s': "po_down s' \<noteq> None \<or> po_down s' = None \<and> (\<exists>t'. po_threads s' = (po_threads s)[i := t'] \<and> remaining t' < remaining t)"
    using pool_step_shape [OF assms] by blast
  have i: "i < length (map remaining (po_threads s))" "map remaining (po_threads s) ! i = remaining t"
    and up: "po_down s = None" using t(1) by (auto simp: at_thread_def)
  have le: "remaining t \<le> sum_list (map remaining (po_threads s))"
    using elem_le_sum_list [OF i(1)] i(2) by simp
  show ?thesis
  proof (cases "po_down s'")
    case (Some e)
    with le t(2) up show ?thesis by (simp add: work_def)
  next
    case None
    with s' obtain t' where t': "po_threads s' = (po_threads s)[i := t']" "remaining t' < remaining t" by auto
    have "sum_list (map remaining (po_threads s')) = sum_list (map remaining (po_threads s)) + remaining t' - remaining t"
      using sum_list_update [OF i(1), of "remaining t'"] i(2) t'(1) by (simp add: map_update)
    with le t'(2) None up show ?thesis by (simp add: work_def)
  qed
qed

lemma pool_run_bounded: "pool_run E s0 ds s \<Longrightarrow> length ds + work s \<le> Suc (work s0)"
  by (induction rule: pool_run.induct) (auto dest: work_decreases)

lemma work_ready:
  assumes "\<forall>t\<in>set (po_threads s). \<exists>q p. t = Ready q p"
  shows "work s \<le> 4 * length (po_threads s)"
proof -
  have "map remaining (po_threads s) = replicate (length (po_threads s)) 4"
    using assms by (intro replicate_eqI) auto
  then show ?thesis by (simp add: work_def sum_list_replicate)
qed

lemma ready_progress:
  assumes "env \<in> E" and at: "at_thread s i (Ready q p)"
  shows "\<exists>s'. pool_step E s s'"
proof -
  consider "q_cmd q \<in> database_commands" | "q_cmd q = ''getlogs''"
    | "q_cmd q \<notin> database_commands" "q_cmd q \<noteq> ''getlogs''" by blast
  then show ?thesis
  proof cases
    case 1
    show ?thesis
      using step_read [OF at 1 assms(1)] raise_read [OF at 1 assms(1)] by (cases "read_phase env q (po_db s)") blast+
  next
    case 2
    obtain w r where h: "handle_get_logs env q p \<lparr>w_db = po_db s, w_log = po_log s\<rparr> = (w, r)" by fastforce
    show ?thesis
      using step_logs [OF at 2 assms(1)] raise_logs [OF at 2 assms(1)] h by (cases r) blast+
  next
    case 3
    show ?thesis using step_other [OF at 3] by blast
  qed
qed

lemma pool_progress:
  assumes "env \<in> E" "po_down s = None" "t \<in> set (po_threads s)" "0 < remaining t"
  shows "\<exists>s'. pool_step E s s'"
proof -
  obtain i where i: "at_thread s i t" using assms(2,3) by (auto simp: at_thread_def in_set_conv_nth)
  show ?thesis
  proof (cases t)
    case (Ready q p)
    then show ?thesis using ready_progress [OF assms(1)] i by blast
  next
    case (Has_read q p res)
    show ?thesis
      using step_decide [OF i [unfolded Has_read] assms(1)] raise_decide [OF i [unfolded Has_read] assms(1)]
      by (cases "decide env q p res") blast+
  next
    case (Planned q p res pl)
    show ?thesis
      using step_log [OF i [unfolded Planned] assms(1)] raise_log [OF i [unfolded Planned] assms(1)]
      by (cases "log_phase env (po_log s) pl") blast+
  next
    case (Logged q p res pl)
    show ?thesis
    proof (cases "act_phase env q (po_db s) pl")
      case (Inr x)
      then show ?thesis using step_act [OF i [unfolded Logged] assms(1)] by (cases x) blast
    qed (use raise_act [OF i [unfolded Logged] assms(1)] in blast)
  next
    case (Finished q p r)
    with assms(4) show ?thesis by simp
  qed
qed

lemma stuck_done:
  assumes "E \<noteq> {}" "\<nexists>s'. pool_step E s s'"
  shows "po_down s \<noteq> None \<or> (\<forall>t\<in>set (po_threads s). \<exists>q p r. t = Finished q p r)"
proof (rule disjCI)
  assume n: "\<not> (\<forall>t\<in>set (po_threads s). \<exists>q p r. t = Finished q p r)"
  then obtain t where "t \<in> set (po_threads s)" "0 < remaining t" by (metis neq0_conv remaining.elims less_not_refl2 zero_less_numeral zero_less_one)
  then show "po_down s \<noteq> None" using pool_progress assms by blast
qed

text \<open>Every run can be continued to its end.\<close>

lemma pool_run_completes:
  assumes "pool_run E s0 ds s"
  shows "\<exists>ds' s'. pool_run E s0 (ds' @ ds) s' \<and> (\<nexists>s''. pool_step E s' s'')"
  using assms
proof (induction "work s" arbitrary: s ds rule: less_induct)
  case less
  show ?case
  proof (cases "\<exists>s'. pool_step E s s'")
    case True
    then obtain s' where s': "pool_step E s s'" by blast
    from less.hyps [OF work_decreases [OF s'] run_step [OF less.prems s']]
    obtain ds' s'' where "pool_run E s0 (ds' @ po_db s' # ds) s''" "\<nexists>u. pool_step E s'' u" by blast
    then show ?thesis by (metis append.assoc append_Cons append_Nil)
  next
    case False
    then show ?thesis using less.prems by (intro exI [of _ "[]"] exI [of _ s]) simp
  qed
qed

section \<open>Requests that do not conflict\<close>

text \<open>
  The steps of a request take an environment each: the one of the decision, with its clocks, the one of
  the log entry, with its clock, its vector and the mutexes held by others, and the one of the write,
  with its vector. \<open>mixed_envs E\<close> are the environments put together from those of \<open>E\<close> in this way.

  \<open>serial E d0 xs d\<close>: the requests of \<open>xs\<close>, handled atomically one after the other, each in one of the
  environments \<open>E\<close> and with some logger, lead from the database \<open>d0\<close> to \<open>d\<close> with the responses in \<open>xs\<close>.
\<close>

definition mixed_env :: "('d, 'c) req_env \<Rightarrow> ('d, 'c) req_env \<Rightarrow> ('d, 'c) req_env \<Rightarrow> ('d, 'c) req_env" where
  "mixed_env env1 env2 env3 = env1\<lparr>rq_log_now := rq_log_now env2, rq_log_iv := rq_log_iv env2, rq_locked := rq_locked env2,
     rq_can_open := rq_can_open env2, rq_db_iv := rq_db_iv env3\<rparr>"

definition mixed_envs :: "('d, 'c) req_env set \<Rightarrow> ('d, 'c) req_env set" where
  "mixed_envs E = {mixed_env env1 env2 env3 | env1 env2 env3. env1 \<in> E \<and> env2 \<in> E \<and> env3 \<in> E}"

lemma mixed_env_same: "env \<in> E \<Longrightarrow> env \<in> mixed_envs E"
  by (auto simp: mixed_envs_def mixed_env_def intro!: exI [of _ env])

inductive serial ::
  "('d, 'c) req_env set \<Rightarrow> 'd \<Rightarrow> (query \<times> default_policy \<times> string) list \<Rightarrow> 'd \<Rightarrow> bool" for E d0 where
  serial_start: "serial E d0 [] d0"
| serial_request: "\<lbrakk>serial E d0 xs d; env \<in> E; dispatch env q p \<lparr>w_db = d, w_log = lg\<rparr> = (w, Inr r)\<rbrakk> \<Longrightarrow>
    serial E d0 (xs @ [(q, p, r)]) (w_db w)"

definition write_commands :: "string set" where
  "write_commands = {''put'', ''delete'', ''putm''}"

definition no_conflict :: "thread list \<Rightarrow> bool" where
  "no_conflict ts \<longleftrightarrow>
     (\<forall>i<length ts. \<forall>j<length ts. i \<noteq> j \<longrightarrow> q_cmd (fst (request_of (ts ! i))) \<in> database_commands \<longrightarrow>
        q_cmd (fst (request_of (ts ! j))) \<in> write_commands \<longrightarrow>
        q_key (fst (request_of (ts ! i))) \<noteq> q_key (fst (request_of (ts ! j))))"

fun answer_of :: "thread \<Rightarrow> (query \<times> default_policy \<times> string) list" where
  "answer_of (Finished q p r) = [(q, p, r)]"
| "answer_of t = []"

definition answers :: "thread list \<Rightarrow> (query \<times> default_policy \<times> string) list" where
  "answers ts = concat (map answer_of ts)"

lemma mset_answers_update:
  assumes "i < length ts" "answer_of (ts ! i) = []"
  shows "mset (answers (ts[i := t])) = mset (answers ts) + mset (answer_of t)"
  using assms
proof (induction ts arbitrary: i)
  case (Cons u ts)
  then show ?case by (cases i) (auto simp: answers_def)
qed simp

lemma no_conflict_update:
  assumes "no_conflict ts" "i < length ts" "request_of t = request_of (ts ! i)"
  shows "no_conflict (ts[i := t])"
proof -
  have "request_of (ts[i := t] ! j) = request_of (ts ! j)" for j
    using assms(2,3) by (cases "j = i") simp_all
  with assms(1) show ?thesis by (simp add: no_conflict_def)
qed

text \<open>
  The four phases, each in an environment of its own, are the handler in one environment, provided
  the record has not changed between the read and the action.
\<close>

lemma phases_of_steps:
  assumes kv: "rq_kv env1 = kv" "rq_kv env2 = kv" "rq_kv env3 = kv"
    and c: "q_cmd q \<in> database_commands"
    and "read_phase env1 q d = Inr res" "decide env1 q p res = Inr pl" "log_phase env2 lg pl = Inr lg'"
    and "act_phase env3 q d pl = Inr (r, d')"
  shows "dispatch (mixed_env env1 env2 env3) q p \<lparr>w_db = d, w_log = lg\<rparr> = (\<lparr>w_db = d', w_log = lg'\<rparr>, Inr r)"
proof -
  let ?env = "env1\<lparr>rq_log_now := rq_log_now env2, rq_log_iv := rq_log_iv env2, rq_locked := rq_locked env2,
    rq_can_open := rq_can_open env2, rq_db_iv := rq_db_iv env3\<rparr>"
  have "read_phase ?env q d = Inr res" using assms(5) by (auto simp: read_phase_def split: if_splits)
  moreover have "decide ?env q p res = decide env1 q p res"
    by (simp add: decide_def checked_def cong: if_cong split: option.split)
  then have "decide ?env q p res = Inr pl" using assms(6) by simp
  moreover have "log_env_of ?env = log_env_of env2" using kv by (simp add: log_env_of_def)
  then have "log_phase ?env lg pl = Inr lg'" using assms(7) by (cases "pl_monitor pl") (simp_all add: log_phase_def)
  moreover have "act_phase ?env q d pl = Inr (r, d')"
    using assms(8) kv by (cases "pl_action pl") (simp_all add: act_phase_def)
  ultimately have "phases ?env q p \<lparr>w_db = d, w_log = lg\<rparr> = (\<lparr>w_db = d', w_log = lg'\<rparr>, Inr r)"
    by (simp add: phases_def)
  with dispatch_phases [OF c, of ?env p] show ?thesis by (simp add: mixed_env_def)
qed

text \<open>An action without a write command answers only.\<close>

lemma act_phase_reads:
  assumes "act_phase env q d pl = Inr (r, d')" "decide env' q p res = Inr pl" "q_cmd q \<notin> write_commands"
  shows "d' = d"
  using act_phase_writes [OF assms(1)] decide_write_granted [OF assms(2)] assms(3) by (auto simp: write_commands_def)

text \<open>The records a plan is going to store.\<close>

definition stores :: "plan \<Rightarrow> string \<Rightarrow> bool" where
  "stores pl v \<longleftrightarrow> pl_action pl = Store v \<or> pl_action pl = Store_meta v"

context gdpr_store
begin

text \<open>What a thread holds is still true of the database, and how it got there.\<close>

fun current :: "('d, 'c) req_env set \<Rightarrow> 'd \<Rightarrow> thread \<Rightarrow> bool" where
  "current E d (Ready q p) = True"
| "current E d (Has_read q p res) = (q_cmd q \<in> database_commands \<and> res = pairs d (q_key q))"
| "current E d (Planned q p res pl) =
     (q_cmd q \<in> database_commands \<and> res = pairs d (q_key q) \<and> was_decided E q p res pl)"
| "current E d (Logged q p res pl) =
     (q_cmd q \<in> database_commands \<and> res = pairs d (q_key q) \<and> was_decided E q p res pl \<and>
      (\<exists>env\<in>E. \<exists>lg lg'. log_phase env lg pl = Inr lg'))"
| "current E d (Finished q p r) = True"

definition shared_env :: "('d, 'c) req_env set \<Rightarrow> bool" where
  "shared_env E \<longleftrightarrow> (\<forall>e\<in>E. rq_kv e = env \<and> (\<exists>iv. rq_db_iv e = Some iv \<and> length iv = initialization_vector_len))"

lemma read_phase_pairs:
  assumes "rq_kv e = env" "store_inv d" "store_key (q_key q)"
  shows "read_phase e q d = Inr (pairs d (q_key q))"
  using assms by (simp add: read_phase_def gget ggetm)

definition isolated :: "('d, 'c) req_env set \<Rightarrow> 'd pool \<Rightarrow> bool" where
  "isolated E s \<longleftrightarrow> store_inv (po_db s) \<and> no_conflict (po_threads s) \<and>
     (\<forall>t\<in>set (po_threads s). current E (po_db s) t \<and>
       (q_cmd (fst (request_of t)) \<in> database_commands \<longrightarrow> store_key (q_key (fst (request_of t)))))"

lemma isolated_thread:
  assumes "isolated E s" "at_thread s i t"
  shows "current E (po_db s) t" "q_cmd (fst (request_of t)) \<in> database_commands \<longrightarrow> store_key (q_key (fst (request_of t)))"
  using assms by (auto simp: isolated_def at_thread_def)

text \<open>A step that leaves the database alone.\<close>

lemma isolated_advance:
  assumes "isolated E s" "at_thread s i t" "request_of t' = request_of t" "current E (po_db s) t'"
  shows "isolated E (advance s i t')" "isolated E ((advance s i t')\<lparr>po_log := lg\<rparr>)"
proof -
  have i: "i < length (po_threads s)" "po_threads s ! i = t" using assms(2) by (auto simp: at_thread_def)
  have "no_conflict ((po_threads s)[i := t'])"
    using no_conflict_update [OF _ i(1)] assms(1,3) i(2) by (simp add: isolated_def)
  moreover have "current E (po_db s) u \<and> (q_cmd (fst (request_of u)) \<in> database_commands \<longrightarrow> store_key (q_key (fst (request_of u))))"
    if "u \<in> set ((po_threads s)[i := t'])" for u
    using that set_update_subset_insert [of "po_threads s" i t'] assms isolated_thread [OF assms(1,2)]
    by (auto simp: isolated_def)
  ultimately show "isolated E (advance s i t')" "isolated E ((advance s i t')\<lparr>po_log := lg\<rparr>)"
    using assms(1) by (simp_all add: isolated_def advance_def)
qed

lemma act_phase_other:
  assumes "act_phase e q d pl = Inr (r, d')" "rq_kv e = env" "rq_db_iv e = Some iv" "length iv = initialization_vector_len"
    and "store_inv d" "store_key (q_key q)" "\<And>v. stores pl v \<Longrightarrow> store_val v"
  shows "store_inv d'" "k \<noteq> q_key q \<Longrightarrow> pairs d' k = pairs d k"
  using assms gput [OF assms(5,6) _ assms(4), of _ _ d'] gputm [OF assms(5,6) _ assms(4), of _ _ d'] gdel [OF assms(5,6), of _ d']
  by (auto simp: act_phase_def stores_def bind_result_eq_Inr_iff split: action.splits)

text \<open>The action of a thread leaves what the others hold as it is.\<close>

lemma isolated_act:
  assumes E: "shared_env E" and s: "isolated E s" and t: "at_thread s i (Logged q p res pl)"
    and vals: "\<And>v. stores pl v \<Longrightarrow> store_val v" and e: "e \<in> E" and a: "act_phase e q (po_db s) pl = Inr (r, d)"
  shows "isolated E ((advance s i (Finished q p r))\<lparr>po_db := d\<rparr>)"
proof -
  note cur = isolated_thread [OF s t]
  have i: "i < length (po_threads s)" "po_threads s ! i = Logged q p res pl" using t by (auto simp: at_thread_def)
  obtain iv where iv: "rq_kv e = env" "rq_db_iv e = Some iv" "length iv = initialization_vector_len"
    using E e by (auto simp: shared_env_def)
  have inv: "store_inv (po_db s)" using s by (simp add: isolated_def)
  have key: "store_key (q_key q)" using cur by simp
  note inv' = act_phase_other(1) [OF a iv inv key vals] and other = act_phase_other(2) [OF a iv inv key vals]
  have reads: "d = po_db s" if "q_cmd q \<notin> write_commands"
    using cur(1) act_phase_reads [OF a] that by (auto simp: was_decided_def)
  have keep: "current E d u" if u: "j < length (po_threads s)" "j \<noteq> i" "po_threads s ! j = u" for j u
  proof -
    have cu: "current E (po_db s) u" using s u by (auto simp: isolated_def)
    show ?thesis
    proof (cases "q_cmd q \<in> write_commands \<and> q_cmd (fst (request_of u)) \<in> database_commands")
      case True
      then have "q_key (fst (request_of u)) \<noteq> q_key q"
        using s u i unfolding isolated_def no_conflict_def by (metis fst_conv request_of.simps(4))
      with other cu show ?thesis by (cases u) auto
    next
      case False
      with reads cu show ?thesis by (cases u) auto
    qed
  qed
  have cur_all: "current E d u" if u: "u \<in> set ((po_threads s)[i := Finished q p r])" for u
  proof -
    obtain j where j: "j < length (po_threads s)" "(po_threads s)[i := Finished q p r] ! j = u"
      using u by (auto simp: in_set_conv_nth)
    then show ?thesis using keep [of j u] by (cases "j = i") auto
  qed
  have "isolated E (advance s i (Finished q p r))" using isolated_advance(1) [OF s t] by simp
  with inv' cur_all show ?thesis by (simp add: isolated_def advance_def)
qed

lemma isolated_step:
  assumes "shared_env E" "\<And>i q p res pl v. at_thread s i (Logged q p res pl) \<Longrightarrow> stores pl v \<Longrightarrow> store_val v"
    and "isolated E s" "pool_step E s s'"
  shows "isolated E s'"
  using assms(4)
proof cases
  case (step_read i q p e res)
  have "rq_kv e = env" using assms(1) step_read by (auto simp: shared_env_def)
  then have "res = pairs (po_db s) (q_key q)"
    using step_read isolated_thread [OF assms(3) step_read(2)] assms(3) by (simp add: read_phase_pairs isolated_def)
  then show ?thesis using step_read isolated_advance(1) [OF assms(3) step_read(2)] by simp
next
  case (step_decide i q p res e pl)
  then have "current E (po_db s) (Planned q p res pl)"
    using isolated_thread [OF assms(3) step_decide(2)] by (auto simp: was_decided_def)
  from isolated_advance(1) [OF assms(3) step_decide(2) _ this] show ?thesis unfolding step_decide(1) by simp
next
  case (step_log i q p res pl e lg)
  then have "current E (po_db s) (Logged q p res pl)"
    using isolated_thread [OF assms(3) step_log(2)] by auto
  from isolated_advance(2) [OF assms(3) step_log(2) _ this] show ?thesis unfolding step_log(1) by simp
next
  case (step_act i q p res pl e r d)
  then show ?thesis using isolated_act [OF assms(1,3) step_act(2) assms(2) [OF step_act(2)]] by simp
next
  case (step_logs i q p e w r)
  then show ?thesis using isolated_advance(2) [OF assms(3) step_logs(2)] by simp
next
  case (step_other i q p)
  then show ?thesis using isolated_advance(1) [OF assms(3) step_other(2)] by simp
qed (use assms(3) in \<open>simp_all add: isolated_def\<close>)

lemma serial_answered:
  assumes "serial M d0 xs (po_db s)" "mset xs = mset (answers (po_threads s))"
    and "at_thread s i t" "0 < remaining t" "ts = (po_threads s)[i := Finished q p r]"
    and "e \<in> M" "dispatch e q p \<lparr>w_db = po_db s, w_log = lg\<rparr> = (w, Inr r)" "w_db w = d'"
  shows "\<exists>xs. serial M d0 xs d' \<and> mset xs = mset (answers ts)"
proof -
  have "serial M d0 (xs @ [(q, p, r)]) d'" using serial_request [OF assms(1,6,7)] assms(8) by simp
  moreover have "answer_of t = []" using assms(4) by (cases t) auto
  ultimately show ?thesis
    using assms(2,3,5) mset_answers_update [of i "po_threads s" "Finished q p r"]
    by (intro exI [of _ "xs @ [(q, p, r)]"]) (simp add: at_thread_def)
qed

lemma serial_silent:
  assumes "serial M d0 xs (po_db s)" "mset xs = mset (answers (po_threads s))"
    and "at_thread s i t" "0 < remaining t" "0 < remaining t'" "ts = (po_threads s)[i := t']"
  shows "\<exists>xs. serial M d0 xs (po_db s) \<and> mset xs = mset (answers ts)"
proof -
  have "answer_of t = []" "answer_of t' = []" using assms(4,5) by (cases t; cases t'; simp)+
  then show ?thesis using assms mset_answers_update [of i "po_threads s" t'] by (auto simp: at_thread_def)
qed

text \<open>Each answer is that of the handler, run atomically on the database of the moment of the action.\<close>

lemma act_is_dispatch:
  assumes E: "shared_env E" and s: "isolated E s" "at_thread s i (Logged q p res pl)"
    and e: "e \<in> E" "act_phase e q (po_db s) pl = Inr (r, d)"
  shows "\<exists>e' lg lg'. e' \<in> mixed_envs E \<and> dispatch e' q p \<lparr>w_db = po_db s, w_log = lg\<rparr> = (\<lparr>w_db = d, w_log = lg'\<rparr>, Inr r)"
proof -
  note cur = isolated_thread [OF s]
  from cur(1) obtain e1 e2 lg lg' where es: "e1 \<in> E" "e2 \<in> E" "decide e1 q p res = Inr pl" "log_phase e2 lg pl = Inr lg'"
    and c: "q_cmd q \<in> database_commands" "res = pairs (po_db s) (q_key q)"
    by (auto simp: was_decided_def)
  have kv: "rq_kv e1 = env" "rq_kv e2 = env" "rq_kv e = env"
    using E es(1,2) e(1) by (auto simp: shared_env_def)
  have "read_phase e1 q (po_db s) = Inr res"
    using read_phase_pairs [OF kv(1)] s(1) cur(2) c by (simp add: isolated_def)
  from phases_of_steps [OF kv c(1) this es(3,4) e(2)] es(1,2) e(1) show ?thesis by (auto simp: mixed_envs_def)
qed

lemma isolated_serial_step:
  assumes E: "shared_env E" "E \<noteq> {}" and s: "isolated E s" "serial (mixed_envs E) d0 xs (po_db s)" "mset xs = mset (answers (po_threads s))"
    and step: "pool_step E s s'"
  shows "\<exists>xs. serial (mixed_envs E) d0 xs (po_db s') \<and> mset xs = mset (answers (po_threads s'))"
  using step
proof cases
  case (step_read i q p e res)
  then show ?thesis using serial_silent [OF s(2,3) step_read(2), of "Has_read q p res"] by (simp add: advance_def)
next
  case (step_decide i q p res e pl)
  then show ?thesis using serial_silent [OF s(2,3) step_decide(2), of "Planned q p res pl"] by (simp add: advance_def)
next
  case (step_log i q p res pl e lg)
  then show ?thesis using serial_silent [OF s(2,3) step_log(2), of "Logged q p res pl"] by (simp add: advance_def)
next
  case (step_act i q p res pl e r d)
  obtain e' lg lg' where "e' \<in> mixed_envs E" "dispatch e' q p \<lparr>w_db = po_db s, w_log = lg\<rparr> = (\<lparr>w_db = d, w_log = lg'\<rparr>, Inr r)"
    using act_is_dispatch [OF E(1) s(1) step_act(2-4)] by blast
  with serial_answered [OF s(2,3) step_act(2)] step_act(1) show ?thesis by (simp add: advance_def)
next
  case (step_logs i q p e w r)
  have "e \<in> mixed_envs E" using mixed_env_same [OF step_logs(4)] .
  moreover have "dispatch e q p \<lparr>w_db = po_db s, w_log = po_log s\<rparr> = (w, Inr r)"
    using step_logs(3,5) by (simp add: dispatch_def)
  moreover have "w_db w = po_db s" using handle_get_logs_db [of e q p "\<lparr>w_db = po_db s, w_log = po_log s\<rparr>"] step_logs(5) by simp
  ultimately show ?thesis using serial_answered [OF s(2,3) step_logs(2)] step_logs(1) by (simp add: advance_def)
next
  case (step_other i q p)
  obtain e where "e \<in> mixed_envs E" using E(2) mixed_env_same by blast
  moreover have "dispatch e q p \<lparr>w_db = po_db s, w_log = po_log s\<rparr> =
      (\<lparr>w_db = po_db s, w_log = po_log s\<rparr>, Inr INVALID_COMMAND)"
    using step_other(3,4) by (auto simp: dispatch_def database_commands_def)
  ultimately show ?thesis using serial_answered [OF s(2,3) step_other(2)] step_other(1) by (simp add: advance_def)
qed (use s(2,3) in \<open>auto\<close>)

end

end
