(* ===== verification/Audit_Interleaving.thy ===== *)
theory Audit_Interleaving
  imports Interleaving_Facts
begin

text \<open>
  The log under concurrent requests. The entries made so far are kept as a ghost list of pairs of a
  thread and the bytes of its entry (\<open>entries_ok\<close>): every log file is what it was followed by the
  entries of the threads on its key, in the order they were made, a thread has at most one of them and
  none before it has logged, and a thread that has logged has one just when its request is monitored.
  The assumptions are that the log files can be opened (a file that cannot be opened loses its entries)
  and that entries encrypt (otherwise the logger prints a message and drops the entry).
\<close>

section \<open>Logs grow\<close>

definition log_grows :: "logger \<Rightarrow> logger \<Rightarrow> bool" where
  "log_grows lg lg' \<longleftrightarrow> logger_ok lg' \<and> lg_dir lg' = lg_dir lg \<and>
     (\<forall>k. \<exists>post. file_content lg' k = file_content lg k @ post)"

lemma log_grows_refl: "logger_ok lg \<Longrightarrow> log_grows lg lg"
  by (simp add: log_grows_def)

lemma log_grows_trans: "log_grows lg1 lg2 \<Longrightarrow> log_grows lg2 lg3 \<Longrightarrow> log_grows lg1 lg3"
  unfolding log_grows_def by (metis append.assoc)

lemma touched_content:
  assumes "lg_dir lg' = lg_dir lg" "lg_fs lg' = touched lg k"
  shows "file_content lg' k' = file_content lg k'"
  using assms log_file_path_dir [OF assms(1)] by (simp add: file_content_def touched_def)

lemma get_or_open_grows:
  assumes "logger_ok lg" "can_open (log_file_path lg k)"
  shows "\<exists>lg'. get_or_open_log_stream locked can_open lg k = Inr lg' \<and> is_open lg' k \<and> log_grows lg lg' \<and>
    (\<forall>k'. file_content lg' k' = file_content lg k')"
proof -
  obtain lg' where l: "get_or_open_log_stream locked can_open lg k = Inr lg'" "stream_inv lg'" "streams_exist lg'"
    "is_open lg' k" "lg_dir lg' = lg_dir lg" "lg_fs lg' = touched lg k"
    using get_or_open_ok [where can_open = can_open, OF _ _ assms(2)] assms(1) by (auto simp: logger_ok_def)
  with touched_content [OF l(5,6)] show ?thesis by (auto simp: log_grows_def logger_ok_def)
qed

definition entry_bytes :: "string option \<Rightarrow> string" where
  "entry_bytes s = (case s of Some x \<Rightarrow> entry_frame x | None \<Rightarrow> [])"

lemma log_encoded_query_appends:
  assumes lg: "logger_ok lg" and o: "can_open (log_file_path lg (q_key q))"
  shows "\<exists>lg'. log_encoded_query locked can_open cipher t lg q p valid v = Inr lg' \<and> log_grows lg lg' \<and>
    (\<forall>k. file_content lg' k = file_content lg k @
      (if k = q_key q then entry_bytes (stored_entry cipher (request_entry t q p valid v)) else []))"
proof (cases "stored_entry cipher (request_entry t q p valid v)")
  case None
  obtain lg' where "get_or_open_log_stream locked can_open lg (q_key q) = Inr lg'" "is_open lg' (q_key q)"
    "log_grows lg lg'" "\<forall>k'. file_content lg' k' = file_content lg k'"
    using get_or_open_grows [where can_open = can_open, OF lg o] by blast
  with None show ?thesis
    by (simp add: log_encoded_query_def Let_def entry_bytes_def request_entry_def request_user_def)
next
  case (Some s)
  obtain lg' where l: "log_encoded_query locked can_open cipher t lg q p valid v = Inr lg'"
    "stream_inv lg'" "streams_exist lg'" "lg_dir lg' = lg_dir lg"
    "lg_fs lg' = (lg_fs lg)(log_file_path lg (q_key q) \<mapsto> file_content lg (q_key q) @ entry_frame s)"
    using log_encoded_query_ok [where can_open = can_open and cipher = cipher, OF _ _ o Some] lg
    by (auto simp: logger_ok_def)
  have "file_content lg' k = file_content lg k @ (if k = q_key q then entry_frame s else [])" for k
    using l(5) log_file_path_dir [OF l(4)] by (auto simp: file_content_def)
  then show ?thesis using l(1-4) Some by (auto simp: log_grows_def logger_ok_def entry_bytes_def)
qed

lemma write_file_ok:
  assumes "logger_ok lg" "is_open lg k"
  shows "logger_ok (write_file lg k x)" "lg_dir (write_file lg k x) = lg_dir lg" "is_open (write_file lg k x) k' = is_open lg k'"
    "file_content (write_file lg k x) k' = file_content lg k' @ (if k' = k then x else [])"
  using assms
  by (auto simp: write_file_def Let_def logger_ok_def stream_inv_def streams_exist_def log_file_path_def file_content_def
      is_open_def split: option.splits)

text \<open>The plain variant of logging adds one line.\<close>

lemma log_raw_query_appends:
  assumes lg: "logger_ok lg" and o: "can_open (log_file_path lg (q_key q))"
  shows "\<exists>lg'. log_raw_query locked can_open t lg q p valid v = Inr lg' \<and> log_grows lg lg' \<and>
    (\<forall>k. file_content lg' k = file_content lg k @
      (if k = q_key q then raw_line t (request_user q p) (operation_code (convert_operation_to_enum (q_cmd q))) valid v
       else []))"
proof -
  obtain lg1 where l: "get_or_open_log_stream (\<lambda>k. k = q_key q \<or> locked k) can_open lg (q_key q) = Inr lg1"
    "is_open lg1 (q_key q)" "log_grows lg lg1" "\<forall>k'. file_content lg1 k' = file_content lg k'"
    using get_or_open_grows [where can_open = can_open, OF lg o] by blast
  then have "logger_ok lg1" by (simp add: log_grows_def)
  with l show ?thesis
    using write_file_ok [of lg1 "q_key q"] by (auto simp: log_raw_query_def log_grows_def request_user_def)
qed

lemma monitor_query_appends:
  assumes lg: "logger_ok lg" and o: "\<And>path. le_can_open env path"
    and m: "monitor_query env lg m valid v = Inr lg'"
  shows "logger_ok lg' \<and> (\<forall>k. file_content lg' k = file_content lg k @
    (if gm_needed m \<and> k = q_key (gm_query m)
     then entry_bytes (logged_bytes env (gm_query m) (gm_policy m) valid v) else []))"
proof (cases "gm_needed m")
  case True
  with m log_encoded_query_appends [where can_open = "le_can_open env" and locked = "le_locked env" and cipher = "le_cipher env"
      and t = "le_now env" and q = "gm_query m" and p = "gm_policy m" and valid = valid and v = v, OF lg o]
  show ?thesis by (auto simp: monitor_query_def logged_bytes_def log_grows_def)
next
  case False
  with m lg show ?thesis by (simp add: monitor_query_def)
qed

text \<open>The regulator reads without changing the content of any log.\<close>

definition log_same :: "logger \<Rightarrow> logger \<Rightarrow> bool" where
  "log_same lg lg' \<longleftrightarrow> logger_ok lg' \<and> (\<forall>k. file_content lg' k = file_content lg k)"

lemma log_same_refl: "logger_ok lg \<Longrightarrow> log_same lg lg"
  by (simp add: log_same_def)

lemma log_decode_same:
  assumes "logger_ok lg" "\<And>path. can_open path" "log_decode locked can_open stale cipher lg name thres = Inr (es, lg')"
  shows "log_same lg lg'"
proof (cases "lg_fs lg name")
  case None
  with assms show ?thesis by (simp add: log_decode_def log_same_refl)
next
  case (Some c)
  let ?k = "extract_key_from_filename name"
  obtain lg1 where "get_or_open_log_stream locked can_open lg ?k = Inr lg1" "is_open lg1 ?k" "log_grows lg lg1"
    "\<forall>k'. file_content lg1 k' = file_content lg k'"
    using get_or_open_grows [where can_open = can_open, OF assms(1,2)] by blast
  with Some assms(3) show ?thesis
    by (auto simp: log_decode_def Let_def bind_result_eq_Inr_iff log_same_def log_grows_def)
qed

lemma read_all_logs_same:
  assumes "\<And>path. re_can_open env path" "logger_ok lg" "read_all_logs env r lg ls resp = Inr (resp', lg')"
  shows "log_same lg lg'"
  using assms(2,3)
proof (induction ls arbitrary: lg resp)
  case Nil
  then show ?case by (simp add: log_same_refl)
next
  case (Cons l ls)
  then obtain es lg1 where l: "read_log env lg r l = Inr (es, lg1)"
    and rest: "read_all_logs env r lg1 ls (resp @ lines_text [''Log file: '' @ l] @ lines_text es) = Inr (resp', lg')"
    by (auto simp: bind_result_eq_Inr_iff)
  have "log_same lg lg1"
    using log_decode_same [where can_open = "re_can_open env", OF Cons.prems(1) assms(1)] l by (simp add: read_log_def)
  then show ?case using Cons.IH [OF _ rest] by (simp add: log_same_def)
qed

lemma handle_get_logs_same:
  assumes "\<And>path. rq_can_open env path" "logger_ok (w_log w)" "handle_get_logs env q p w = (w', Inr r)"
  shows "log_same (w_log w) (w_log w')"
proof -
  have o: "\<And>path. re_can_open (read_env_of env) path" using assms(1) by (simp add: read_env_of_def)
  show ?thesis
    using assms(2,3) read_all_logs_same [OF o assms(2)]
      log_decode_same [where can_open = "re_can_open (read_env_of env)", OF assms(2) o]
    by (auto simp: handle_get_logs_def Let_def log_same_refl read_key_log_def read_log_def bind_result_def
        split: if_splits sum.splits)
qed

section \<open>Entries before effects\<close>

text \<open>
  Whether a request is monitored: the record it read asks for it, or, for a first put, the request or
  else the policy does.
\<close>

definition must_log :: "query \<Rightarrow> default_policy \<Rightarrow> string option \<Rightarrow> bool" where
  "must_log q p res \<longleftrightarrow>
     (case res of
        Some v \<Rightarrow> \<exists>f. gdpr_filter_of (Some v) = Inr f \<and> f_monitor f
      | None \<Rightarrow> q_cmd q = ''put'' \<and> value_or (q_monitor q) (dp_monitor p))"

lemma decide_monitor:
  assumes "decide env q p res = Inr pl"
  shows "pl_monitor pl = Some m \<Longrightarrow> gm_query m = q \<and> gm_policy m = p"
    and "must_log q p res \<longleftrightarrow> (\<exists>m. pl_monitor pl = Some m \<and> gm_needed m)"
  using assms
  by (auto simp: decide_def checked_def plan_of_def must_log_def empty_filter_def bind_result_eq_Inr_iff
      split: if_splits option.splits)

text \<open>The log phase appends the entry of a monitored request to the log of its key, and nothing else.\<close>

lemma log_phase_entry:
  assumes "\<And>path. rq_can_open env path" "logger_ok lg" "decide env' q p res = Inr pl" "log_phase env lg pl = Inr lg'"
  shows "logger_ok lg' \<and> (\<forall>k. file_content lg' k = file_content lg k @
    (if must_log q p res \<and> k = q_key q
     then entry_bytes (logged_bytes (log_env_of env) q p (pl_valid pl) (pl_logged pl)) else []))"
proof (cases "pl_monitor pl")
  case None
  with assms decide_monitor(2) [OF assms(3)] show ?thesis by (simp add: log_phase_def)
next
  case (Some m)
  have "monitor_query (log_env_of env) lg m (pl_valid pl) (pl_logged pl) = Inr lg'"
    using assms(4) Some by (simp add: log_phase_def)
  from monitor_query_appends [OF assms(2) _ this] assms(1) show ?thesis
    using decide_monitor(1) [OF assms(3) Some] decide_monitor(2) [OF assms(3)] Some
    by (simp add: log_env_of_def)
qed

text \<open>
  The entries made so far, as pairs of a thread and the bytes of its entry, the oldest first, and the
  part of them that went to the log of a key.
\<close>

definition entries_for :: "thread list \<Rightarrow> string \<Rightarrow> (nat \<times> string) list \<Rightarrow> string" where
  "entries_for ts k es =
     concat (map (entry_frame \<circ> snd) (filter (\<lambda>(j, x). q_key (fst (request_of (ts ! j))) = k) es))"

definition entries_ok :: "logger \<Rightarrow> 'd pool \<Rightarrow> (nat \<times> string) list \<Rightarrow> bool" where
  "entries_ok lg0 s es \<longleftrightarrow> distinct (map fst es) \<and>
     (\<forall>(j, x)\<in>set es. j < length (po_threads s) \<and> remaining (po_threads s ! j) \<le> 1) \<and>
     (\<forall>k. file_content (po_log s) k = file_content lg0 k @ entries_for (po_threads s) k es)"

text \<open>The entry of a thread that has logged: one, with the bytes of its plan, if the request is monitored.\<close>

definition has_own_entry ::
  "('d, 'c) req_env set \<Rightarrow> (nat \<times> string) list \<Rightarrow> nat \<Rightarrow> query \<Rightarrow> default_policy \<Rightarrow> string option \<Rightarrow> plan \<Rightarrow> bool" where
  "has_own_entry E es i q p res pl \<longleftrightarrow>
     (if must_log q p res
      then \<exists>x. (i, x) \<in> set es \<and> (\<exists>env\<in>E. logged_bytes (log_env_of env) q p (pl_valid pl) (pl_logged pl) = Some x)
      else i \<notin> fst ` set es)"

lemma own_entry:
  assumes "distinct (map fst es)" "has_own_entry E es i q p res pl"
  shows "must_log q p res \<longleftrightarrow> i \<in> fst ` set es"
    and "(i, x) \<in> set es \<Longrightarrow> \<exists>env\<in>E. logged_bytes (log_env_of env) q p (pl_valid pl) (pl_logged pl) = Some x"
proof -
  show "must_log q p res \<longleftrightarrow> i \<in> fst ` set es" using assms(2) by (force simp: has_own_entry_def split: if_splits)
  assume x: "(i, x) \<in> set es"
  then have "i \<in> fst ` set es" by (metis fst_conv image_eqI)
  then obtain y where "(i, y) \<in> set es" "\<exists>env\<in>E. logged_bytes (log_env_of env) q p (pl_valid pl) (pl_logged pl) = Some y"
    using assms(2) by (auto simp: has_own_entry_def split: if_splits)
  with eq_key_imp_eq_value [OF assms(1) x] show "\<exists>env\<in>E. logged_bytes (log_env_of env) q p (pl_valid pl) (pl_logged pl) = Some x"
    by simp
qed

lemma single_entry:
  assumes "distinct (map fst es)" "\<forall>(j, x)\<in>set es. j = i" "i \<in> fst ` set es"
  shows "\<exists>x. es = [(i, x)]"
proof -
  have "set (map fst es) = {i}" using assms(2,3) by auto
  then have "length (map fst es) = 1" using distinct_card [OF assms(1)] by simp
  then obtain a where "es = [a]" by (auto simp: length_Suc_conv)
  with assms(3) show ?thesis by (cases a) simp
qed

definition log_inv :: "('d, 'c) req_env set \<Rightarrow> logger \<Rightarrow> 'd pool \<Rightarrow> (nat \<times> string) list \<Rightarrow> bool" where
  "log_inv E lg0 s es \<longleftrightarrow> logger_ok (po_log s) \<and> entries_ok lg0 s es \<and>
     (\<forall>i q p res pl. i < length (po_threads s) \<and> po_threads s ! i = Logged q p res pl \<longrightarrow> has_own_entry E es i q p res pl)"

lemma entries_for_update:
  assumes "i < length ts" "request_of t = request_of (ts ! i)"
  shows "entries_for (ts[i := t]) k es = entries_for ts k es"
proof -
  have "request_of (ts[i := t] ! j) = request_of (ts ! j)" for j
    using assms by (cases "j = i") simp_all
  then show ?thesis by (simp add: entries_for_def)
qed

lemma entries_for_append:
  "entries_for ts k (es @ [(i, x)]) =
     entries_for ts k es @ (if q_key (fst (request_of (ts ! i))) = k then entry_frame x else [])"
  by (simp add: entries_for_def)

text \<open>A step that logs nothing keeps the entries, and one that logs adds its own.\<close>

lemma log_inv_advance:
  assumes s: "log_inv E lg0 s es" "at_thread s i t" and t': "request_of t' = request_of t" "remaining t' \<le> remaining t"
    and n: "\<And>q p res pl. t' \<noteq> Logged q p res pl" and lg: "log_same (po_log s) (po_log s')"
    and s': "po_threads s' = (po_threads s)[i := t']"
  shows "log_inv E lg0 s' es"
proof -
  have i: "i < length (po_threads s)" "po_threads s ! i = t" using s(2) by (auto simp: at_thread_def)
  have "entries_ok lg0 s' es"
    using s(1) i t' lg s' entries_for_update [OF i(1), of t']
    by (auto simp: log_inv_def entries_ok_def log_same_def nth_list_update split: prod.splits)
  moreover have "has_own_entry E es j q p res pl" if "j < length (po_threads s')" "po_threads s' ! j = Logged q p res pl" for j q p res pl
    using s(1) that i(1) n s' by (cases "j = i") (auto simp: log_inv_def)
  ultimately show ?thesis using lg by (simp add: log_inv_def log_same_def)
qed

lemma log_inv_log:
  assumes s: "log_inv E lg0 s es" "at_thread s i (Planned q p res pl)" and e: "env \<in> E" "\<And>path. rq_can_open env path"
    and x: "logged_bytes (log_env_of env) q p (pl_valid pl) (pl_logged pl) = Some x"
    and d: "decide env' q p res = Inr pl" "log_phase env (po_log s) pl = Inr lg"
    and s': "po_threads s' = (po_threads s)[i := Logged q p res pl]" "po_log s' = lg"
    and es': "es' = (if must_log q p res then es @ [(i, x)] else es)"
  shows "log_inv E lg0 s' es'"
proof -
  have i: "i < length (po_threads s)" "po_threads s ! i = Planned q p res pl" using s(2) by (auto simp: at_thread_def)
  have ok: "logger_ok (po_log s)" "entries_ok lg0 s es" using s(1) by (auto simp: log_inv_def)
  note l = log_phase_entry [OF e(2) ok(1) d, unfolded x entry_bytes_def option.case]
  have new: "i \<notin> fst ` set es" using ok(2) i by (fastforce simp: entries_ok_def)
  have "file_content lg k = file_content lg0 k @ entries_for (po_threads s') k es'" for k
    using l ok(2) i es' s'(1) entries_for_update [OF i(1), of "Logged q p res pl"]
    by (auto simp: entries_ok_def entries_for_append)
  moreover have "\<forall>(j, y)\<in>set es'. j < length (po_threads s') \<and> remaining (po_threads s' ! j) \<le> 1"
    using ok(2) i(1) s'(1) es' by (auto simp: entries_ok_def nth_list_update split: if_splits)
  ultimately have "entries_ok lg0 s' es'"
    using ok(2) new es' s'(2) by (auto simp: entries_ok_def image_iff)
  moreover have "has_own_entry E es' j q' p' res' pl'"
    if j: "j < length (po_threads s')" "po_threads s' ! j = Logged q' p' res' pl'" for j q' p' res' pl'
  proof (cases "j = i")
    case True
    then show ?thesis using j i(1) s'(1) es' x e(1) new by (auto simp: has_own_entry_def)
  next
    case False
    then have "has_own_entry E es j q' p' res' pl'" using s(1) j s'(1) by (simp add: log_inv_def)
    with False es' show ?thesis by (auto simp: has_own_entry_def)
  qed
  ultimately show ?thesis using l s'(2) by (simp add: log_inv_def)
qed

definition entries_encrypt :: "('d, 'c) req_env set \<Rightarrow> bool" where
  "entries_encrypt E \<longleftrightarrow> (\<forall>env\<in>E. \<forall>q p valid v. logged_bytes (log_env_of env) q p valid v \<noteq> None)"

lemma pool_step_log_inv:
  assumes E: "\<And>env path. env \<in> E \<Longrightarrow> rq_can_open env path" "entries_encrypt E" and s: "log_inv E lg0 s es"
    and ok: "\<forall>t\<in>set (po_threads s). thread_ok E D t" and step: "pool_step E s s'"
  shows "\<exists>es'. log_inv E lg0 s' es'"
proof -
  have lg: "logger_ok (po_log s)" using s by (simp add: log_inv_def)
  note same = log_inv_advance [OF s, where s' = s'] and refl = log_same_refl [OF lg]
  from step show ?thesis
  proof cases
    case (step_log i q p res pl env lg')
    have "was_decided E q p res pl" using ok step_log(2) unfolding at_thread_def by (metis nth_mem thread_ok.simps(3))
    then obtain env' where "env' \<in> E" and d: "decide env' q p res = Inr pl" by (auto simp: was_decided_def)
    obtain x where x: "logged_bytes (log_env_of env) q p (pl_valid pl) (pl_logged pl) = Some x"
      using E(2) step_log(3) by (fastforce simp: entries_encrypt_def)
    from log_inv_log [OF s step_log(2,3) E(1) [OF step_log(3)] x d step_log(4), of s'] step_log(1)
    show ?thesis by (auto simp: advance_def)
  next
    case (step_logs i q p env w r)
    have "log_same (po_log s) (w_log w)"
      using handle_get_logs_same [OF E(1) [OF step_logs(4)] _ step_logs(5)] lg by simp
    then show ?thesis using same [OF step_logs(2), of "Finished q p r"] step_logs(1) by (auto simp: advance_def)
  next
    case (step_read i q p env res)
    then show ?thesis using same [OF step_read(2), of "Has_read q p res"] refl by (auto simp: advance_def)
  next
    case (step_decide i q p res env pl)
    then show ?thesis using same [OF step_decide(2), of "Planned q p res pl"] refl by (auto simp: advance_def)
  next
    case (step_act i q p res pl env r d)
    then show ?thesis using same [OF step_act(2), of "Finished q p r"] refl by (auto simp: advance_def)
  next
    case (step_other i q p)
    then show ?thesis using same [OF step_other(2), of "Finished q p INVALID_COMMAND"] refl by (auto simp: advance_def)
  qed (use s in \<open>auto simp: log_inv_def entries_ok_def\<close>)
qed

lemma pool_run_log_inv:
  assumes E: "\<And>env path. env \<in> E \<Longrightarrow> rq_can_open env path" "entries_encrypt E" and s0: "logger_ok (po_log s0)"
    and ready: "\<forall>t\<in>set (po_threads s0). \<exists>q p. t = Ready q p" and run: "pool_run E s0 ds s"
  shows "\<exists>es. log_inv E (po_log s0) s es"
  using run
proof induction
  case run_start
  have "log_inv E (po_log s0) s0 []"
    using s0 ready by (force simp: log_inv_def entries_ok_def entries_for_def dest: nth_mem)
  then show ?case by blast
next
  case (run_step ds s s')
  have "\<forall>t\<in>set (po_threads s). thread_ok E (set ds) t" using pool_run_ok [OF run_step.hyps(1) ready] by blast
  then show ?case using pool_step_log_inv [OF E] run_step by blast
qed

end
