(* ===== verification/Accountability.thy ===== *)
theory Accountability
  imports Session_Refinement Audit_Interleaving
begin

text \<open>
  Whole sessions, seen by the data subject and by the regulator. Accountability: every access of a
  session to a monitored record is a line of what the regulator reads afterwards. Traceback: what a
  session reads was put there by an earlier request of the session, or was there before it.

  \<open>session_accesses\<close> is the list of accesses a session makes to a key, computed from the requests alone;
  \<open>only_reads\<close> says that no request of the session may write the key, by its command or because the record
  does not permit it. A granted write leaves an entry with a record, which the regulator cannot read.
\<close>

section \<open>The log of one request\<close>

text \<open>A request touches no log but that of its key.\<close>

lemma monitor_query_elsewhere:
  assumes "logger_ok lg" "\<And>path. le_can_open env path" "monitor_query env lg m valid v = Inr lg'" "q_key (gm_query m) \<noteq> k"
  shows "file_content lg' k = file_content lg k"
  using assms log_encoded_query_appends [OF assms(1), where can_open = "le_can_open env" and locked = "le_locked env"
      and cipher = "le_cipher env" and t = "le_now env" and q = "gm_query m" and p = "gm_policy m" and valid = valid and v = v]
  by (auto simp: monitor_query_def split: if_splits)

lemma log_env_can_open: "le_can_open (log_env_of env) = rq_can_open env"
  by (simp add: log_env_of_def)

lemma decide_monitors_request:
  "decide env q p res = Inr pl \<Longrightarrow> pl_monitor pl = Some m \<Longrightarrow> gm_query m = q"
  by (auto simp: decide_def checked_def plan_of_def answer_with_def bind_result_eq_Inr_iff split: option.splits if_splits)

lemma dispatch_logs_own_key:
  assumes "logger_ok (w_log w)" "\<forall>path. rq_can_open env path"
    and "q_cmd q = ''getlogs'' \<longrightarrow> request_user q p \<noteq> regulator_key"
    and "q_key q \<noteq> k \<or> q_cmd q \<notin> database_commands" "dispatch env q p w = (w', r)"
  shows "file_content (w_log w') k = file_content (w_log w) k"
proof (cases "q_cmd q \<in> database_commands")
  case True
  have l: "file_content lg k = file_content (w_log w) k" if "decide env q p res = Inr pl" "log_phase env (w_log w) pl = Inr lg" for res pl lg
    using that decide_monitors_request [OF that(1)] assms(1,2,4) True
      monitor_query_elsewhere [where env = "log_env_of env" and lg = "w_log w" and lg' = lg and k = k]
    by (auto simp: log_phase_def log_env_can_open split: option.splits)
  then show ?thesis
    using assms(5) dispatch_phases [OF True, of env p w]
    by (auto simp: phases_def then_do_def split: sum.splits prod.splits)
next
  case False
  then show ?thesis
    using assms(3,5) by (auto simp: dispatch_def database_commands_def handle_get_logs_refused split: if_splits)
qed

section \<open>Accountability\<close>

fun session_accesses ::
  "(nat \<Rightarrow> ('d, 'c) req_env) \<Rightarrow> default_policy \<Rightarrow> gdpr_filter \<Rightarrow> string \<Rightarrow> nat \<Rightarrow> query list \<Rightarrow> (int \<times> string \<times> string \<times> bool) list" where
  "session_accesses envs p f k i [] = []"
| "session_accesses envs p f k i (q # qs) =
     (if q_key q = k \<and> q_cmd q \<in> database_commands
      then [(rq_log_now (envs i), request_user q p, q_cmd q, permitted (rq_check_now (envs i)) f q p)] else []) @
     session_accesses envs p f k (Suc i) qs"

definition reads_only :: "('d, 'c) req_env \<Rightarrow> default_policy \<Rightarrow> gdpr_filter \<Rightarrow> string \<Rightarrow> query \<Rightarrow> bool" where
  "reads_only env p f k q \<longleftrightarrow> q_key q \<noteq> k \<or> q_cmd q \<in> {''get'', ''getm''} \<or> \<not> permitted (rq_check_now env) f q p"

fun only_reads :: "(nat \<Rightarrow> ('d, 'c) req_env) \<Rightarrow> default_policy \<Rightarrow> gdpr_filter \<Rightarrow> string \<Rightarrow> nat \<Rightarrow> query list \<Rightarrow> bool" where
  "only_reads envs p f k i [] \<longleftrightarrow> True"
| "only_reads envs p f k i (q # qs) \<longleftrightarrow> reads_only (envs i) p f k q \<and> only_reads envs p f k (Suc i) qs"

lemma spec_step_keeps_record:
  assumes "spec_step (rq_check_now env) t p st q r st'" "st k = Some (f, v)" "reads_only env p f k q"
  shows "st' k = Some (f, v)"
  using assms by cases (auto simp: reads_only_def spec_access_def split: if_splits)

lemma access_entry_request:
  "access_entry (t, request_user q p, q_cmd q, ok) = request_entry t q p ok []"
  by (simp add: access_entry_def request_entry_def)

lemma small_access_entry:
  "small_request p q \<Longrightarrow> length (request_entry t q p ok []) < 2 ^ 31"
  by (cases "q_user_key q")
    (auto simp: request_entry_def encode_entry_def request_user_def small_request_def query_within_def policy_within_def max_msg_size_def)

text \<open>The log cipher of a build, and the environments whose requests draw a vector for it.\<close>

definition log_cipher_of :: "('d, 'c) kv_env \<Rightarrow> ('c openssl \<times> cipher_engine) option" where
  "log_cipher_of kv = (if ke_encryption kv then Some (ke_ossl kv, ke_engine kv) else None)"

definition draws_log_iv :: "('d, 'c) req_env \<Rightarrow> bool" where
  "draws_log_iv env \<longleftrightarrow> (\<exists>iv. rq_log_iv env = Some iv \<and> length iv = initialization_vector_len)"

lemma le_cipher_of:
  "rq_log_iv env = Some iv \<Longrightarrow> le_cipher (log_env_of env) = request_cipher (log_cipher_of (rq_kv env)) iv"
  by (simp add: log_env_of_def request_cipher_def log_cipher_of_def)

lemma re_cipher_of: "re_cipher (read_env_of env) = log_cipher_of (rq_kv env)"
  by (simp add: read_env_of_def log_cipher_of_def)

lemma audited_trail:
  assumes "audited env lg True q p ok [] lg'" "audit_trail (log_cipher_of (rq_kv env)) lg (q_key q) es"
    and "draws_log_iv env" "logged_bytes (log_env_of env) q p ok [] \<noteq> None" "small_request p q"
  shows "audit_trail (log_cipher_of (rq_kv env)) lg' (q_key q) (es @ [access_entry (rq_log_now env, request_user q p, q_cmd q, ok)])"
proof -
  obtain iv where iv: "rq_log_iv env = Some iv" "length iv = initialization_vector_len" using assms(3) by (auto simp: draws_log_iv_def)
  show ?thesis
    using extend_trail [OF assms(2) _ _ le_cipher_of [OF iv(1)] iv(2) _ small_access_entry [OF assms(5)], of lg' True ok] assms(1,4)
    by (simp add: audited_def access_entry_request log_env_of_def)
qed

context gdpr_store_live
begin

lemma access_logged:
  assumes kv: "rq_kv renv = env" and w: "store_inv (w_db w)" "store_key (q_key q)" "represents (pairs (w_db w)) st"
    and l: "log_ready renv (w_log w) q p" and st: "st (q_key q) = Some (f, v)"
    and q: "q_cmd q \<in> database_commands" "reads_only renv p f (q_key q) q"
    and d: "dispatch renv q p w = (w', Inr r)"
  shows "audited renv (w_log w) (f_monitor f) q p (permitted (rq_check_now renv) f q p) [] (w_log w')"
proof -
  have a: "spec_access (rq_check_now renv) st q p \<noteq> None \<longleftrightarrow> permitted (rq_check_now renv) f q p"
    using st by (simp add: spec_access_def)
  consider "q_cmd q = ''get''" | "q_cmd q = ''getm''" | "q_cmd q \<in> {''put'', ''putm'', ''delete''}" "\<not> permitted (rq_check_now renv) f q p"
    using q by (auto simp: database_commands_def reads_only_def)
  then show ?thesis
  proof cases
    case 1
    then show ?thesis using get_refines [OF kv w l, unfolded a] d st by (auto simp: dispatch_def)
  next
    case 2
    then show ?thesis using getm_refines [OF kv w l, unfolded a] d st by (auto simp: dispatch_def)
  next
    case 3
    then show ?thesis using refused_writes [OF kv w l st 3(2)] d by (auto simp: dispatch_def)
  qed
qed

lemma session_trail:
  assumes envs: "\<forall>i. session_env env (envs i) \<and> draws_log_iv (envs i)"
    and qs: "\<forall>q\<in>set qs. session_request p q \<and> small_request p q \<and> (q_cmd q \<in> database_commands \<longrightarrow> store_key (q_key q))"
    and sv: "\<And>v. length v < 2 ^ 29 \<Longrightarrow> store_val v" and f: "f_monitor f" and reads: "only_reads envs p f k i qs"
    and w: "store_inv (w_db w)" "represents (pairs (w_db w)) st" "logger_ok (w_log w)" "session_state st" "st k = Some (f, v)"
      "audit_trail (log_cipher_of env) (w_log w) k (map access_entry as)"
  shows "\<exists>w' rs. run_requests (\<lambda>i q w. dispatch (envs i) q p w) i w qs = (w', Inr rs) \<and> logger_ok (w_log w') \<and>
    audit_trail (log_cipher_of env) (w_log w') k (map access_entry (as @ session_accesses envs p f k i qs))"
  using qs reads w
proof (induction qs arbitrary: i w st as)
  case Nil
  then show ?case by simp
next
  case (Cons q qs)
  have e: "session_env env (envs i)" "draws_log_iv (envs i)" "rq_kv (envs i) = env" using envs by (auto simp: session_env_def)
  have q: "session_request p q" "small_request p q" "q_cmd q \<in> database_commands \<Longrightarrow> store_key (q_key q)" using Cons.prems(1) by auto
  obtain w1 r st1 where 1: "dispatch (envs i) q p w = (w1, Inr r)"
    "spec_step (rq_check_now (envs i)) (rq_rewrite_now (envs i)) p st q r st1" "store_inv (w_db w1)"
    "represents (pairs (w_db w1)) st1" "session_state st1" "logger_ok (w_log w1)"
    using dispatch_refines [OF e(1) q sv Cons.prems(3,4,5,6)] by (auto simp: refines_step_def)
  have st1: "st1 k = Some (f, v)" using spec_step_keeps_record [OF 1(2) Cons.prems(7)] Cons.prems(2) by simp
  let ?a = "if q_key q = k \<and> q_cmd q \<in> database_commands
      then [(rq_log_now (envs i), request_user q p, q_cmd q, permitted (rq_check_now (envs i)) f q p)] else []"
  have "audit_trail (log_cipher_of env) (w_log w1) k (map access_entry (as @ ?a))"
  proof (cases "q_key q = k \<and> q_cmd q \<in> database_commands")
    case True
    note l = session_log_ready [OF e(1) Cons.prems(5), of q p]
    have "audited (envs i) (w_log w) True q p (permitted (rq_check_now (envs i)) f q p) [] (w_log w1)"
      using access_logged [OF e(3) Cons.prems(3) q(3) Cons.prems(4) l _ _ _ 1(1)] True Cons.prems(2,7) f by simp
    from audited_trail [OF this _ e(2) _ q(2)] True Cons.prems(8) l e(3) show ?thesis by (simp add: log_ready_def)
  next
    case False
    then have "file_content (w_log w1) k = file_content (w_log w) k"
      using dispatch_logs_own_key [OF Cons.prems(5) _ _ _ 1(1)] e(1) q(1)
      by (auto simp: session_env_def session_request_def)
    with False Cons.prems(8) show ?thesis by (auto simp: audit_trail_def)
  qed
  from Cons.IH [OF _ _ 1(3,4,6,5) st1 this, of "Suc i"] Cons.prems(1,2) 1(1) show ?case by auto
qed

end

lemma session_accesses_known: "a \<in> set (session_accesses envs p f k i qs) \<Longrightarrow> known_access a"
  by (induction qs arbitrary: i) (auto simp: known_access_def database_commands_def split: if_splits)

text \<open>
  C11. Accountability, from the requests of a session to the regulator: let the record of a key be
  monitored, let the session not get to write it (no request for it is a put, a putm or a deletion that
  the record permits), and let the key's log be missing or hold only accesses without a new value. Then
  the regulator's getLogs for the key after the session reports exactly the earlier accesses and those
  of the session to that key, granted or refused, one line each and in order, with the time, the user,
  the operation and the verdict, whatever requests to other keys are in between. The store answers, with
  or without encryption; the requests are those of \<open>session_request\<close>, short enough for a message, with
  keys the store carries; log files open and entries encrypt; the key has no slash and no dot and is
  none of the two words of the regulator; the logged users have no log delimiter and the times are not
  later than the read; the dangling view of the operation's name still reads as it did. (A log that
  holds a written record cannot be read at all.)
\<close>

theorem session_accesses_reported:
  assumes store: "gdpr_store_live kv pairs ok key_ok val_ok" "\<forall>v. length v < 2 ^ 29 \<longrightarrow> val_ok v"
    and envs: "\<forall>i. session_env kv (envs i) \<and> draws_log_iv (envs i)" "cipher_ok (log_cipher_of kv)"
    and qs: "\<forall>q\<in>set qs. session_request p q \<and> small_request p q \<and> (q_cmd q \<in> database_commands \<longrightarrow> key_ok (q_key q))"
    and w: "ok (w_db w)" "represents (pairs (w_db w)) st" "session_state st" "logger_ok (w_log w)"
      "audit_trail (log_cipher_of kv) (w_log w) k (map access_entry as)"
    and rec: "st k = Some (f, v)" "f_monitor f" "only_reads envs p f k 0 qs"
    and key: "loggable_key k" "k \<noteq> ''read_all''" "k \<noteq> ''dir''"
    and accesses: "\<forall>a\<in>set as. known_access a"
      "\<forall>a\<in>set (as @ session_accesses envs p f k 0 qs). readable_access (rq_check_now renv) a"
    and reg: "rq_kv renv = kv" "\<forall>path. rq_can_open renv path" "rq_stale renv = (\<lambda>s. s)"
      "q_log_key ql = k" "request_user ql pr = regulator_key"
  shows "\<exists>w' responses lg'. run_requests (\<lambda>i q w. dispatch (envs i) q p w) 0 w qs = (w', Inr responses) \<and>
    lg_fs lg' = lg_fs (w_log w') \<and>
    handle_get_logs renv ql pr w' = (w'\<lparr>w_log := lg'\<rparr>,
      Inr (lines_text ((''Reading the log file of key '' @ k @ '':'') #
        map report_line (as @ session_accesses envs p f k 0 qs))))"
proof -
  let ?as = "as @ session_accesses envs p f k 0 qs"
  obtain w' rs where s: "run_requests (\<lambda>i q w. dispatch (envs i) q p w) 0 w qs = (w', Inr rs)" "logger_ok (w_log w')"
    "audit_trail (log_cipher_of kv) (w_log w') k (map access_entry ?as)"
    using gdpr_store_live.session_trail [OF store(1) envs(1) qs _ rec(2,3) w(1,2,4,3) rec(1) w(5)] store(2) by blast
  have c: "re_cipher (read_env_of renv) = log_cipher_of kv" using reg(1) by (simp add: re_cipher_of)
  have a: "\<forall>a\<in>set ?as. readable_access (rq_check_now renv) a \<and> known_access a"
    using accesses session_accesses_known by fastforce
  obtain lg' where "lg_fs lg' = lg_fs (w_log w')" "handle_get_logs renv ql pr w' = (w'\<lparr>w_log := lg'\<rparr>,
      Inr (lines_text ((''Reading the log file of key '' @ k @ '':'') # map report_line ?as)))"
    using handle_get_logs_accesses [where env = renv and q = ql and w = w' and p = pr, unfolded c reg(4),
        OF s(2) key(1) s(3) envs(2) _ reg(3) a reg(5) key(2,3)] reg(2) by blast
  with s(1) show ?thesis by blast
qed

definition monitored_filter :: gdpr_filter where
  "monitored_filter = demo_filter\<lparr>f_monitor := True\<rparr>"

lemma monitored_filter_facts:
  "wf_filter monitored_filter" "f_monitor monitored_filter" "small_filter monitored_filter"
  "permitted now monitored_filter (demo_query cmd) empty_policy"
  "\<not> permitted now monitored_filter (demo_query cmd\<lparr>q_user_key := Some ''eve''\<rparr>) empty_policy"
  using demo_filter_wf demo_permitted [of now cmd] demo_stranger [of now cmd]
  by (simp_all add: monitored_filter_def wf_filter_def permitted_def small_filter_def demo_filter_def empty_filter_def max_msg_size_def)

definition demo_session :: "query list" where
  "demo_session = [demo_query ''get'', demo_query ''delete''\<lparr>q_user_key := Some ''eve''\<rparr>]"

lemma demo_session_requests:
  "\<forall>q\<in>set demo_session. session_request empty_policy q \<and> small_request empty_policy q"
  by (simp add: demo_session_def session_request_def query_typed_def clean_request_def clean_putm_def request_user_def
      int32_range_def to_lower_def small_request_def query_within_def policy_within_def max_msg_size_def)
    (simp add: demo_query_def empty_query_def)

theorem session_accesses_reported_witness:
  "\<exists>w' responses lg'. run_requests (\<lambda>i q w. dispatch redis_env q empty_policy w) 0
      (demo_world [''k'' \<mapsto> record_of monitored_filter ''v'']) demo_session = (w', Inr responses) \<and>
    handle_get_logs redis_env audit_query empty_policy w' = (w'\<lparr>w_log := lg'\<rparr>,
      Inr (lines_text [''Reading the log file of key k:'',
        ''Timestamp: '' @ timestamp_to_datetime 0 @ '', User key: u, Operation: get, Result: valid'',
        ''Timestamp: '' @ timestamp_to_datetime 0 @ '', User key: eve, Operation: delete, Result: invalid'']))"
proof -
  let ?w = "demo_world [''k'' \<mapsto> record_of monitored_filter ''v'']" let ?st = "[''k'' \<mapsto> (monitored_filter, ''v'')]"
  have env: "session_env (rq_kv redis_env) redis_env" "draws_log_iv redis_env" "cipher_ok (log_cipher_of (rq_kv redis_env))"
    "rq_log_now redis_env = 0" "rq_check_now redis_env = 0" "rq_stale redis_env = (\<lambda>s. s)" "rq_can_open redis_env path" for path
    using redis_session_env
    by (simp, simp_all add: redis_env_def initialization_vector_len_def draws_log_iv_def log_cipher_of_def plain_env_def cipher_ok_def)
  have as: "session_accesses (\<lambda>i. redis_env) empty_policy monitored_filter ''k'' 0 demo_session =
      [(0, ''u'', ''get'', True), (0, ''eve'', ''delete'', False)]"
    by (simp add: demo_session_def database_commands_def env monitored_filter_facts request_user_def)
  have rd: "only_reads (\<lambda>i. redis_env) empty_policy monitored_filter ''k'' 0 demo_session"
    by (simp add: demo_session_def reads_only_def env monitored_filter_facts)
  have w: "represents (w_db ?w) ?st" "session_state ?st" "w_log ?w = example_logger"
    using monitored_filter_facts(1,3)
    by (auto simp: demo_world_def represents_def session_state_def max_msg_size_def)
  have key: "loggable_key ''k''" by (simp add: loggable_key_def)
  have rds: "\<forall>a\<in>set [(0, ''u'', ''get'', True), (0, ''eve'', ''delete'', False)]. readable_access (rq_check_now redis_env) a"
    by (simp add: readable_access_def int64_range_def log_delimiter_def env)
  have qs: "\<forall>q\<in>set demo_session. session_request empty_policy q \<and> small_request empty_policy q \<and>
      (q_cmd q \<in> database_commands \<longrightarrow> True)"
    using demo_session_requests by simp
  have "\<exists>w' responses lg'. run_requests (\<lambda>i q w. dispatch redis_env q empty_policy w) 0 ?w demo_session = (w', Inr responses) \<and>
      lg_fs lg' = lg_fs (w_log w') \<and>
      handle_get_logs redis_env audit_query empty_policy w' = (w'\<lparr>w_log := lg'\<rparr>,
        Inr (lines_text ((''Reading the log file of key '' @ ''k'' @ '':'') #
          map report_line ([] @ session_accesses (\<lambda>i. redis_env) empty_policy monitored_filter ''k'' 0 demo_session))))"
    by (rule session_accesses_reported [OF redis_env_live_store _ _ env(3) qs, where k = "''k''" and st = ?st and v = "''v''"])
      (use env w key rds audit_query_facts rd as empty_trail example_logger_ok monitored_filter_facts(2) in simp_all)
  then show ?thesis by (auto simp: as report_line_def)
qed

section \<open>Traceback\<close>

text \<open>
  The value of a key after some requests and their responses: that of the last put that reported
  success, none after a deletion that did, and the old one if there was neither.
\<close>

definition write_effect :: "string \<Rightarrow> query \<Rightarrow> string \<Rightarrow> string option \<Rightarrow> string option" where
  "write_effect k q r old =
     (if q_key q = k \<and> q_cmd q = ''put'' \<and> r = PUT_SUCCESS then Some (q_value q)
      else if q_key q = k \<and> q_cmd q = ''delete'' \<and> r = DELETE_SUCCESS then None
      else old)"

fun last_write :: "string \<Rightarrow> query list \<Rightarrow> string list \<Rightarrow> string option \<Rightarrow> string option" where
  "last_write k (q # qs) (r # rs) old = last_write k qs rs (write_effect k q r old)"
| "last_write k _ _ old = old"

lemma spec_step_writes:
  "spec_step c t p st q r st' \<Longrightarrow> map_option snd (st' k) = write_effect k q r (map_option snd (st k))"
  by (induction rule: spec_step.induct)
    (auto simp: write_effect_def response_codes delete_refused_def spec_access_def database_commands_def split: option.splits if_splits)

lemma spec_step_get:
  assumes "spec_step c t p st q r st'" "q_cmd q = ''get''" "r \<noteq> GET_FAILED"
  shows "map_option snd (st (q_key q)) = Some r"
  using assms
  by cases (auto simp: spec_access_def database_commands_def split: option.splits if_splits)

lemma spec_run_reads_last_write:
  assumes "spec_run clock p i st qs rs st'"
  shows "length rs = length qs" "map_option snd (st' k) = last_write k qs rs (map_option snd (st k))"
    and "j < length qs \<Longrightarrow> q_cmd (qs ! j) = ''get'' \<Longrightarrow> rs ! j \<noteq> GET_FAILED \<Longrightarrow>
      last_write (q_key (qs ! j)) (take j qs) (take j rs) (map_option snd (st (q_key (qs ! j)))) = Some (rs ! j)"
  using assms
proof (induction arbitrary: j k)
  case (spec_next i st q r st1 qs rs st')
  {
    case 1
    show ?case using spec_next by simp
  next
    case 2
    show ?case using spec_next spec_step_writes [OF spec_next(1)] by simp
  next
    case 3
    then show ?case
      using spec_next spec_step_writes [OF spec_next(1)] spec_step_get [OF spec_next(1)] by (cases j) auto
  }
qed simp_all

lemma represented_values:
  assumes "represents db st" "session_state st"
  shows "map_option remove_gdpr_metadata (db k) = map_option snd (st k)"
proof (cases "st k")
  case (Some fv)
  then show ?thesis
    using assms session_stateD(1,4) [OF assms(2)] represents_Some [OF assms(1)]
    by (cases fv) (auto simp: represents_def intro!: remove_record)
qed (use assms in \<open>simp add: represents_def\<close>)

text \<open>
  C12. Values come from the puts of the session and nowhere else: over any store that answers, every
  request of a session is answered, a get that does not fail returns the value of the last put of its
  key before it that reported success, with no successful deletion in between, or the value of the key
  before the session if there was no such put; and the store ends with exactly the values of the last
  successful writes. A write that reported failure has no effect on any value, and none has on another
  key. The requests of the session are those of \<open>session_request\<close>: parsed ones, the puts with a value
  that is not empty and has no delimiter, no delimiter in users, origins and shares, a policy expiration
  of 32 bits, and no getLogs of the regulator; with keys the store carries and texts that fit in a
  message. The records before the session are of that kind too, log files open and entries encrypt.
\<close>

theorem session_reads_last_write:
  assumes store: "gdpr_store_live kv pairs ok key_ok val_ok" "\<forall>v. length v < 2 ^ 29 \<longrightarrow> val_ok v"
    and envs: "\<forall>i. session_env kv (envs i)"
    and qs: "\<forall>q\<in>set qs. session_request p q \<and> small_request p q \<and> (q_cmd q \<in> database_commands \<longrightarrow> key_ok (q_key q))"
    and w: "ok (w_db w)" "represents (pairs (w_db w)) st" "session_state st" "logger_ok (w_log w)"
  shows "\<exists>w' rs. run_requests (\<lambda>i q w. dispatch (envs i) q p w) 0 w qs = (w', Inr rs) \<and> length rs = length qs \<and>
    (\<forall>j<length qs. q_cmd (qs ! j) = ''get'' \<and> rs ! j \<noteq> GET_FAILED \<longrightarrow>
      last_write (q_key (qs ! j)) (take j qs) (take j rs)
        (map_option remove_gdpr_metadata (pairs (w_db w) (q_key (qs ! j)))) = Some (rs ! j)) \<and>
    (\<forall>k. map_option remove_gdpr_metadata (pairs (w_db w') k) =
      last_write k qs rs (map_option remove_gdpr_metadata (pairs (w_db w) k)))"
proof -
  obtain w' rs st' where "run_requests (\<lambda>i q w. dispatch (envs i) q p w) 0 w qs = (w', Inr rs)"
    and run: "spec_run (\<lambda>i. (rq_check_now (envs i), rq_rewrite_now (envs i))) p 0 st qs rs st'"
    and st': "represents (pairs (w_db w')) st'" "session_state st'"
    using gdpr_store_live.run_requests_refines [OF store(1) envs qs _ w(1,2,4,3), of 0] store(2) by blast
  then show ?thesis
    using spec_run_reads_last_write [OF run] represented_values [OF w(2,3)] represented_values [OF st'] by auto
qed

text \<open>A put and a get of the same client, run by the handlers.\<close>

definition demo_put_get :: "query list" where
  "demo_put_get = [demo_query ''put'', demo_query ''get'']"

lemma demo_put_get_requests:
  "\<forall>q\<in>set demo_put_get. session_request empty_policy q \<and> small_request empty_policy q \<and> (q_cmd q \<in> database_commands \<longrightarrow> True)"
  using demo_query_session by (simp add: demo_put_get_def database_commands_def)

theorem session_reads_last_write_witness:
  "\<exists>w' rs. run_requests (\<lambda>i q w. dispatch redis_env q empty_policy w) 0 (demo_world Map.empty) demo_put_get = (w', Inr rs) \<and>
    (rs ! 1 = GET_FAILED \<or> rs ! 0 = PUT_SUCCESS \<and> rs ! 1 = ''v'') \<and>
    map_option remove_gdpr_metadata (w_db w' ''k'') = last_write ''k'' demo_put_get rs None"
proof -
  have env: "\<forall>i::nat. session_env (rq_kv redis_env) redis_env" using redis_session_env by simp
  have w: "represents (w_db (demo_world Map.empty)) Map.empty" "session_state Map.empty" "logger_ok (w_log (demo_world Map.empty))"
    using example_logger_ok by (simp_all add: represents_def session_state_def demo_world_def)
  obtain w' rs where run: "run_requests (\<lambda>i q w. dispatch redis_env q empty_policy w) 0 (demo_world Map.empty) demo_put_get = (w', Inr rs)"
    and rs: "length rs = length demo_put_get"
      "\<forall>j<length demo_put_get. q_cmd (demo_put_get ! j) = ''get'' \<and> rs ! j \<noteq> GET_FAILED \<longrightarrow>
        last_write (q_key (demo_put_get ! j)) (take j demo_put_get) (take j rs)
          (map_option remove_gdpr_metadata (w_db (demo_world Map.empty) (q_key (demo_put_get ! j)))) = Some (rs ! j)"
      "\<forall>k. map_option remove_gdpr_metadata (w_db w' k) =
        last_write k demo_put_get rs (map_option remove_gdpr_metadata (w_db (demo_world Map.empty) k))"
    using session_reads_last_write [OF redis_env_live_store _ env demo_put_get_requests _ w] by auto
  then obtain r s where "rs = [r, s]" by (auto simp: demo_put_get_def length_Suc_conv)
  then have "s = GET_FAILED \<or> r = PUT_SUCCESS \<and> s = ''v''"
    using rs(2) by (auto simp: demo_put_get_def write_effect_def demo_world_def dest!: spec [of _ "Suc 0"] split: if_splits)
  with run rs(3) \<open>rs = [r, s]\<close> show ?thesis by (simp add: demo_world_def)
qed

end
