(* ===== verification/Logger_Threads.thy ===== *)
theory Logger_Threads
  imports Audit_Interleaving
begin

text \<open>
  The logger under several threads, at the level of its locks (\<^verbatim>\<open>logging/logger.hpp\<close>). A thread that logs
  gets its stream under the mutex of the stream table, then takes the mutex of the key, looks again
  whether its stream is still open (another thread may have closed it to make room) and gets it again
  if not, writes, and releases the mutex of the key. A thread that reads a log takes the mutex of the
  key first. The mutex of the table is held only inside \<^verbatim>\<open>get_or_open_log_stream\<close>, which never waits for
  another mutex (\<^verbatim>\<open>close_older_fd\<close> tries them), so that call is one step (\<open>get_stream\<close>).

  A stream object is named by its key and the number of its opening: a pointer a thread holds is open
  when the table still has the stream of that number. A write through a pointer to a closed stream is
  lost. The theorems show that this does not happen, that every entry is in its file exactly once and
  in one piece, and that the threads cannot block each other.
\<close>

section \<open>States and steps\<close>

datatype log_thread =
    W_start query default_policy bool string
  | W_stream query default_policy bool string nat
  | W_locked query default_policy bool string nat
  | W_ready query default_policy bool string nat
  | W_written query default_policy bool string "string option"
  | W_done query default_policy bool string "string option"
  | R_start string
  | R_locked string
  | R_open string nat
  | R_read string string
  | R_done string string

record log_state =
  ls_log :: logger
  ls_opened :: "string \<Rightarrow> nat"
  ls_owner :: "string \<Rightarrow> nat option"
  ls_threads :: "log_thread list"

text \<open>The key whose mutex a thread holds.\<close>

fun holds :: "log_thread \<Rightarrow> string option" where
  "holds (W_locked q p ok v n) = Some (q_key q)"
| "holds (W_ready q p ok v n) = Some (q_key q)"
| "holds (W_written q p ok v s) = Some (q_key q)"
| "holds (R_locked k) = Some k"
| "holds (R_open k n) = Some k"
| "holds (R_read k c) = Some k"
| "holds t = None"

definition key_locked :: "log_state \<Rightarrow> string \<Rightarrow> bool" where
  "key_locked s k \<longleftrightarrow> ls_owner s k \<noteq> None"

definition pointer_open :: "log_state \<Rightarrow> string \<Rightarrow> nat \<Rightarrow> bool" where
  "pointer_open s k n \<longleftrightarrow> n = ls_opened s k \<and> is_open (ls_log s) k"

definition get_stream :: "(string \<Rightarrow> bool) \<Rightarrow> log_state \<Rightarrow> string \<Rightarrow> (log_state \<times> nat) result" where
  "get_stream can_open s k =
     bind_result (get_or_open_log_stream (key_locked s) can_open (ls_log s) k) (\<lambda>lg.
       let n = (if is_open (ls_log s) k then ls_opened s k else Suc (ls_opened s k))
       in Inr (s\<lparr>ls_log := lg, ls_opened := (ls_opened s)(k := n)\<rparr>, n))"

definition at_log :: "log_state \<Rightarrow> nat \<Rightarrow> log_thread \<Rightarrow> bool" where
  "at_log s i t \<longleftrightarrow> i < length (ls_threads s) \<and> ls_threads s ! i = t"

definition goto :: "log_state \<Rightarrow> nat \<Rightarrow> log_thread \<Rightarrow> log_state" where
  "goto s i t = s\<lparr>ls_threads := (ls_threads s)[i := t]\<rparr>"

definition take_key :: "log_state \<Rightarrow> nat \<Rightarrow> string \<Rightarrow> log_state" where
  "take_key s i k = s\<lparr>ls_owner := (ls_owner s)(k := Some i)\<rparr>"

definition drop_key :: "log_state \<Rightarrow> string \<Rightarrow> log_state" where
  "drop_key s k = s\<lparr>ls_owner := (ls_owner s)(k := None)\<rparr>"

definition put_bytes :: "log_state \<Rightarrow> string \<Rightarrow> nat \<Rightarrow> string option \<Rightarrow> log_state" where
  "put_bytes s k n bytes =
     (case bytes of
        Some x \<Rightarrow> if pointer_open s k n then s\<lparr>ls_log := write_file (ls_log s) k (entry_frame x)\<rparr> else s
      | None \<Rightarrow> s)"

text \<open>
  \<open>C\<close> holds the encryptions and clock readings a write can meet. A step that would raise has no
  successor; with the invariant below \<open>get_stream\<close> does not.
\<close>

inductive log_step :: "(string \<Rightarrow> bool) \<Rightarrow> ('c log_cipher \<times> int) set \<Rightarrow> log_state \<Rightarrow> log_state \<Rightarrow> bool"
  for can_open C where
  w_get: "\<lbrakk>at_log s i (W_start q p ok v); get_stream can_open s (q_key q) = Inr (s', n)\<rbrakk> \<Longrightarrow>
    log_step can_open C s (goto s' i (W_stream q p ok v n))"
| w_lock: "\<lbrakk>at_log s i (W_stream q p ok v n); \<not> key_locked s (q_key q)\<rbrakk> \<Longrightarrow>
    log_step can_open C s (goto (take_key s i (q_key q)) i (W_locked q p ok v n))"
| w_open: "\<lbrakk>at_log s i (W_locked q p ok v n); pointer_open s (q_key q) n\<rbrakk> \<Longrightarrow>
    log_step can_open C s (goto s i (W_ready q p ok v n))"
| w_reopen: "\<lbrakk>at_log s i (W_locked q p ok v n); \<not> pointer_open s (q_key q) n;
      get_stream can_open s (q_key q) = Inr (s', n')\<rbrakk> \<Longrightarrow>
    log_step can_open C s (goto s' i (W_ready q p ok v n'))"
| w_write: "\<lbrakk>at_log s i (W_ready q p ok v n); (cipher, t) \<in> C;
      bytes = stored_entry cipher (encode_entry t (value_or (q_user_key q) (dp_user_key p)) (operation_result (q_cmd q) ok) v)\<rbrakk> \<Longrightarrow>
    log_step can_open C s (goto (put_bytes s (q_key q) n bytes) i (W_written q p ok v bytes))"
| w_unlock: "at_log s i (W_written q p ok v bytes) \<Longrightarrow>
    log_step can_open C s (goto (drop_key s (q_key q)) i (W_done q p ok v bytes))"
| r_lock: "\<lbrakk>at_log s i (R_start k); \<not> key_locked s k\<rbrakk> \<Longrightarrow>
    log_step can_open C s (goto (take_key s i k) i (R_locked k))"
| r_open: "\<lbrakk>at_log s i (R_locked k); get_stream can_open s k = Inr (s', n)\<rbrakk> \<Longrightarrow>
    log_step can_open C s (goto s' i (R_open k n))"
| r_read: "\<lbrakk>at_log s i (R_open k n); c = (if pointer_open s k n then file_content (ls_log s) k else [])\<rbrakk> \<Longrightarrow>
    log_step can_open C s (goto s i (R_read k c))"
| r_unlock: "at_log s i (R_read k c) \<Longrightarrow> log_step can_open C s (goto (drop_key s k) i (R_done k c))"

inductive_cases log_stepE: "log_step can_open C s s'"

inductive log_run :: "(string \<Rightarrow> bool) \<Rightarrow> ('c log_cipher \<times> int) set \<Rightarrow> log_state \<Rightarrow> log_state \<Rightarrow> bool"
  for can_open C s0 where
  log_start: "log_run can_open C s0 s0"
| log_more: "\<lbrakk>log_run can_open C s0 s; log_step can_open C s s'\<rbrakk> \<Longrightarrow> log_run can_open C s0 s'"

section \<open>Streams that are in use are not closed\<close>

lemma close_loop_keeps_locked:
  "close_loop locked lg seen ks = Inr lg' \<Longrightarrow> locked k \<Longrightarrow> map_of (lg_files lg') k = map_of (lg_files lg) k"
  by (induction ks arbitrary: seen) (auto simp: AList.delete_conv split: if_splits option.splits)

lemma get_or_open_keeps_locked:
  assumes "get_or_open_log_stream locked can_open lg k' = Inr lg'" "locked k" "is_open lg k"
  shows "is_open lg' k"
proof (cases "is_open lg k'")
  case True
  with assms show ?thesis by (simp add: get_or_open_log_stream_def)
next
  case False
  with assms(3) have "k \<noteq> k'" by auto
  moreover obtain lg1 where "lg' = open_stream can_open lg1 k'" "map_of (lg_files lg1) k = map_of (lg_files lg) k"
    using assms False close_loop_keeps_locked [of locked lg "[]"]
    by (auto simp: get_or_open_log_stream_def bind_result_eq_Inr_iff close_older_fd_def split: if_splits)
  ultimately show ?thesis using assms(3) by (simp add: is_open_def open_stream_def Let_def AList.update_conv)
qed

text \<open>What getting a stream does to a consistent state.\<close>

lemma get_stream_ok:
  assumes lg: "logger_ok (ls_log s)" and o: "\<And>path. can_open path"
  shows "\<exists>s' n. get_stream can_open s k = Inr (s', n) \<and> pointer_open s' k n \<and> log_grows (ls_log s) (ls_log s') \<and>
    ls_owner s' = ls_owner s \<and> ls_threads s' = ls_threads s \<and>
    (\<forall>k'. file_content (ls_log s') k' = file_content (ls_log s) k') \<and>
    (\<forall>k' n'. key_locked s k' \<longrightarrow> pointer_open s k' n' \<longrightarrow> pointer_open s' k' n')"
proof -
  obtain lg' where l: "get_or_open_log_stream (key_locked s) can_open (ls_log s) k = Inr lg'" "is_open lg' k"
    "log_grows (ls_log s) lg'" "\<forall>k'. file_content lg' k' = file_content (ls_log s) k'"
    using get_or_open_grows [where can_open = can_open, OF lg o] by blast
  let ?n = "if is_open (ls_log s) k then ls_opened s k else Suc (ls_opened s k)"
  let ?s = "s\<lparr>ls_log := lg', ls_opened := (ls_opened s)(k := ?n)\<rparr>"
  have "pointer_open ?s k' n'" if "key_locked s k'" "pointer_open s k' n'" for k' n'
    using that get_or_open_keeps_locked [OF l(1) that(1)] by (auto simp: pointer_open_def)
  moreover have "get_stream can_open s k = Inr (?s, ?n)" using l(1) by (simp add: get_stream_def Let_def)
  moreover have "pointer_open ?s k ?n" using l(2) by (simp add: pointer_open_def)
  ultimately show ?thesis using l(3,4) by (intro exI [of _ ?s] exI [of _ ?n]) simp
qed

lemma put_bytes_ok:
  assumes "logger_ok (ls_log s)" "pointer_open s k n"
  shows "logger_ok (ls_log (put_bytes s k n b))" "lg_dir (ls_log (put_bytes s k n b)) = lg_dir (ls_log s)"
    "pointer_open (put_bytes s k n b) k' n' = pointer_open s k' n'"
    "file_content (ls_log (put_bytes s k n b)) k' = file_content (ls_log s) k' @ (if k' = k then entry_bytes b else [])"
    "ls_owner (put_bytes s k n b) = ls_owner s" "ls_threads (put_bytes s k n b) = ls_threads s"
  using assms write_file_ok [OF assms(1), of k]
  by (auto simp: put_bytes_def pointer_open_def entry_bytes_def split: option.splits)

section \<open>The invariant\<close>

text \<open>The mutex of a key has the owner that holds it.\<close>

definition owners_ok :: "log_state \<Rightarrow> bool" where
  "owners_ok s \<longleftrightarrow>
     (\<forall>i k. i < length (ls_threads s) \<and> holds (ls_threads s ! i) = Some k \<longleftrightarrow> ls_owner s k = Some i)"

lemma owners_goto:
  assumes "owners_ok s" "at_log s i t" "holds t' = holds t" "ls_owner s' = ls_owner s" "ls_threads s' = ls_threads s"
  shows "owners_ok (goto s' i t')"
  using assms by (auto simp: owners_ok_def at_log_def goto_def nth_list_update split: if_splits)

lemma owners_take:
  assumes "owners_ok s" "at_log s i t" "holds t = None" "holds t' = Some k" "\<not> key_locked s k"
  shows "owners_ok (goto (take_key s i k) i t')"
  using assms
  by (auto simp: owners_ok_def at_log_def goto_def take_key_def key_locked_def nth_list_update split: if_splits)
    (metis option.distinct(1))

lemma owners_drop:
  assumes "owners_ok s" "at_log s i t" "holds t = Some k" "holds t' = None"
  shows "owners_ok (goto (drop_key s k) i t')"
proof -
  have k: "ls_owner s k = Some i" using assms(1-3) by (auto simp: owners_ok_def at_log_def)
  show ?thesis
    using assms k
    by (auto simp: owners_ok_def at_log_def goto_def drop_key_def nth_list_update split: if_splits) (metis option.inject)
qed

text \<open>A pointer that was checked under the mutex of its key is open.\<close>

fun checked_pointer :: "log_thread \<Rightarrow> (string \<times> nat) option" where
  "checked_pointer (W_ready q p ok v n) = Some (q_key q, n)"
| "checked_pointer (R_open k n) = Some (k, n)"
| "checked_pointer t = None"

lemma checked_pointer_holds: "checked_pointer t = Some (k, n) \<Longrightarrow> holds t = Some k"
  by (cases t) auto

definition pointers_ok :: "log_state \<Rightarrow> bool" where
  "pointers_ok s \<longleftrightarrow> (\<forall>t\<in>set (ls_threads s). \<forall>k n. checked_pointer t = Some (k, n) \<longrightarrow> pointer_open s k n)"

lemma pointers_goto:
  assumes "pointers_ok s" "ls_threads s' = ls_threads s"
    and "\<And>t k n. \<lbrakk>t \<in> set (ls_threads s); checked_pointer t = Some (k, n); pointer_open s k n\<rbrakk> \<Longrightarrow> pointer_open s' k n"
    and "\<And>k n. checked_pointer t' = Some (k, n) \<Longrightarrow> pointer_open s' k n"
  shows "pointers_ok (goto s' i t')"
proof -
  have "pointer_open s' k n" if "t \<in> set ((ls_threads s)[i := t'])" "checked_pointer t = Some (k, n)" for t k n
    using that set_update_subset_insert [of "ls_threads s" i t'] assms by (auto simp: pointers_ok_def)
  then show ?thesis using assms(2) by (simp add: pointers_ok_def goto_def pointer_open_def)
qed

lemma checked_is_locked:
  assumes "owners_ok s" "t \<in> set (ls_threads s)" "checked_pointer t = Some (k, n)"
  shows "key_locked s k"
  using assms checked_pointer_holds [OF assms(3)] by (auto simp: owners_ok_def key_locked_def in_set_conv_nth)

text \<open>The files hold what they held at the start and then the entries that were written, each once.\<close>

fun thread_entries :: "string \<Rightarrow> log_thread \<Rightarrow> string list" where
  "thread_entries k (W_written q p ok v b) = (if q_key q = k then (case b of Some x \<Rightarrow> [x] | None \<Rightarrow> []) else [])"
| "thread_entries k (W_done q p ok v b) = (if q_key q = k then (case b of Some x \<Rightarrow> [x] | None \<Rightarrow> []) else [])"
| "thread_entries k t = []"

definition entries_of :: "string \<Rightarrow> log_thread list \<Rightarrow> string multiset" where
  "entries_of k ts = mset (concat (map (thread_entries k) ts))"

lemma entries_of_update:
  assumes "i < length ts" "mset (thread_entries k t) = mset (thread_entries k (ts ! i)) + d"
  shows "entries_of k (ts[i := t]) = entries_of k ts + d"
  using assms
proof (induction ts arbitrary: i)
  case (Cons u ts)
  then show ?case by (cases i) (auto simp: entries_of_def)
qed simp

definition files_ok :: "logger \<Rightarrow> log_state \<Rightarrow> bool" where
  "files_ok lg0 s \<longleftrightarrow> (\<forall>k. \<exists>es. file_content (ls_log s) k = file_content lg0 k @ concat (map entry_frame es) \<and>
     mset es = entries_of k (ls_threads s))"

lemma files_goto:
  assumes "files_ok lg0 s" "at_log s i t" "ls_threads s' = ls_threads s" "\<And>k. thread_entries k t' = thread_entries k t"
    and "\<And>k. file_content (ls_log s') k = file_content (ls_log s) k"
  shows "files_ok lg0 (goto s' i t')"
proof -
  have "entries_of k ((ls_threads s)[i := t']) = entries_of k (ls_threads s)" for k
    using entries_of_update [of i "ls_threads s" k t' "{#}"] assms(2,4) by (simp add: at_log_def)
  with assms show ?thesis by (simp add: files_ok_def goto_def)
qed

lemma files_write:
  assumes f: "files_ok lg0 s" and t: "at_log s i (W_ready q p ok v n)" and o: "logger_ok (ls_log s)" "pointer_open s (q_key q) n"
  shows "files_ok lg0 (goto (put_bytes s (q_key q) n b) i (W_written q p ok v b))"
  unfolding files_ok_def
proof
  fix k
  let ?new = "if q_key q = k then (case b of Some x \<Rightarrow> [x] | None \<Rightarrow> []) else []"
  obtain es where es: "file_content (ls_log s) k = file_content lg0 k @ concat (map entry_frame es)"
    "mset es = entries_of k (ls_threads s)" using f by (auto simp: files_ok_def)
  have "file_content (ls_log (put_bytes s (q_key q) n b)) k = file_content lg0 k @ concat (map entry_frame (es @ ?new))"
    using put_bytes_ok(4) [OF o, of b k] es(1) by (auto simp: entry_bytes_def split: option.splits)
  moreover have "mset (es @ ?new) = entries_of k ((ls_threads s)[i := W_written q p ok v b])"
    using entries_of_update [of i "ls_threads s" k "W_written q p ok v b" "mset ?new"] t es(2)
    by (simp add: at_log_def)
  ultimately show "\<exists>es. file_content (ls_log (goto (put_bytes s (q_key q) n b) i (W_written q p ok v b))) k =
      file_content lg0 k @ concat (map entry_frame es) \<and>
    mset es = entries_of k (ls_threads (goto (put_bytes s (q_key q) n b) i (W_written q p ok v b)))"
    using put_bytes_ok(6) [OF o, of b] by (intro exI [of _ "es @ ?new"]) (simp add: goto_def)
qed

definition log_state_ok :: "logger \<Rightarrow> log_state \<Rightarrow> bool" where
  "log_state_ok lg0 s \<longleftrightarrow> logger_ok (ls_log s) \<and> owners_ok s \<and> pointers_ok s \<and> files_ok lg0 s"

lemma log_state_ok_goto:
  assumes "log_state_ok lg0 s" "at_log s i t" "holds t' = holds t" "\<And>k. thread_entries k t' = thread_entries k t"
    and "\<And>k n. checked_pointer t' = Some (k, n) \<Longrightarrow> pointer_open s k n"
  shows "log_state_ok lg0 (goto s i t')"
  using assms owners_goto [of s i t t' s] pointers_goto [of s s t' i] files_goto [of lg0 s i t s t']
  by (auto simp: log_state_ok_def goto_def)

lemma log_state_ok_take:
  assumes "log_state_ok lg0 s" "at_log s i t" "holds t = None" "holds t' = Some k" "\<not> key_locked s k"
    and "\<And>k. thread_entries k t' = thread_entries k t" "checked_pointer t' = None"
  shows "log_state_ok lg0 (goto (take_key s i k) i t')"
  using assms owners_take [of s i t t' k] pointers_goto [of s "take_key s i k" t' i] files_goto [of lg0 s i t "take_key s i k" t']
  by (auto simp: log_state_ok_def goto_def take_key_def pointer_open_def)

lemma log_state_ok_drop:
  assumes "log_state_ok lg0 s" "at_log s i t" "holds t = Some k" "holds t' = None"
    and "\<And>k. thread_entries k t' = thread_entries k t" "checked_pointer t' = None"
  shows "log_state_ok lg0 (goto (drop_key s k) i t')"
  using assms owners_drop [of s i t k t'] pointers_goto [of s "drop_key s k" t' i] files_goto [of lg0 s i t "drop_key s k" t']
  by (auto simp: log_state_ok_def goto_def drop_key_def pointer_open_def)

lemma log_state_ok_get:
  assumes s: "log_state_ok lg0 s" "at_log s i t" and o: "\<And>path. can_open path"
    and g: "get_stream can_open s k = Inr (s', n)" and t': "holds t' = holds t" "\<And>k. thread_entries k t' = thread_entries k t"
      "checked_pointer t' = None \<or> checked_pointer t' = Some (k, n)"
  shows "log_state_ok lg0 (goto s' i t')"
proof -
  have ok: "logger_ok (ls_log s)" "owners_ok s" "pointers_ok s" "files_ok lg0 s" using s(1) by (auto simp: log_state_ok_def)
  have g': "pointer_open s' k n" "log_grows (ls_log s) (ls_log s')" "ls_owner s' = ls_owner s" "ls_threads s' = ls_threads s"
    "\<And>k'. file_content (ls_log s') k' = file_content (ls_log s) k'"
    "\<And>k' n'. \<lbrakk>key_locked s k'; pointer_open s k' n'\<rbrakk> \<Longrightarrow> pointer_open s' k' n'"
    using get_stream_ok [where can_open = can_open, OF ok(1) o, of k] g by auto
  have "owners_ok (goto s' i t')" using owners_goto [OF ok(2) s(2) t'(1) g'(3,4)] .
  moreover have "pointers_ok (goto s' i t')"
    using checked_is_locked [OF ok(2)] g'(1,6) t'(3) by (intro pointers_goto [OF ok(3) g'(4)]) auto
  moreover have "files_ok lg0 (goto s' i t')" using files_goto [OF ok(4) s(2) g'(4) t'(2) g'(5)] .
  moreover have "logger_ok (ls_log (goto s' i t'))" using g'(2) by (simp add: log_grows_def goto_def)
  ultimately show ?thesis by (simp add: log_state_ok_def)
qed

lemma log_state_ok_write:
  assumes s: "log_state_ok lg0 s" and t: "at_log s i (W_ready q p ok v n)"
  shows "log_state_ok lg0 (goto (put_bytes s (q_key q) n b) i (W_written q p ok v b))"
proof -
  have ok: "logger_ok (ls_log s)" "owners_ok s" "pointers_ok s" "files_ok lg0 s" using s by (auto simp: log_state_ok_def)
  have "W_ready q p ok v n \<in> set (ls_threads s)" using t by (metis at_log_def nth_mem)
  then have o: "pointer_open s (q_key q) n" using ok(3) by (force simp: pointers_ok_def)
  note pb = put_bytes_ok [OF ok(1) o, of b]
  have "owners_ok (goto (put_bytes s (q_key q) n b) i (W_written q p ok v b))"
    using owners_goto [OF ok(2) t _ pb(5,6)] by simp
  moreover have "pointers_ok (goto (put_bytes s (q_key q) n b) i (W_written q p ok v b))"
    by (rule pointers_goto [OF ok(3) pb(6)]) (simp_all add: pb(3))
  ultimately show ?thesis
    using files_write [OF ok(4) t ok(1) o, of b] pb(1) by (simp add: log_state_ok_def goto_def)
qed

lemma log_step_ok:
  assumes "log_step can_open C s s'" "log_state_ok lg0 s" "\<And>path. can_open path"
  shows "log_state_ok lg0 s'"
  using assms(1)
proof cases
  case (w_get i q p ok v s1 n)
  then show ?thesis using log_state_ok_get [where can_open = can_open, OF assms(2) w_get(2) assms(3) w_get(3), of "W_stream q p ok v n"]
    by simp
next
  case (w_lock i q p ok v n)
  then show ?thesis using log_state_ok_take [OF assms(2) w_lock(2), of "W_locked q p ok v n" "q_key q"] by simp
next
  case (w_open i q p ok v n)
  then show ?thesis using log_state_ok_goto [OF assms(2) w_open(2), of "W_ready q p ok v n"] by simp
next
  case (w_reopen i q p ok v n s1 n')
  then show ?thesis
    using log_state_ok_get [where can_open = can_open, OF assms(2) w_reopen(2) assms(3) w_reopen(4), of "W_ready q p ok v n'"] by simp
next
  case (w_write i q p ok v n cipher t bytes)
  then show ?thesis using log_state_ok_write [OF assms(2) w_write(2)] by simp
next
  case (w_unlock i q p ok v bytes)
  then show ?thesis using log_state_ok_drop [OF assms(2) w_unlock(2), of "q_key q" "W_done q p ok v bytes"] by simp
next
  case (r_lock i k)
  then show ?thesis using log_state_ok_take [OF assms(2) r_lock(2), of "R_locked k" k] by simp
next
  case (r_open i k s1 n)
  then show ?thesis
    using log_state_ok_get [where can_open = can_open, OF assms(2) r_open(2) assms(3) r_open(3), of "R_open k n"] by simp
next
  case (r_read i k n c)
  then show ?thesis using log_state_ok_goto [OF assms(2) r_read(2), of "R_read k c"] by simp
next
  case (r_unlock i k c)
  then show ?thesis using log_state_ok_drop [OF assms(2) r_unlock(2), of k "R_done k c"] by simp
qed

lemma log_run_ok:
  assumes "log_run can_open C s0 s" "log_state_ok lg0 s0" "\<And>path. can_open path"
  shows "log_state_ok lg0 s"
  using assms(1) by induction (use assms(2,3) log_step_ok [where can_open = can_open] in auto)

section \<open>No blocking\<close>

fun log_remaining :: "log_thread \<Rightarrow> nat" where
  "log_remaining (W_start q p ok v) = 5"
| "log_remaining (W_stream q p ok v n) = 4"
| "log_remaining (W_locked q p ok v n) = 3"
| "log_remaining (W_ready q p ok v n) = 2"
| "log_remaining (W_written q p ok v b) = 1"
| "log_remaining (W_done q p ok v b) = 0"
| "log_remaining (R_start k) = 4"
| "log_remaining (R_locked k) = 3"
| "log_remaining (R_open k n) = 2"
| "log_remaining (R_read k c) = 1"
| "log_remaining (R_done k c) = 0"

definition log_work :: "log_state \<Rightarrow> nat" where
  "log_work s = sum_list (map log_remaining (ls_threads s))"

lemma get_stream_threads: "get_stream can_open s k = Inr (s', n) \<Longrightarrow> ls_threads s' = ls_threads s"
  by (auto simp: get_stream_def Let_def bind_result_eq_Inr_iff)

lemma put_bytes_threads: "ls_threads (put_bytes s k n b) = ls_threads s"
  by (simp add: put_bytes_def split: option.split)

lemma log_step_shape:
  assumes "log_step can_open C s s'"
  shows "\<exists>i t t'. at_log s i t \<and> ls_threads s' = (ls_threads s)[i := t'] \<and> log_remaining t' < log_remaining t"
  using assms
  by cases (fastforce simp: goto_def take_key_def drop_key_def put_bytes_threads dest: get_stream_threads)+

lemma log_work_decreases:
  assumes "log_step can_open C s s'"
  shows "log_work s' < log_work s"
proof -
  obtain i t t' where t: "at_log s i t" "ls_threads s' = (ls_threads s)[i := t']" "log_remaining t' < log_remaining t"
    using log_step_shape [OF assms] by blast
  let ?ws = "map log_remaining (ls_threads s)"
  have i: "i < length ?ws" "?ws ! i = log_remaining t" using t(1) by (auto simp: at_log_def)
  have "sum_list (map log_remaining (ls_threads s')) = sum_list ?ws + log_remaining t' - log_remaining t"
    using sum_list_update [OF i(1), of "log_remaining t'"] i(2) t(2) by (simp add: map_update)
  moreover have "log_remaining t \<le> sum_list ?ws" using elem_le_sum_list [OF i(1)] i(2) by simp
  ultimately show ?thesis using t(3) by (simp add: log_work_def)
qed

text \<open>A thread that holds a key can go on, and so can one that waits for a key nobody holds.\<close>

lemma holder_steps:
  assumes "log_state_ok lg0 s" "\<And>path. can_open path" "x \<in> C" "at_log s i t" "holds t = Some k"
  shows "\<exists>s'. log_step can_open C s s'"
proof -
  have lg: "logger_ok (ls_log s)" using assms(1) by (simp add: log_state_ok_def)
  note g = get_stream_ok [where can_open = can_open, OF lg assms(2)]
  obtain cipher now where x: "(cipher, now) \<in> C" using assms(3) by (cases x) auto
  show ?thesis
  proof (cases t)
    case (W_locked q p ok v n)
    show ?thesis
    proof (cases "pointer_open s (q_key q) n")
      case True
      then show ?thesis using w_open assms(4) W_locked by blast
    next
      case False
      obtain s' n' where "get_stream can_open s (q_key q) = Inr (s', n')" using g by blast
      with False show ?thesis using w_reopen assms(4) W_locked by blast
    qed
  next
    case (W_ready q p ok v n)
    then show ?thesis using w_write [OF assms(4) [unfolded W_ready] x refl] by blast
  next
    case (W_written q p ok v b)
    then show ?thesis using w_unlock assms(4) by blast
  next
    case (R_locked k')
    obtain s' n' where "get_stream can_open s k' = Inr (s', n')" using g by blast
    then show ?thesis using r_open assms(4) R_locked by blast
  next
    case (R_open k' n)
    then show ?thesis using r_read assms(4) by blast
  next
    case (R_read k' c)
    then show ?thesis using r_unlock assms(4) by blast
  qed (use assms(5) in simp_all)
qed

lemma log_progress:
  assumes s: "log_state_ok lg0 s" and o: "\<And>path. can_open path" and C: "x \<in> C"
    and t: "t \<in> set (ls_threads s)" "0 < log_remaining t"
  shows "\<exists>s'. log_step can_open C s s'"
proof -
  obtain i where i: "at_log s i t" using t(1) by (auto simp: at_log_def in_set_conv_nth)
  have lg: "logger_ok (ls_log s)" and ow: "owners_ok s" using s by (auto simp: log_state_ok_def)
  have holder: ?thesis if locked: "key_locked s k" for k
  proof -
    obtain j where "ls_owner s k = Some j" using locked by (auto simp: key_locked_def)
    then have "at_log s j (ls_threads s ! j)" "holds (ls_threads s ! j) = Some k"
      using ow by (auto simp: owners_ok_def at_log_def)
    from holder_steps [where can_open = can_open, OF s o C this] show ?thesis .
  qed
  show ?thesis
  proof (cases "holds t")
    case (Some k)
    from holder_steps [where can_open = can_open, OF s o C i Some] show ?thesis .
  next
    case None
    show ?thesis
    proof (cases t)
      case (W_start q p ok v)
      obtain s' n where "get_stream can_open s (q_key q) = Inr (s', n)"
        using get_stream_ok [where can_open = can_open, OF lg o] by blast
      then show ?thesis using w_get i W_start by blast
    next
      case (W_stream q p ok v n)
      then show ?thesis using w_lock i holder by blast
    next
      case (R_start k)
      then show ?thesis using r_lock i holder by blast
    qed (use None t(2) in simp_all)
  qed
qed

lemma log_run_completes:
  assumes o: "\<And>path. can_open path" and C: "C \<noteq> {}" and s: "log_run can_open C s0 s" "log_state_ok lg0 s"
  shows "\<exists>s'. log_run can_open C s0 s' \<and> log_state_ok lg0 s' \<and> (\<forall>t\<in>set (ls_threads s'). log_remaining t = 0)"
  using s
proof (induction "log_work s" arbitrary: s rule: less_induct)
  case less
  obtain x where x: "x \<in> C" using C by blast
  show ?case
  proof (cases "\<forall>t\<in>set (ls_threads s). log_remaining t = 0")
    case True
    then show ?thesis using less.prems by blast
  next
    case False
    then obtain s' where s': "log_step can_open C s s'"
      using log_progress [where can_open = can_open, OF less.prems(2) o x] by blast
    show ?thesis
      using less.hyps [OF log_work_decreases [OF s'] log_more [OF less.prems(1) s']]
        log_step_ok [where can_open = can_open, OF s' less.prems(2) o] by blast
  qed
qed

section \<open>One thread alone\<close>

definition fresh_state :: "logger \<Rightarrow> log_thread list \<Rightarrow> log_state" where
  "fresh_state lg ts = \<lparr>ls_log = lg, ls_opened = (\<lambda>_. 0), ls_owner = (\<lambda>_. None), ls_threads = ts\<rparr>"

definition unstarted :: "log_thread \<Rightarrow> bool" where
  "unstarted t \<longleftrightarrow> (\<exists>q p ok v. t = W_start q p ok v) \<or> (\<exists>k. t = R_start k)"

lemma fresh_state_ok:
  assumes "logger_ok lg" "\<forall>t\<in>set ts. unstarted t"
  shows "log_state_ok lg (fresh_state lg ts)"
proof -
  have t: "holds t = None \<and> checked_pointer t = None \<and> thread_entries k t = []" if "t \<in> set ts" for t k
    using assms(2) that by (auto simp: unstarted_def)
  then have "entries_of k ts = {#}" for k by (simp add: entries_of_def)
  moreover have "holds (ts ! i) = None" if "i < length ts" for i using t nth_mem [OF that] by blast
  ultimately show ?thesis
    using assms(1) t by (auto simp: log_state_ok_def owners_ok_def pointers_ok_def files_ok_def fresh_state_def)
qed

text \<open>The steps of a writer on its own are the operation \<^verbatim>\<open>log_encoded_query\<close>.\<close>

lemma lone_writer:
  assumes lg: "logger_ok lg" and o: "\<And>path. can_open path" and c: "(cipher, t) \<in> C"
  shows "\<exists>s b. log_run can_open C (fresh_state lg [W_start q p ok v]) s \<and> ls_threads s = [W_done q p ok v b] \<and>
    log_encoded_query (\<lambda>_. False) can_open cipher t lg q p ok v = Inr (ls_log s)"
proof -
  let ?s = "fresh_state lg [W_start q p ok v]" let ?k = "q_key q"
  let ?b = "stored_entry cipher (encode_entry t (value_or (q_user_key q) (dp_user_key p)) (operation_result (q_cmd q) ok) v)"
  have lk: "key_locked ?s = (\<lambda>_. False)" by (simp add: key_locked_def fresh_state_def fun_eq_iff)
  obtain s1 n where s1: "get_stream can_open ?s ?k = Inr (s1, n)" "pointer_open s1 ?k n" "ls_owner s1 = (\<lambda>_. None)"
    "ls_threads s1 = [W_start q p ok v]"
    using get_stream_ok [where can_open = can_open and s = ?s and k = ?k, OF _ o] lg by (auto simp: fresh_state_def)
  have g: "get_or_open_log_stream (\<lambda>_. False) can_open lg ?k = Inr (ls_log s1)" "is_open (ls_log s1) ?k"
    using s1(1,2) lk
    by (auto simp: get_stream_def Let_def bind_result_eq_Inr_iff pointer_open_def) (simp_all add: fresh_state_def)
  define s2 where "s2 = goto s1 0 (W_stream q p ok v n)"
  define s3 where "s3 = goto (take_key s2 0 ?k) 0 (W_locked q p ok v n)"
  define s4 where "s4 = goto s3 0 (W_ready q p ok v n)"
  define s5 where "s5 = goto (put_bytes s4 ?k n ?b) 0 (W_written q p ok v ?b)"
  define s6 where "s6 = goto (drop_key s5 ?k) 0 (W_done q p ok v ?b)"
  have po: "pointer_open s4 ?k n" "pointer_open s3 ?k n"
    using s1(2) by (simp_all add: s4_def s3_def s2_def goto_def take_key_def pointer_open_def)
  have th: "ls_threads s2 = [W_stream q p ok v n]" "ls_threads s3 = [W_locked q p ok v n]"
    "ls_threads s4 = [W_ready q p ok v n]" "ls_threads s5 = [W_written q p ok v ?b]" "ls_threads s6 = [W_done q p ok v ?b]"
    using s1(4) by (simp_all add: s6_def s5_def s4_def s3_def s2_def goto_def take_key_def drop_key_def put_bytes_threads)
  have "log_step can_open C ?s s2"
    unfolding s2_def using s1(1) by (intro w_get) (auto simp: at_log_def fresh_state_def)
  moreover have "log_step can_open C s2 s3"
    unfolding s3_def using s1(3) th by (intro w_lock) (auto simp: at_log_def key_locked_def s2_def goto_def)
  moreover have "log_step can_open C s3 s4" unfolding s4_def using po th by (intro w_open) (auto simp: at_log_def)
  moreover have "log_step can_open C s4 s5" unfolding s5_def using c th by (intro w_write) (auto simp: at_log_def)
  moreover have "log_step can_open C s5 s6" unfolding s6_def using th by (intro w_unlock) (auto simp: at_log_def)
  ultimately have "log_run can_open C ?s s6" by (meson log_start log_more)
  moreover have "ls_log s6 = (case ?b of Some x \<Rightarrow> write_file (ls_log s1) ?k (entry_frame x) | None \<Rightarrow> ls_log s1)"
    using po(1) by (simp add: s6_def s5_def s4_def s3_def s2_def goto_def take_key_def drop_key_def put_bytes_def
        pointer_open_def split: option.split)
  ultimately show ?thesis
    using g th(5) by (intro exI [of _ s6] exI [of _ ?b]) (simp add: log_encoded_query_def Let_def split: option.split)
qed

end
