(* ===== verification/Concurrency_Properties.thy ===== *)
theory Concurrency_Properties
  imports Access_Properties Logger_Threads
begin

text \<open>
  The properties of concurrent connections over any backend: what holds of every interleaving of
  requests, and where the handlers, which lock nothing between their accesses, show that they are not
  atomic.
\<close>

section \<open>Handlers and their phases\<close>

text \<open>
  C18. The split of the handlers used for concurrent connections is the handlers: reading the record,
  deciding, logging and acting in sequence gives the same world and the same response or exception as
  the handler, for every command on the database and every environment.
\<close>

theorem handlers_are_phases:
  assumes "q_cmd q \<in> database_commands"
  shows "dispatch env q p w = phases env q p w"
  using assms by (rule dispatch_phases)

theorem handlers_are_phases_witness:
  "phases redis_env (demo_query ''put'') empty_policy (demo_world Map.empty) =
     (demo_world [''k'' \<mapsto> record_of demo_filter ''v''], Inr PUT_SUCCESS)"
  using handlers_are_phases [of "demo_query ''put''" redis_env empty_policy "demo_world Map.empty"] demo_put
  by (simp add: database_commands_def dispatch_def)

text \<open>
  C17. Interleaving does not let a request write without a grant: in every run of concurrent requests
  and for every step that changes the database, the step is the action of one thread, which gets its
  response by it, and in a database the run went through (which may be older than the one that is
  written) the backend had a record under the thread's key that granted the request, with the clock of
  one of the run's environments; or the request is a put and the backend had nothing under the key or,
  with encryption, bytes that do not decrypt.
\<close>

theorem interleaved_writes_were_granted:
  assumes run: "pool_run E s0 ds s" "\<forall>t\<in>set (po_threads s0). \<exists>q p. t = Ready q p"
    and E: "\<forall>env\<in>E. rq_kv env = kv"
    and step: "pool_step E s s'" "po_db s' \<noteq> po_db s"
  shows "\<exists>i q p res pl r. at_thread s i (Logged q p res pl) \<and> po_threads s' = (po_threads s)[i := Finished q p r] \<and>
    (\<exists>d\<in>set ds.
      q_cmd q = ''put'' \<and> (absent kv d (q_key q) \<or> undecryptable kv d (q_key q)) \<or>
      q_cmd q \<in> {''put'', ''delete'', ''putm''} \<and> (\<exists>env\<in>E. access_granted env q p d))"
  using step(1)
proof cases
  case (step_act i q p res pl env r d)
  have "thread_ok E (set ds) (Logged q p res pl)"
    using pool_run_ok [OF run] step_act(2) by (metis at_thread_def nth_mem)
  then obtain env1 d1 env2 where
    r: "rq_kv env1 = kv" "d1 \<in> set ds" "read_phase env1 q d1 = Inr res"
    and d: "env2 \<in> E" "rq_kv env2 = kv" "decide env2 q p res = Inr pl"
    using E by (auto simp: was_read_def was_decided_def)
  have "d \<noteq> po_db s" using step(2) step_act(1) by (simp add: advance_def)
  then have g: "q_cmd q \<in> {''put'', ''delete'', ''putm''}"
    "q_cmd q = ''put'' \<and> res = None \<or>
     (\<exists>v f. res = Some v \<and> gdpr_filter_of (Some v) = Inr f \<and> permitted (rq_check_now env2) f q p)"
    using act_phase_writes [OF step_act(4)] decide_write_granted [OF d(3)] by blast+
  have "gdpr_get kv d1 (q_key q) = Inr res" using r g(1) by (auto simp: read_phase_def)
  then have "q_cmd q = ''put'' \<and> (absent kv d1 (q_key q) \<or> undecryptable kv d1 (q_key q)) \<or>
      q_cmd q \<in> {''put'', ''delete'', ''putm''} \<and> (\<exists>env\<in>E. access_granted env q p d1)"
    using g d(1,2) gdpr_get_None [of kv d1] by (auto simp: access_granted_def)
  moreover have "po_threads s' = (po_threads s)[i := Finished q p r]" using step_act(1) by (simp add: advance_def)
  ultimately show ?thesis using step_act(2) r(2) by blast
qed (use step(2) in \<open>simp_all add: advance_def\<close>)

definition demo_pool :: "(string \<rightharpoonup> string) \<Rightarrow> thread list \<Rightarrow> (string \<rightharpoonup> string) pool" where
  "demo_pool d ts = \<lparr>po_db = d, po_log = example_logger, po_threads = ts, po_down = None\<rparr>"

lemma demo_pool_selectors [simp]:
  "po_db (demo_pool d ts) = d" "po_log (demo_pool d ts) = example_logger" "po_threads (demo_pool d ts) = ts"
  "po_down (demo_pool d ts) = None"
  by (simp_all add: demo_pool_def)

lemma demo_pool_read:
  assumes "i < length ts" "ts ! i = Ready q p" "q_cmd q \<in> database_commands"
  shows "pool_step {redis_env} (demo_pool d ts) (demo_pool d (ts[i := Has_read q p (d (q_key q))]))"
  using pool_step.step_read [of "demo_pool d ts" i q p redis_env "{redis_env}" "d (q_key q)"] assms
  by (simp add: at_thread_def advance_def read_phase_def) (simp add: demo_pool_def)

lemma demo_pool_decide:
  assumes "i < length ts" "ts ! i = Has_read q p res" "decide redis_env q p res = Inr pl"
  shows "pool_step {redis_env} (demo_pool d ts) (demo_pool d (ts[i := Planned q p res pl]))"
  using pool_step.step_decide [of "demo_pool d ts" i q p res redis_env "{redis_env}" pl] assms
  by (simp add: at_thread_def advance_def) (simp add: demo_pool_def)

lemma demo_pool_log:
  assumes "i < length ts" "ts ! i = Planned q p res pl" "log_phase redis_env example_logger pl = Inr example_logger"
  shows "pool_step {redis_env} (demo_pool d ts) (demo_pool d (ts[i := Logged q p res pl]))"
  using pool_step.step_log [of "demo_pool d ts" i q p res pl redis_env "{redis_env}" example_logger] assms
  by (simp add: at_thread_def advance_def) (simp add: demo_pool_def)

lemma demo_pool_act:
  assumes "i < length ts" "ts ! i = Logged q p res pl" "act_phase redis_env q d pl = Inr (r, d')"
  shows "pool_step {redis_env} (demo_pool d ts) (demo_pool d' (ts[i := Finished q p r]))"
  using pool_step.step_act [of "demo_pool d ts" i q p res pl redis_env "{redis_env}" r d'] assms
  by (simp add: at_thread_def advance_def) (simp add: demo_pool_def)

text \<open>The rest of a request after its read, with no other thread in between and nothing to log.\<close>

lemma demo_pool_finish:
  assumes "pool_run {redis_env} s0 ds (demo_pool d ts)" "i < length ts" "ts ! i = Has_read q p res"
    and "decide redis_env q p res = Inr pl" "log_phase redis_env example_logger pl = Inr example_logger"
    and "act_phase redis_env q d pl = Inr (r, d')"
  shows "pool_run {redis_env} s0 (d' # d # d # ds) (demo_pool d' (ts[i := Finished q p r]))"
proof -
  have 1: "pool_run {redis_env} s0 (d # ds) (demo_pool d (ts[i := Planned q p res pl]))"
    using pool_run.run_step [OF assms(1) demo_pool_decide [OF assms(2-4)]] by simp
  have 2: "pool_run {redis_env} s0 (d # d # ds) (demo_pool d (ts[i := Logged q p res pl]))"
    using pool_run.run_step [OF 1 demo_pool_log [OF _ _ assms(5), of i _ q p res]] assms(2) by simp
  show ?thesis
    using pool_run.run_step [OF 2 demo_pool_act [OF _ _ assms(6), of i _ p res]] assms(2) by simp
qed

definition demo_plan :: plan where
  "demo_plan = \<lparr>pl_monitor = Some (monitor_first_put (demo_query ''put'') empty_policy), pl_valid = True,
     pl_logged = record_of demo_filter ''v'', pl_action = Store (record_of demo_filter ''v'')\<rparr>"

lemma demo_plan_phases:
  "decide redis_env (demo_query ''put'') empty_policy None = Inr demo_plan"
  "log_phase redis_env example_logger demo_plan = Inr example_logger"
  "act_phase redis_env (demo_query ''put'') d demo_plan = Inr (PUT_SUCCESS, d(''k'' \<mapsto> record_of demo_filter ''v''))"
  by (simp_all add: decide_def demo_plan_def rewriter_insert_eq get_expiration_time_def demo_insert log_phase_def
      monitor_query_def act_phase_def)

theorem interleaved_writes_were_granted_witness:
  "\<exists>ds s s' i q p res pl r. pool_run {redis_env} (demo_pool Map.empty [Ready (demo_query ''put'') empty_policy]) ds s \<and>
    pool_step {redis_env} s s' \<and> po_db s' = [''k'' \<mapsto> record_of demo_filter ''v''] \<and>
    at_thread s i (Logged q p res pl) \<and> po_threads s' = (po_threads s)[i := Finished q p r] \<and>
    (\<exists>d\<in>set ds.
      q_cmd q = ''put'' \<and> (absent (rq_kv redis_env) d (q_key q) \<or> undecryptable (rq_kv redis_env) d (q_key q)) \<or>
      q_cmd q \<in> {''put'', ''delete'', ''putm''} \<and> (\<exists>env\<in>{redis_env}. access_granted env q p d))"
proof -
  let ?q = "demo_query ''put''" let ?E = "{redis_env}"
  let ?start = "demo_pool Map.empty [Ready ?q empty_policy]"
  let ?logged = "demo_pool Map.empty [Logged ?q empty_policy None demo_plan]"
  let ?written = "demo_pool [''k'' \<mapsto> record_of demo_filter ''v''] [Finished ?q empty_policy PUT_SUCCESS]"
  have c: "q_cmd ?q \<in> database_commands" by (simp add: database_commands_def)
  have 0: "pool_run ?E ?start [Map.empty] ?start" using pool_run.run_start [of ?E ?start] by simp
  have 1: "pool_run ?E ?start [Map.empty, Map.empty] (demo_pool Map.empty [Has_read ?q empty_policy None])"
    using pool_run.run_step [OF 0 demo_pool_read [of 0 _ ?q empty_policy]] c by simp
  have 2: "pool_run ?E ?start [Map.empty, Map.empty, Map.empty] (demo_pool Map.empty [Planned ?q empty_policy None demo_plan])"
    using pool_run.run_step [OF 1 demo_pool_decide [OF _ _ demo_plan_phases(1), of 0]] by simp
  have 3: "pool_run ?E ?start [Map.empty, Map.empty, Map.empty, Map.empty] ?logged"
    using pool_run.run_step [OF 2 demo_pool_log [OF _ _ demo_plan_phases(2), of 0]] by simp
  have 4: "pool_step ?E ?logged ?written"
    using demo_pool_act [OF _ _ demo_plan_phases(3), of 0 "[Logged ?q empty_policy None demo_plan]" empty_policy None Map.empty]
    by simp
  have "\<forall>t\<in>set (po_threads ?start). \<exists>q p. t = Ready q p" by simp
  moreover have "po_db ?written \<noteq> po_db ?logged" "\<forall>env\<in>?E. rq_kv env = rq_kv redis_env" by simp_all
  ultimately show ?thesis
    using interleaved_writes_were_granted [OF 3 _ _ 4] 3 4
    by (intro exI [of _ "[Map.empty, Map.empty, Map.empty, Map.empty]"] exI [of _ ?logged] exI [of _ ?written]) simp
qed

text \<open>
  C37. Handlers are not atomic: a put that has read the record before a concurrent metadata update and
  writes after it puts the old metadata back. Both requests report success, the updated metadata was
  in the database, and in the end it is lost. This holds for every record, every update the record
  permits and every permitted put (shown over Redis without encryption, for a record without
  monitoring).
\<close>

theorem put_undoes_concurrent_putm:
  assumes f: "wf_filter f" "\<not> f_monitor f" "clean v"
    and a: "q_cmd qa = ''putm''" "q_key qa = k" "permitted 0 f qa pa" "putm_expiration 0 qa f = Inr t"
    and b: "q_cmd qb = ''put''" "q_key qb = k" "permitted 0 f qb pb"
  shows "\<exists>ds s. pool_run {redis_env} (demo_pool [k \<mapsto> record_of f v] [Ready qa pa, Ready qb pb]) ds s \<and>
    po_threads s = [Finished qa pa PUTM_SUCCESS, Finished qb pb PUT_SUCCESS] \<and>
    [k \<mapsto> record_of (putm_metadata qa f t) v] \<in> set ds \<and> po_db s k = Some (record_of f (q_value qb))"
proof -
  let ?E = "{redis_env}" let ?r = "record_of f v" let ?d = "[k \<mapsto> ?r]"
  let ?ra = "record_of (putm_metadata qa f t) v" let ?rb = "record_of f (q_value qb)"
  let ?start = "demo_pool ?d [Ready qa pa, Ready qb pb]"
  let ?pa = "plan_of qa pa f True ?ra (Store_meta ?ra)" let ?pb = "plan_of qb pb f True ?rb (Store ?rb)"
  have now: "rq_check_now redis_env = 0" "rq_rewrite_now redis_env = 0" by (simp_all add: redis_env_def)
  have fv: "f_valid f" using f(1) by (simp add: wf_filter_def)
  have pa: "decide redis_env qa pa (Some ?r) = Inr ?pa" "log_phase redis_env example_logger ?pa = Inr example_logger"
    "act_phase redis_env qa d ?pa = Inr (PUTM_SUCCESS, d(k \<mapsto> ?ra))" for d
    using a now fv f
    by (simp_all add: decide_def checked_def plan_of_def gdpr_filter_of_record validate_iff_permitted
        rewriter_putm_record log_phase_def monitor_query_def act_phase_def)
  have pb: "decide redis_env qb pb (Some ?r) = Inr ?pb" "log_phase redis_env example_logger ?pb = Inr example_logger"
    "act_phase redis_env qb d ?pb = Inr (PUT_SUCCESS, d(k \<mapsto> ?rb))" for d
    using b now fv f
    by (simp_all add: decide_def checked_def plan_of_def gdpr_filter_of_record validate_iff_permitted
        rewriter_update_record log_phase_def monitor_query_def act_phase_def)
  have c: "q_cmd qa \<in> database_commands" "q_cmd qb \<in> database_commands"
    using a(1) b(1) by (simp_all add: database_commands_def)
  have 0: "pool_run ?E ?start [?d] ?start" using pool_run.run_start [of ?E ?start] by simp
  have 1: "pool_run ?E ?start [?d, ?d] (demo_pool ?d [Ready qa pa, Has_read qb pb (Some ?r)])"
    using pool_run.run_step [OF 0 demo_pool_read [of 1 _ qb pb]] c(2) b(2) by simp
  have 2: "pool_run ?E ?start [?d, ?d, ?d] (demo_pool ?d [Has_read qa pa (Some ?r), Has_read qb pb (Some ?r)])"
    using pool_run.run_step [OF 1 demo_pool_read [of 0 _ qa pa]] c(1) a(2) by simp
  have 3: "pool_run ?E ?start [[k \<mapsto> ?ra], ?d, ?d, ?d, ?d, ?d]
      (demo_pool [k \<mapsto> ?ra] [Finished qa pa PUTM_SUCCESS, Has_read qb pb (Some ?r)])"
    using demo_pool_finish [OF 2 _ _ pa(1,2) pa(3) [of ?d], of 0] by simp
  have 4: "pool_run ?E ?start [[k \<mapsto> ?rb], [k \<mapsto> ?ra], [k \<mapsto> ?ra], [k \<mapsto> ?ra], ?d, ?d, ?d, ?d, ?d]
      (demo_pool [k \<mapsto> ?rb] [Finished qa pa PUTM_SUCCESS, Finished qb pb PUT_SUCCESS])"
    using demo_pool_finish [OF 3 _ _ pb(1,2) pb(3) [of "[k \<mapsto> ?ra]"], of 1] by simp
  from 4 show ?thesis by (intro exI conjI, assumption) simp_all
qed

definition demo_share :: query where
  "demo_share = demo_query ''putm''\<lparr>q_share := Some ''nobody''\<rparr>"

theorem put_undoes_concurrent_putm_witness:
  "\<exists>ds s. pool_run {redis_env}
      (demo_pool [''k'' \<mapsto> record_of demo_filter ''v''] [Ready demo_share empty_policy, Ready (demo_query ''put'') empty_policy]) ds s \<and>
    po_threads s = [Finished demo_share empty_policy PUTM_SUCCESS, Finished (demo_query ''put'') empty_policy PUT_SUCCESS] \<and>
    [''k'' \<mapsto> record_of (demo_filter\<lparr>f_share := ''nobody''\<rparr>) ''v''] \<in> set ds \<and>
    po_db s ''k'' = Some (record_of demo_filter ''v'')"
proof -
  have "permitted 0 demo_filter demo_share empty_policy"
    using demo_permitted [of 0 "''putm''"] by (simp add: demo_share_def permitted_def request_user_def request_purposes_def)
  moreover have "putm_expiration 0 demo_share demo_filter = Inr 0"
    by (simp add: demo_share_def putm_expiration_def demo_filter_def empty_filter_def)
  moreover have "putm_metadata demo_share demo_filter 0 = demo_filter\<lparr>f_share := ''nobody''\<rparr>"
    by (simp add: demo_share_def putm_metadata_def demo_filter_def empty_filter_def)
  ultimately show ?thesis
    using put_undoes_concurrent_putm [OF demo_filter_wf, where v = "''v''" and qa = demo_share and k = "''k''"
        and pa = empty_policy and t = 0 and qb = "demo_query ''put''" and pb = empty_policy] demo_permitted
    by (simp add: demo_share_def)
qed

section \<open>The log and the database\<close>

text \<open>
  C19. Nothing monitored happens without its log entry: in every interleaving, a request on the database
  gets its response (and with it any effect on the database) only from the state in which it has
  logged. At that moment the log files are what they were before, each followed by the entries that
  threads have made for its key, at most one per thread and none of a thread that has not logged yet;
  and this thread has an entry of its own among them, with the verdict and the record of its plan, just
  when the record it read, or for a first put the request or else the policy, asks for monitoring. All
  log files can be opened and entries encrypt: a request whose log file cannot be opened, as with a
  slash in its key, or whose entry does not encrypt, goes on without an entry.
\<close>

theorem monitored_requests_logged_first:
  assumes run: "pool_run E s0 ds s" and ready: "\<forall>t\<in>set (po_threads s0). \<exists>q p. t = Ready q p"
    and log: "logger_ok (po_log s0)" "\<forall>env\<in>E. \<forall>path. rq_can_open env path"
      "\<forall>env\<in>E. \<forall>q p valid v. logged_bytes (log_env_of env) q p valid v \<noteq> None"
    and step: "pool_step E s s'" "at_thread s i t" "0 < remaining t" "at_thread s' i (Finished q p r)"
      "q_cmd q \<in> database_commands"
  shows "\<exists>res pl es. t = Logged q p res pl \<and> distinct (map fst es) \<and>
    (\<forall>(j, x)\<in>set es. j < length (po_threads s) \<and> remaining (po_threads s ! j) \<le> 1) \<and>
    (\<forall>k. file_content (po_log s) k = file_content (po_log s0) k @ concat (map (entry_frame \<circ> snd)
       (filter (\<lambda>(j, x). q_key (fst (request_of (po_threads s ! j))) = k) es))) \<and>
    (must_log q p res \<longleftrightarrow> i \<in> fst ` set es) \<and>
    (\<forall>x. (i, x) \<in> set es \<longrightarrow> (\<exists>env\<in>E. logged_bytes (log_env_of env) q p (pl_valid pl) (pl_logged pl) = Some x))"
proof -
  have "\<exists>res pl. t = Logged q p res pl"
    using step(1)
  proof cases
    case (step_logs j q' p' env w r')
    with step(2-5) show ?thesis
      by (cases "j = i") (auto simp: at_thread_def advance_def database_commands_def)
  next
    case (step_other j q' p')
    with step(2-5) show ?thesis by (cases "j = i") (auto simp: at_thread_def advance_def)
  next
    case (step_act j q' p' res pl env r' d)
    with step(2-4) show ?thesis by (cases "j = i") (auto simp: at_thread_def advance_def)
  qed (use step(2-4) in \<open>auto simp: at_thread_def advance_def nth_list_update split: if_splits\<close>)
  then obtain res pl where t: "t = Logged q p res pl" by blast
  obtain es where es: "log_inv E (po_log s0) s es"
    using pool_run_log_inv [OF _ _ log(1) ready run] log(2,3) by (auto simp: entries_encrypt_def)
  then have own: "has_own_entry E es i q p res pl" and d: "distinct (map fst es)"
    using step(2) t by (auto simp: log_inv_def at_thread_def entries_ok_def)
  from t es own_entry [OF d own] show ?thesis
    by (intro exI [of _ res] exI [of _ pl] exI [of _ es]) (auto simp: log_inv_def entries_ok_def entries_for_def)
qed

definition watched_put :: query where
  "watched_put = demo_query ''put''\<lparr>q_monitor := Some True\<rparr>"

lemma watched_put_selectors [simp]:
  "q_cmd watched_put = ''put''" "q_key watched_put = ''k''" "q_monitor watched_put = Some True"
  by (simp_all add: watched_put_def)

theorem monitored_requests_logged_first_witness:
  "\<exists>ds s pl x. pool_run {redis_env} (demo_pool Map.empty [Ready watched_put empty_policy]) ds s \<and>
    at_thread s 0 (Logged watched_put empty_policy None pl) \<and> pl_valid pl \<and> pl_action pl = Store (pl_logged pl) \<and>
    logged_bytes (log_env_of redis_env) watched_put empty_policy True (pl_logged pl) = Some x \<and>
    file_content (po_log s) ''k'' = entry_frame x"
proof -
  let ?q = watched_put let ?E = "{redis_env}" let ?start = "demo_pool Map.empty [Ready ?q empty_policy]"
  have c: "q_cmd ?q \<in> database_commands" by (simp add: database_commands_def)
  obtain v where v: "rewriter_insert 0 ?q empty_policy (q_value ?q) = Inr v"
    by (simp add: rewriter_insert_eq get_expiration_time_def watched_put_def)
  let ?pl = "\<lparr>pl_monitor = Some (monitor_first_put ?q empty_policy), pl_valid = True, pl_logged = v, pl_action = Store v\<rparr>"
  have d: "decide redis_env ?q empty_policy None = Inr ?pl" using v by (simp add: decide_def redis_env_def)
  obtain lg where lg: "log_phase redis_env example_logger ?pl = Inr lg"
    using log_encoded_query_appends [OF example_logger_ok, where can_open = "\<lambda>_. True" and q = ?q]
    by (force simp: log_phase_def monitor_query_def log_env_of_def redis_env_def)
  let ?logged = "demo_pool Map.empty [Logged ?q empty_policy None ?pl]\<lparr>po_log := lg\<rparr>"
  have 0: "pool_run ?E ?start [Map.empty] ?start" using pool_run.run_start [of ?E ?start] by simp
  have 1: "pool_run ?E ?start [Map.empty, Map.empty] (demo_pool Map.empty [Has_read ?q empty_policy None])"
    using pool_run.run_step [OF 0 demo_pool_read [of 0 _ ?q empty_policy]] c by simp
  have 2: "pool_run ?E ?start [Map.empty, Map.empty, Map.empty] (demo_pool Map.empty [Planned ?q empty_policy None ?pl])"
    using pool_run.run_step [OF 1 demo_pool_decide [OF _ _ d, of 0]] by simp
  have "pool_step ?E (demo_pool Map.empty [Planned ?q empty_policy None ?pl]) ?logged"
    using pool_step.step_log [of "demo_pool Map.empty [Planned ?q empty_policy None ?pl]" 0 ?q empty_policy None ?pl redis_env ?E lg] lg
    by (simp add: at_thread_def advance_def) (simp add: demo_pool_def)
  from pool_run.run_step [OF 2 this] have 3: "pool_run ?E ?start (replicate 4 Map.empty) ?logged"
    by (simp add: numeral_eq_Suc)
  let ?done = "(advance ?logged 0 (Finished ?q empty_policy PUT_SUCCESS))\<lparr>po_db := [''k'' \<mapsto> v]\<rparr>"
  have at: "at_thread ?logged 0 (Logged ?q empty_policy None ?pl)" by (simp add: at_thread_def)
  have 4: "pool_step ?E ?logged ?done"
    using pool_step.step_act [OF at, of redis_env ?E] by (simp add: act_phase_def)
  have fin: "at_thread ?done 0 (Finished ?q empty_policy PUT_SUCCESS)" by (simp add: at_thread_def advance_def)
  have env: "\<forall>e\<in>?E. \<forall>q p valid v. logged_bytes (log_env_of e) q p valid v \<noteq> None" "\<forall>e\<in>?E. \<forall>path. rq_can_open e path"
    using redis_log_ready by (simp_all add: log_ready_def) (simp add: redis_env_def)
  have s0: "\<forall>t\<in>set (po_threads ?start). \<exists>q p. t = Ready q p" "logger_ok (po_log ?start)" using example_logger_ok by simp_all
  obtain es where es: "distinct (map fst es)" "\<forall>(j, x)\<in>set es. j = 0"
    "\<forall>k. file_content lg k = file_content example_logger k @ concat (map (entry_frame \<circ> snd)
       (filter (\<lambda>(j, x). q_key (fst (request_of ([Logged ?q empty_policy None ?pl] ! j))) = k) es))"
    "0 \<in> fst ` set es" "\<forall>x. (0, x) \<in> set es \<longrightarrow> logged_bytes (log_env_of redis_env) ?q empty_policy True v = Some x"
    using monitored_requests_logged_first [OF 3 s0 env(2,1) 4 at _ fin c]
    by (simp add: must_log_def case_prod_unfold) blast
  obtain x where x: "es = [(0, x)]" using single_entry [OF es(1,2,4)] by blast
  have "file_content example_logger ''k'' = []" by (simp add: example_logger_def file_content_def)
  then have "file_content lg ''k'' = entry_frame x" using es(3) x by simp
  with 3 at es(5) x show ?thesis
    by (intro exI [of _ "replicate 4 Map.empty"] exI [of _ ?logged] exI [of _ ?pl] exI [of _ x]) simp
qed

section \<open>The locks of the logger\<close>

text \<open>
  C22. Threads that log and read at the same time lose and mix nothing and do not block each other. In
  every interleaving of their steps on the mutexes and the stream table, streams being closed for
  one another included, each log file is what it was followed by the entries written so far, each
  whole and once; a state in which no thread can go on is one in which all have finished; and from
  every state the threads can all finish.
\<close>

theorem concurrent_logging_keeps_entries:
  assumes lg: "logger_ok lg" and o: "\<forall>path. can_open path" and C: "C \<noteq> {}" and ts: "\<forall>t\<in>set ts. unstarted t"
    and run: "log_run can_open C (fresh_state lg ts) s"
  shows "(\<exists>es. file_content (ls_log s) k = file_content lg k @ concat (map entry_frame es) \<and>
      mset es = entries_of k (ls_threads s)) \<and>
    ((\<nexists>s'. log_step can_open C s s') \<longleftrightarrow> (\<forall>t\<in>set (ls_threads s). log_remaining t = 0)) \<and>
    (\<exists>s'. log_run can_open C s s' \<and> (\<forall>t\<in>set (ls_threads s'). log_remaining t = 0))"
proof -
  obtain x where x: "x \<in> C" using C by blast
  note o = o [rule_format]
  have s: "log_state_ok lg s" using log_run_ok [where can_open = can_open, OF run fresh_state_ok [OF lg ts] o] .
  have "\<not> log_step can_open C s s'" if "\<forall>t\<in>set (ls_threads s). log_remaining t = 0" for s'
    using log_step_shape [of can_open C s s'] that by (metis at_log_def not_less_zero nth_mem)
  then have "(\<nexists>s'. log_step can_open C s s') \<longleftrightarrow> (\<forall>t\<in>set (ls_threads s). log_remaining t = 0)"
    using log_progress [where can_open = can_open, OF s o x] by blast
  moreover have "\<exists>s'. log_run can_open C s s' \<and> (\<forall>t\<in>set (ls_threads s'). log_remaining t = 0)"
    using log_run_completes [where can_open = can_open, OF o C log_run.log_start s] by blast
  ultimately show ?thesis using s by (auto simp: log_state_ok_def files_ok_def)
qed

theorem concurrent_logging_keeps_entries_witness:
  "\<exists>s es. log_run (\<lambda>_. True) {(None :: string log_cipher, 7)}
      (fresh_state example_logger [W_start (demo_query ''put'') empty_policy True ''v'', R_start ''k'',
         W_start (demo_query ''get'') empty_policy False []]) s \<and>
    (\<forall>t\<in>set (ls_threads s). log_remaining t = 0) \<and>
    file_content (ls_log s) ''k'' = file_content example_logger ''k'' @ concat (map entry_frame es) \<and>
    mset es = entries_of ''k'' (ls_threads s)"
proof -
  let ?C = "{(None :: string log_cipher, 7 :: int)}"
  let ?ts = "[W_start (demo_query ''put'') empty_policy True ''v'', R_start ''k'', W_start (demo_query ''get'') empty_policy False []]"
  have ts: "\<forall>t\<in>set ?ts. unstarted t" by (auto simp: unstarted_def)
  note all = concurrent_logging_keeps_entries [where can_open = "\<lambda>_. True" and C = ?C, OF example_logger_ok _ _ ts]
  obtain s where "log_run (\<lambda>_. True) ?C (fresh_state example_logger ?ts) s" "\<forall>t\<in>set (ls_threads s). log_remaining t = 0"
    using all [OF _ _ log_run.log_start] by blast
  then show ?thesis using all [of s "''k''"] by blast
qed

end
