(* ===== verification/Pool_Sessions.thy ===== *)
theory Pool_Sessions
  imports Session_Refinement Concurrency_Properties
begin

text \<open>
  Concurrent connections over a store that answers. With requests as in \<open>Session_Refinement\<close> and any
  interleaving of their phases, no request raises, every record that is written is well formed and within
  the store's bounds (\<open>session_record\<close>), and every response is one that the abstract store gives to the
  request in the content of a database of the run (\<open>answered\<close>). Requests that do not conflict are
  moreover answered as if each handler had run atomically.
\<close>

section \<open>Databases, plans and threads\<close>

definition session_record :: "string \<Rightarrow> bool" where
  "session_record r \<longleftrightarrow> (\<exists>f v. r = record_of f v \<and> wf_filter f \<and> small_filter f \<and> v \<noteq> [] \<and> clean v \<and> length v \<le> max_msg_size)"

definition session_db :: "('d \<Rightarrow> string \<rightharpoonup> string) \<Rightarrow> ('d \<Rightarrow> bool) \<Rightarrow> 'd \<Rightarrow> bool" where
  "session_db pairs ok d \<longleftrightarrow> ok d \<and> (\<exists>st. represents (pairs d) st \<and> session_state st)"

lemma session_record_length: "session_record r \<Longrightarrow> length r < 2 ^ 29"
  using small_record by (auto simp: session_record_def)

lemma session_db_update:
  assumes "session_db pairs ok d" "ok d'" "session_record r" "pairs d' = (pairs d)(k \<mapsto> r)"
  shows "session_db pairs ok d'"
proof -
  obtain f v where r: "r = record_of f v" "wf_filter f" "small_filter f" "v \<noteq> []" "clean v" "length v \<le> max_msg_size"
    using assms(3) by (auto simp: session_record_def)
  obtain st where "represents (pairs d) st" "session_state st" using assms(1) by (auto simp: session_db_def)
  then have "represents (pairs d') (st(k \<mapsto> (f, v)))" "session_state (st(k \<mapsto> (f, v)))"
    using represents_update [of "pairs d" st f k v] session_state_update [of st v f k] r assms(4) by simp_all
  with assms(2) show ?thesis by (auto simp: session_db_def)
qed

lemma session_db_remove:
  assumes "session_db pairs ok d" "ok d'" "pairs d' = (pairs d)(k := None)"
  shows "session_db pairs ok d'"
  using assms represents_delete session_state_remove by (fastforce simp: session_db_def)

text \<open>What a plan may lead to: responses with the property \<open>P\<close>, and records of the right form.\<close>

definition session_plan :: "(string \<Rightarrow> bool) \<Rightarrow> plan \<Rightarrow> bool" where
  "session_plan P pl \<longleftrightarrow>
     (case pl_action pl of
        Answer r \<Rightarrow> P r
      | Fail e \<Rightarrow> False
      | Store v \<Rightarrow> session_record v \<and> P PUT_SUCCESS \<and> P PUT_FAILED
      | Store_meta v \<Rightarrow> session_record v \<and> P PUTM_SUCCESS \<and> P PUTM_FAILED
      | Remove \<Rightarrow> P DELETE_SUCCESS \<and> P DELETE_FAILED)"

lemma session_plan_mono: "session_plan P pl \<Longrightarrow> (\<And>r. P r \<Longrightarrow> Q r) \<Longrightarrow> session_plan Q pl"
  by (auto simp: session_plan_def split: action.splits)

lemma session_plan_stores: "session_plan P pl \<Longrightarrow> stores pl v \<Longrightarrow> session_record v"
  by (auto simp: session_plan_def stores_def)

section \<open>Deciding\<close>

lemma decide_absent:
  assumes e: "session_env kv env" and q: "session_request p q" "small_request p q" "q_cmd q \<in> database_commands"
    and st: "st (q_key q) = None"
  shows "\<exists>pl. decide env q p None = Inr pl \<and>
    session_plan (\<lambda>r. \<exists>st'. spec_step (rq_check_now env) (rq_rewrite_now env) p st q r st') pl"
proof -
  let ?step = "spec_step (rq_check_now env) (rq_rewrite_now env) p st q"
  have a: "spec_access (rq_check_now env) st q p = None" using st by (simp add: spec_access_def)
  consider "q_cmd q = ''get''" | "q_cmd q = ''getm''" | "q_cmd q = ''put''" | "q_cmd q = ''putm''" | "q_cmd q = ''delete''"
    using q(3) by (auto simp: database_commands_def)
  then show ?thesis
  proof cases
    case 1
    then have "?step GET_FAILED st" using spec_get [OF 1, of "rq_check_now env" "rq_rewrite_now env" p st] a by simp
    with 1 show ?thesis
      by (auto simp: decide_def checked_def plan_of_def session_plan_def validate_iff_permitted empty_filter_def)
  next
    case 2
    then have "?step GETM_FAILED st" using spec_getm [OF 2, of "rq_check_now env" "rq_rewrite_now env" p st] a by simp
    with 2 show ?thesis
      by (auto simp: decide_def checked_def plan_of_def session_plan_def validate_iff_permitted empty_filter_def)
  next
    case 3
    obtain t where t: "get_expiration_time (rq_rewrite_now env) (value_or (q_expiration q) (dp_expiration p)) = Inr t"
      using session_expirations(1) [OF e q(1)] by blast
    have c: "clean_request q p" "clean (q_value q)" "q_value q \<noteq> []" using q(1) 3 by (auto simp: session_request_def)
    then have "session_record (record_of (insert_metadata q p t) (q_value q))"
      using insert_metadata_wf [OF c(1) get_expiration_time_range [OF t]] small_insert_metadata [OF q(2), of t] q(2)
      by (auto simp: session_record_def small_request_def query_within_def)
    with 3 t spec_insert [where st = st, OF 3 st t] spec_put_failed [OF 3, of "rq_check_now env" "rq_rewrite_now env" p st] show ?thesis
      by (auto simp: decide_def session_plan_def rewriter_insert_eq)
  next
    case 4
    with spec_putm_absent [where st = st, OF 4 st] show ?thesis by (auto simp: decide_def session_plan_def)
  next
    case 5
    with spec_delete_refused [OF 5 a] show ?thesis
      by (auto simp: decide_def checked_def plan_of_def session_plan_def validate_iff_permitted empty_filter_def)
  qed
qed

lemma decide_stored:
  assumes e: "session_env kv env" and q: "session_request p q" "small_request p q" "q_cmd q \<in> database_commands"
    and st: "st (q_key q) = Some (f, v)"
    and f: "wf_filter f" "small_filter f" "v \<noteq> []" "clean v" "length v \<le> max_msg_size"
  shows "\<exists>pl. decide env q p (Some (record_of f v)) = Inr pl \<and>
    session_plan (\<lambda>r. \<exists>st'. spec_step (rq_check_now env) (rq_rewrite_now env) p st q r st') pl"
proof -
  let ?step = "spec_step (rq_check_now env) (rq_rewrite_now env) p st q" let ?ok = "permitted (rq_check_now env) f q p"
  have a: "spec_access (rq_check_now env) st q p = (if ?ok then Some (f, v) else None)" using st by (simp add: spec_access_def)
  have fv: "f_valid f" using f(1) by (simp add: wf_filter_def)
  have k: "st (q_key q) \<noteq> None" using st by simp
  note defs = decide_def checked_def plan_of_def session_plan_def answer_with_def validate_iff_permitted gdpr_filter_of_record [OF f(1)]
    remove_record [OF f(4,3)] preserve_record [OF f(4)] rewriter_update_record [OF f(4)] rewriter_putm_record [OF f(1,4)] fv
  consider "q_cmd q = ''get''" | "q_cmd q = ''getm''" | "q_cmd q = ''put''" | "q_cmd q = ''putm''" | "q_cmd q = ''delete''"
    using q(3) by (auto simp: database_commands_def)
  then show ?thesis
  proof cases
    case 1
    then show ?thesis
      using spec_get [OF 1, of "rq_check_now env" "rq_rewrite_now env" p st] a by (cases ?ok) (auto simp: defs)
  next
    case 2
    then show ?thesis
      using spec_getm [OF 2, of "rq_check_now env" "rq_rewrite_now env" p st] a by (cases ?ok) (auto simp: defs)
  next
    case 3
    have "session_record (record_of f (q_value q))"
      using q(1,2) f 3 by (auto simp: session_record_def session_request_def small_request_def query_within_def)
    with 3 spec_update [OF 3, of "rq_check_now env" st p f v] spec_put_failed [OF 3, of "rq_check_now env" "rq_rewrite_now env" p st] a show ?thesis
      by (cases ?ok) (auto simp: defs)
  next
    case 4
    obtain t where t: "putm_expiration (rq_rewrite_now env) q f = Inr t" using session_expirations(2) [OF e q(1)] by blast
    have "clean_putm q" using q(1) by (simp add: session_request_def)
    then have "session_record (record_of (putm_metadata q f t) v)"
      using putm_metadata_wf [OF f(1) _ putm_expiration_range [OF f(1) t]] small_putm_metadata [OF q(2) f(2), of t] f
      by (auto simp: session_record_def)
    with 4 t spec_set_metadata [OF 4 _ t, of "rq_check_now env" st p v] spec_putm_failed [where st = st, OF 4 k] a show ?thesis
      by (cases ?ok) (auto simp: defs)
  next
    case 5
    with spec_remove [OF 5, of "rq_check_now env" st p f v] spec_delete_failed [OF 5, of "rq_check_now env" st p f v]
      spec_delete_refused [OF 5, of "rq_check_now env" st p] a show ?thesis by (cases ?ok) (auto simp: defs)
  qed
qed

text \<open>The responses the abstract store gives in the content of one of the databases \<open>D\<close>.\<close>

definition answered ::
  "('d \<Rightarrow> string \<rightharpoonup> string) \<Rightarrow> ('d, 'c) req_env set \<Rightarrow> 'd set \<Rightarrow> query \<Rightarrow> default_policy \<Rightarrow> string \<Rightarrow> bool" where
  "answered pairs E D q p r \<longleftrightarrow> (\<exists>d\<in>D. \<exists>env\<in>E. \<exists>st st'. represents (pairs d) st \<and>
     spec_step (rq_check_now env) (rq_rewrite_now env) p st q r st')"

lemma decide_session:
  assumes "env \<in> E" "session_env kv env" "session_request p q" "small_request p q" "q_cmd q \<in> database_commands"
    and "d \<in> D" "session_db pairs ok d"
  shows "\<exists>pl. decide env q p (pairs d (q_key q)) = Inr pl \<and> session_plan (answered pairs E D q p) pl"
proof -
  obtain st where st: "represents (pairs d) st" "session_state st" using assms(7) by (auto simp: session_db_def)
  let ?P = "\<lambda>r. \<exists>st'. spec_step (rq_check_now env) (rq_rewrite_now env) p st q r st'"
  have "\<exists>pl. decide env q p (pairs d (q_key q)) = Inr pl \<and> session_plan ?P pl"
  proof (cases "st (q_key q)")
    case None
    with decide_absent [where st = st, OF assms(2-5) None] represents_None [OF st(1) None] show ?thesis by simp
  next
    case (Some fv)
    obtain f v where fv: "st (q_key q) = Some (f, v)" using Some by (cases fv) simp
    note z = session_stateD [OF st(2) fv] and r = represents_Some [OF st(1) fv]
    with decide_stored [where st = st, OF assms(2-5) fv _ z(3,1,4,2)] show ?thesis by simp
  qed
  then obtain pl where pl: "decide env q p (pairs d (q_key q)) = Inr pl" "session_plan ?P pl" by blast
  have "session_plan (answered pairs E D q p) pl"
    by (rule session_plan_mono [OF pl(2)]) (use st(1) assms(1,6) in \<open>auto simp: answered_def\<close>)
  with pl(1) show ?thesis by blast
qed

lemma log_phase_returns:
  assumes "session_env kv env" "logger_ok lg"
  shows "\<exists>lg'. log_phase env lg pl = Inr lg' \<and> logger_ok lg'"
proof (cases "pl_monitor pl")
  case None
  with assms(2) show ?thesis by (simp add: log_phase_def)
next
  case (Some m)
  with monitor_query_ok [OF assms(2), of m "log_env_of env" "pl_valid pl" "pl_logged pl"] assms(1) show ?thesis
    by (auto simp: log_phase_def can_log_def session_env_def log_env_of_def)
qed

section \<open>The invariant of a run\<close>

text \<open>What a thread holds: the record of a database of the run, a plan that can be carried out, a response.\<close>

fun session_thread :: "('d \<Rightarrow> string \<rightharpoonup> string) \<Rightarrow> ('d, 'c) req_env set \<Rightarrow> 'd set \<Rightarrow> thread \<Rightarrow> bool" where
  "session_thread pairs E D (Ready q p) = True"
| "session_thread pairs E D (Has_read q p res) = (q_cmd q \<in> database_commands \<and> (\<exists>d\<in>D. res = pairs d (q_key q)))"
| "session_thread pairs E D (Planned q p res pl) = (q_cmd q \<in> database_commands \<and> session_plan (answered pairs E D q p) pl)"
| "session_thread pairs E D (Logged q p res pl) = (q_cmd q \<in> database_commands \<and> session_plan (answered pairs E D q p) pl)"
| "session_thread pairs E D (Finished q p r) = answered pairs E D q p r"

definition pool_request :: "(string \<Rightarrow> bool) \<Rightarrow> query \<times> default_policy \<Rightarrow> bool" where
  "pool_request key_ok = (\<lambda>(q, p). session_request p q \<and> small_request p q \<and> (q_cmd q \<in> database_commands \<longrightarrow> key_ok (q_key q)))"

lemma answered_mono: "answered pairs E D q p r \<Longrightarrow> D \<subseteq> D' \<Longrightarrow> answered pairs E D' q p r"
  by (auto simp: answered_def)

lemma session_thread_mono: "session_thread pairs E D t \<Longrightarrow> D \<subseteq> D' \<Longrightarrow> session_thread pairs E D' t"
  by (cases t) (auto intro: answered_mono session_plan_mono)

definition pool_ok ::
  "('d \<Rightarrow> string \<rightharpoonup> string) \<Rightarrow> ('d \<Rightarrow> bool) \<Rightarrow> (string \<Rightarrow> bool) \<Rightarrow> ('d, 'c) req_env set \<Rightarrow> 'd set \<Rightarrow> 'd pool \<Rightarrow> bool" where
  "pool_ok pairs ok key_ok E D s \<longleftrightarrow> po_down s = None \<and> logger_ok (po_log s) \<and> po_db s \<in> D \<and>
     (\<forall>d\<in>D. session_db pairs ok d) \<and>
     (\<forall>t\<in>set (po_threads s). session_thread pairs E D t \<and> pool_request key_ok (request_of t))"

lemma pool_ok_thread:
  assumes "pool_ok pairs ok key_ok E D s" "at_thread s i t"
  shows "session_thread pairs E D t" "pool_request key_ok (request_of t)" "logger_ok (po_log s)"
    "session_db pairs ok (po_db s)" "ok (po_db s)"
  using assms by (auto simp: pool_ok_def at_thread_def session_db_def)

lemma pool_ok_advance:
  assumes s: "pool_ok pairs ok key_ok E D s" "at_thread s i t" and t': "request_of t' = request_of t" "session_thread pairs E D t'"
    and s': "po_threads s' = (po_threads s)[i := t']" "po_down s' = None" "logger_ok (po_log s')"
      "session_db pairs ok (po_db s')"
  shows "pool_ok pairs ok key_ok E (insert (po_db s') D) s'"
proof -
  have "session_thread pairs E D u \<and> pool_request key_ok (request_of u)" if "u \<in> set (po_threads s')" for u
    using that s s'(1) t' pool_ok_thread(2) [OF s] set_update_subset_insert [of "po_threads s" i t']
    by (auto simp: pool_ok_def)
  then show ?thesis using s(1) s'(2-4) session_thread_mono [OF _ subset_insertI, of pairs E D _ "po_db s'"] by (auto simp: pool_ok_def)
qed

context gdpr_store_live
begin

lemma act_phase_returns:
  assumes e: "session_env env e" and d: "session_db pairs store_inv d" "store_key (q_key q)" and pl: "session_plan P pl"
    and sv: "\<And>v. length v < 2 ^ 29 \<Longrightarrow> store_val v"
  shows "\<exists>r d'. act_phase e q d pl = Inr (r, d') \<and> session_db pairs store_inv d' \<and> P r"
proof -
  have inv: "store_inv d" using d(1) by (simp add: session_db_def)
  obtain iv where kv: "rq_kv e = env" and iv: "rq_db_iv e = Some iv" "length iv = initialization_vector_len"
    using e by (auto simp: session_env_def)
  show ?thesis
  proof (cases "pl_action pl")
    case (Store v)
    then have v: "session_record v" "store_val v" "P PUT_SUCCESS" "P PUT_FAILED"
      using pl sv session_record_length by (auto simp: session_plan_def)
    obtain b d' where p: "gdpr_put env (Some iv) d (q_key q) v = Inr (b, d')"
      using gput_returns [OF inv d(2) v(2) iv(2)] by blast
    from gput [OF inv d(2) v(2) iv(2) p] have "session_db pairs store_inv d'"
      using session_db_update [OF d(1) _ v(1)] d(1) by (cases b) (auto simp: session_db_def)
    with Store kv iv(1) p v(3,4) show ?thesis by (simp add: act_phase_def)
  next
    case (Store_meta v)
    then have v: "session_record v" "store_val v" "P PUTM_SUCCESS" "P PUTM_FAILED"
      using pl sv session_record_length by (auto simp: session_plan_def)
    obtain b d' where p: "gdpr_putm env (Some iv) d (q_key q) v = Inr (b, d')"
      using gputm_returns [OF inv d(2) v(2) iv(2)] by blast
    from gputm [OF inv d(2) v(2) iv(2) p] have "session_db pairs store_inv d'"
      using session_db_update [OF d(1) _ v(1)] d(1) by (cases b) (auto simp: session_db_def)
    with Store_meta kv iv(1) p v(3,4) show ?thesis by (simp add: act_phase_def)
  next
    case Remove
    obtain b d' where p: "gdpr_del env d (q_key q) = Inr (b, d')" using gdel_returns [OF inv d(2)] by blast
    from gdel [OF inv d(2) p] have "session_db pairs store_inv d'"
      using session_db_remove [OF d(1)] d(1) by (cases b) (auto simp: session_db_def)
    with Remove kv p pl show ?thesis by (simp add: act_phase_def session_plan_def)
  qed (use pl d in \<open>simp_all add: act_phase_def session_plan_def\<close>)
qed

text \<open>The steps of one thread, none of which raises.\<close>

lemma session_read:
  assumes "session_env env e" "pool_ok pairs store_inv store_key E D s" "at_thread s i (Ready q p)" "q_cmd q \<in> database_commands"
  shows "read_phase e q (po_db s) = Inr (pairs (po_db s) (q_key q))"
  using read_phase_pairs [of e "po_db s" q] pool_ok_thread [OF assms(2,3)] assms(1,4)
  by (simp add: session_env_def pool_request_def)

lemma session_decide:
  assumes e: "e \<in> E" "session_env env e" and s: "pool_ok pairs store_inv store_key E D s" "at_thread s i (Has_read q p res)"
  shows "\<exists>pl. decide e q p res = Inr pl \<and> session_plan (answered pairs E D q p) pl"
proof -
  obtain d where d: "d \<in> D" "res = pairs d (q_key q)" "q_cmd q \<in> database_commands" using pool_ok_thread(1) [OF s] by auto
  have q: "session_request p q" "small_request p q" using pool_ok_thread(2) [OF s] by (auto simp: pool_request_def)
  have "session_db pairs store_inv d" using s(1) d(1) by (auto simp: pool_ok_def)
  from decide_session [OF e q d(3,1) this] d(2) show ?thesis by simp
qed

lemma session_act:
  assumes e: "session_env env e" and sv: "\<And>v. length v < 2 ^ 29 \<Longrightarrow> store_val v"
    and s: "pool_ok pairs store_inv store_key E D s" "at_thread s i (Logged q p res pl)"
  shows "\<exists>r d. act_phase e q (po_db s) pl = Inr (r, d) \<and> session_db pairs store_inv d \<and> answered pairs E D q p r"
  using act_phase_returns [OF e pool_ok_thread(4) [OF s] _ _ sv] pool_ok_thread(1,2) [OF s] by (auto simp: pool_request_def)

lemma session_other:
  assumes e: "e \<in> E" and s: "pool_ok pairs store_inv store_key E D s" "at_thread s i (Ready q p)"
  shows "q_cmd q = ''getlogs'' \<Longrightarrow> handle_get_logs e' q p w = (w, Inr GET_LOGS_FAILED)"
    and "q_cmd q = ''getlogs'' \<Longrightarrow> answered pairs E D q p GET_LOGS_FAILED"
    and "q_cmd q \<notin> database_commands \<Longrightarrow> q_cmd q \<noteq> ''getlogs'' \<Longrightarrow> answered pairs E D q p INVALID_COMMAND"
proof -
  obtain st where st: "represents (pairs (po_db s)) st" "po_db s \<in> D"
    using s(1) pool_ok_thread(4) [OF s] by (auto simp: pool_ok_def session_db_def)
  have u: "q_cmd q = ''getlogs'' \<Longrightarrow> request_user q p \<noteq> regulator_key"
    using pool_ok_thread(2) [OF s] by (simp add: pool_request_def session_request_def)
  then show "q_cmd q = ''getlogs'' \<Longrightarrow> handle_get_logs e' q p w = (w, Inr GET_LOGS_FAILED)"
    by (simp add: handle_get_logs_refused)
  show "q_cmd q = ''getlogs'' \<Longrightarrow> answered pairs E D q p GET_LOGS_FAILED"
    using st e spec_getlogs [of q p "rq_check_now e" "rq_rewrite_now e" st] u unfolding answered_def by blast
  show "q_cmd q \<notin> database_commands \<Longrightarrow> q_cmd q \<noteq> ''getlogs'' \<Longrightarrow> answered pairs E D q p INVALID_COMMAND"
    using st e spec_invalid [of q "rq_check_now e" "rq_rewrite_now e" p st] unfolding answered_def by blast
qed

lemma pool_step_ok:
  assumes E: "\<forall>e\<in>E. session_env env e" "E \<noteq> {}" and sv: "\<And>v. length v < 2 ^ 29 \<Longrightarrow> store_val v"
    and s: "pool_ok pairs store_inv store_key E D s" and step: "pool_step E s s'"
  shows "pool_ok pairs store_inv store_key E (insert (po_db s') D) s'"
proof -
  have db: "po_db s \<in> D" using s by (simp add: pool_ok_def)
  obtain e0 where e0: "e0 \<in> E" using E(2) by blast
  note adv = pool_ok_advance [OF s, where s' = s'] and th = pool_ok_thread [OF s]
  from step show ?thesis
  proof cases
    case (step_read i q p e res)
    then have "res = pairs (po_db s) (q_key q)" using session_read [OF _ s step_read(2,3)] E by fastforce
    then show ?thesis
      using adv [OF step_read(2), of "Has_read q p res"] th [OF step_read(2)] step_read db by (auto simp: advance_def at_thread_def)
  next
    case (step_decide i q p res e pl)
    then have "session_plan (answered pairs E D q p) pl" using session_decide [OF _ _ s step_decide(2), of e] E by fastforce
    then show ?thesis
      using adv [OF step_decide(2), of "Planned q p res pl"] th [OF step_decide(2)] step_decide by (auto simp: advance_def at_thread_def)
  next
    case (step_log i q p res pl e lg)
    then have "logger_ok lg" using log_phase_returns [of env e "po_log s" pl] th(3) [OF step_log(2)] E by fastforce
    then show ?thesis
      using adv [OF step_log(2), of "Logged q p res pl"] th [OF step_log(2)] step_log by (auto simp: advance_def at_thread_def)
  next
    case (step_act i q p res pl e r d)
    then have "session_db pairs store_inv d" "answered pairs E D q p r"
      using session_act [OF _ sv s step_act(2), of e] E by fastforce+
    then show ?thesis
      using adv [OF step_act(2), of "Finished q p r"] th [OF step_act(2)] step_act by (auto simp: advance_def at_thread_def)
  next
    case (step_logs i q p e w r)
    have "w = \<lparr>w_db = po_db s, w_log = po_log s\<rparr>" "answered pairs E D q p r"
      using session_other(1) [OF e0 s step_logs(2,3), of e "\<lparr>w_db = po_db s, w_log = po_log s\<rparr>"]
        session_other(2) [OF e0 s step_logs(2,3)] step_logs(5) by auto
    then show ?thesis
      using adv [OF step_logs(2), of "Finished q p r"] th [OF step_logs(2)] step_logs by (auto simp: advance_def at_thread_def)
  next
    case (step_other i q p)
    then show ?thesis
      using adv [OF step_other(2), of "Finished q p INVALID_COMMAND"] th [OF step_other(2)] session_other(3) [OF e0 s step_other(2)]
      by (auto simp: advance_def at_thread_def)
  next
    case (raise_read i q p e x)
    then show ?thesis using session_read [OF _ s raise_read(2,3)] E by fastforce
  next
    case (raise_decide i q p res e x)
    then show ?thesis using session_decide [OF _ _ s raise_decide(2), of e] E by fastforce
  next
    case (raise_log i q p res pl e x)
    then show ?thesis using log_phase_returns [of env e "po_log s" pl] th(3) [OF raise_log(2)] E by fastforce
  next
    case (raise_act i q p res pl e x)
    then show ?thesis using session_act [OF _ sv s raise_act(2), of e] E by fastforce
  next
    case (raise_logs i q p e w x)
    then show ?thesis using session_other(1) [OF e0 s raise_logs(2,3), of e "\<lparr>w_db = po_db s, w_log = po_log s\<rparr>"] by simp
  qed
qed

lemma pool_start_ok:
  assumes "po_down s0 = None" "logger_ok (po_log s0)" "session_db pairs store_inv (po_db s0)"
    and "\<forall>t\<in>set (po_threads s0). \<exists>q p. t = Ready q p \<and> pool_request store_key (q, p)"
  shows "pool_ok pairs store_inv store_key E {po_db s0} s0"
  using assms by (fastforce simp: pool_ok_def)

lemma pool_run_session:
  assumes E: "\<forall>e\<in>E. session_env env e" "E \<noteq> {}" and sv: "\<And>v. length v < 2 ^ 29 \<Longrightarrow> store_val v"
    and s0: "pool_ok pairs store_inv store_key E {po_db s0} s0" and run: "pool_run E s0 ds s"
  shows "pool_ok pairs store_inv store_key E (set ds) s"
  using run by induction (use s0 pool_step_ok [OF E sv] in auto)

text \<open>Without conflicts the answers are those of the handlers run atomically, one after the other.\<close>

lemma pool_run_serial:
  assumes E: "\<forall>e\<in>E. session_env env e" "E \<noteq> {}" and sv: "\<And>v. length v < 2 ^ 29 \<Longrightarrow> store_val v"
    and s0: "pool_ok pairs store_inv store_key E {po_db s0} s0" "no_conflict (po_threads s0)"
      "\<forall>t\<in>set (po_threads s0). \<exists>q p. t = Ready q p"
    and run: "pool_run E s0 ds s"
  shows "\<exists>xs. serial (mixed_envs E) (po_db s0) xs (po_db s) \<and> mset xs = mset (answers (po_threads s))"
proof -
  have sh: "shared_env E" using E(1) by (simp add: shared_env_def session_env_def)
  have "isolated E s \<and> (\<exists>xs. serial (mixed_envs E) (po_db s0) xs (po_db s) \<and> mset xs = mset (answers (po_threads s)))"
    using run
  proof induction
    case run_start
    have "answers (po_threads s0) = []" using s0(3) by (fastforce simp: answers_def)
    moreover have "isolated E s0" using s0 by (fastforce simp: isolated_def pool_ok_def session_db_def pool_request_def)
    ultimately show ?case using serial_start [of "mixed_envs E" "po_db s0"] by fastforce
  next
    case (run_step ds s s')
    then obtain xs where x: "isolated E s" "serial (mixed_envs E) (po_db s0) xs (po_db s)" "mset xs = mset (answers (po_threads s))"
      by blast
    have "store_val v" if "at_thread s i (Logged q p res pl)" "stores pl v" for i q p res pl v
      using pool_ok_thread(1) [OF pool_run_session [OF E sv s0(1) run_step.hyps(1)] that(1)] session_plan_stores [OF _ that(2)]
        session_record_length sv by auto
    with isolated_step [OF sh _ x(1) run_step.hyps(2)] isolated_serial_step [OF sh E(2) x run_step.hyps(2)]
    show ?case by blast
  qed
  then show ?thesis by blast
qed

end

lemma pool_run_requests:
  "pool_run E s0 ds s \<Longrightarrow> map request_of (po_threads s) = map request_of (po_threads s0)"
proof (induction rule: pool_run.induct)
  case (run_step ds s s')
  obtain i t where t: "at_thread s i t" and s': "po_threads s' = po_threads s \<or>
      (\<exists>t'. po_threads s' = (po_threads s)[i := t'] \<and> request_of t' = request_of t)"
    using pool_step_shape [OF run_step.hyps(2)] by blast
  then have "map request_of (po_threads s') = map request_of (po_threads s)"
    by (auto simp: at_thread_def map_update list_update_same_conv)
  with run_step.IH show ?case by simp
qed simp

section \<open>Completion\<close>

text \<open>
  C21. Concurrent requests complete: over a store that answers, in every interleaving, no request takes
  the process down; a run takes at most four steps per request; it is stuck just when every request has
  its response, and from every state it can be continued to that point. Every response, to the request
  the thread was started with, is one the abstract store gives to that request in the content of a
  database the run went through, and the database holds well-formed records again. The requests are those
  of \<open>session_request\<close> (parsed; values that are not empty; no delimiter in values, users, origins and
  shares; a 32-bit policy expiration; no getLogs of the regulator), short enough for a message, with
  keys the store carries; log files open, entries encrypt, vectors are drawn.
\<close>

theorem concurrent_requests_complete:
  assumes store: "gdpr_store_live kv pairs ok key_ok val_ok" "\<forall>v. length v < 2 ^ 29 \<longrightarrow> val_ok v"
    and E: "\<forall>env\<in>E. session_env kv env" "E \<noteq> {}"
    and s0: "po_down s0 = None" "logger_ok (po_log s0)" "session_db pairs ok (po_db s0)"
      "\<forall>t\<in>set (po_threads s0). \<exists>q p. t = Ready q p \<and> pool_request key_ok (q, p)"
    and run: "pool_run E s0 ds s"
  shows "po_down s = None \<and> length ds \<le> Suc (4 * length (po_threads s0)) \<and>
    map request_of (po_threads s) = map request_of (po_threads s0) \<and>
    ((\<nexists>s'. pool_step E s s') \<longleftrightarrow> (\<forall>t\<in>set (po_threads s). \<exists>q p r. t = Finished q p r)) \<and>
    (\<exists>ds' s'. pool_run E s0 (ds' @ ds) s' \<and> (\<forall>t\<in>set (po_threads s'). \<exists>q p r. t = Finished q p r)) \<and>
    session_db pairs ok (po_db s) \<and>
    (\<forall>q p r. Finished q p r \<in> set (po_threads s) \<longrightarrow> answered pairs E (set ds) q p r)"
proof -
  have sv: "\<And>v. length v < 2 ^ 29 \<Longrightarrow> val_ok v" using store(2) by blast
  note start = gdpr_store_live.pool_start_ok [OF store(1) s0]
  have inv: "pool_ok pairs ok key_ok E (set ds) s" if "pool_run E s0 ds s" for ds s
    by (rule gdpr_store_live.pool_run_session [OF store(1) E _ start that]) (rule sv)
  have ready: "\<forall>t\<in>set (po_threads s0). \<exists>q p. t = Ready q p" using s0(4) by blast
  obtain ds' s' where s': "pool_run E s0 (ds' @ ds) s'" "\<nexists>s''. pool_step E s' s''" using pool_run_completes [OF run] by blast
  have up: "po_down s = None" "po_down s' = None" using inv [OF run] inv [OF s'(1)] by (simp_all add: pool_ok_def)
  have "\<not> pool_step E s u" if "\<forall>t\<in>set (po_threads s). \<exists>q p r. t = Finished q p r" for u
    using pool_step_shape [of E s u] that by (metis at_thread_def less_irrefl nth_mem remaining.simps(5))
  then have stuck: "(\<nexists>s'. pool_step E s s') \<longleftrightarrow> (\<forall>t\<in>set (po_threads s). \<exists>q p r. t = Finished q p r)"
    using stuck_done [OF E(2)] up(1) by blast
  moreover have "\<forall>t\<in>set (po_threads s'). \<exists>q p r. t = Finished q p r" using stuck_done [OF E(2) s'(2)] up(2) by blast
  moreover have "session_db pairs ok (po_db s)" "Finished q p r \<in> set (po_threads s) \<Longrightarrow> answered pairs E (set ds) q p r" for q p r
    using inv [OF run] by (fastforce simp: pool_ok_def)+
  moreover have "length ds \<le> Suc (4 * length (po_threads s0))" using pool_run_bounded [OF run] work_ready [OF ready] by linarith
  ultimately show ?thesis using up(1) pool_run_requests [OF run] s'(1) by blast
qed

lemma empty_session_db: "session_db (\<lambda>d. d) (\<lambda>_. True) Map.empty"
  by (auto simp: session_db_def represents_def session_state_def intro: exI [of _ Map.empty])

lemma demo_pool_request: "cmd \<in> database_commands \<Longrightarrow> pool_request (\<lambda>_. True) (demo_query cmd, empty_policy)"
  using demo_query_session [of cmd] by (simp add: pool_request_def)

theorem concurrent_requests_complete_witness:
  "\<exists>ds s. pool_run {redis_env} (demo_pool Map.empty [Ready (demo_query ''put'') empty_policy, Ready (demo_query ''get'') empty_policy]) ds s \<and>
    po_down s = None \<and> length ds \<le> 9 \<and>
    (\<exists>r r'. po_threads s = [Finished (demo_query ''put'') empty_policy r, Finished (demo_query ''get'') empty_policy r'] \<and>
      answered (\<lambda>d. d) {redis_env} (set ds) (demo_query ''put'') empty_policy r \<and>
      answered (\<lambda>d. d) {redis_env} (set ds) (demo_query ''get'') empty_policy r')"
proof -
  let ?start = "demo_pool Map.empty [Ready (demo_query ''put'') empty_policy, Ready (demo_query ''get'') empty_policy]"
  let ?E = "{redis_env}"
  have env: "\<forall>env\<in>?E. session_env (rq_kv redis_env) env" "?E \<noteq> {}" using redis_session_env by simp_all
  have s0: "po_down ?start = None" "logger_ok (po_log ?start)" "session_db (\<lambda>d. d) (\<lambda>_. True) (po_db ?start)"
    "\<forall>t\<in>set (po_threads ?start). \<exists>q p. t = Ready q p \<and> pool_request (\<lambda>_. True) (q, p)"
    using example_logger_ok empty_session_db demo_pool_request by (simp_all add: database_commands_def)
  note all = concurrent_requests_complete [OF redis_env_live_store _ env s0]
  obtain ds s where s: "pool_run ?E ?start ds s" "\<forall>t\<in>set (po_threads s). \<exists>q p r. t = Finished q p r"
    using all [OF _ pool_run.run_start] by blast
  have m: "po_down s = None" "length ds \<le> 9" "map request_of (po_threads s) = map request_of (po_threads ?start)"
    "\<forall>q p r. Finished q p r \<in> set (po_threads s) \<longrightarrow> answered (\<lambda>d. d) ?E (set ds) q p r"
    using all [OF _ s(1)] by simp_all
  then obtain t t' where "po_threads s = [t, t']" by (auto simp: map_eq_Cons_conv)
  with s(2) m(3) obtain r r' where
    "po_threads s = [Finished (demo_query ''put'') empty_policy r, Finished (demo_query ''get'') empty_policy r']" by auto
  moreover from this m(4) have "answered (\<lambda>d. d) ?E (set ds) (demo_query ''put'') empty_policy r"
    "answered (\<lambda>d. d) ?E (set ds) (demo_query ''get'') empty_policy r'" by simp_all
  ultimately show ?thesis using s(1) m(1,2) by blast
qed

section \<open>Serial equivalence\<close>

text \<open>
  C20. Requests that do not conflict are serial: over a store that answers, when no request writes a key
  that another request names, every interleaving leaves the database as, and answers the requests the
  way, some execution of the handlers one after the other does, each of them atomically and in an
  environment put together from those of its steps. The requests are those of \<open>session_request\<close>, short
  enough for a message, with keys the store carries; log files open, entries encrypt, vectors are drawn.
\<close>

theorem unconflicting_requests_are_serial:
  assumes store: "gdpr_store_live kv pairs ok key_ok val_ok" "\<forall>v. length v < 2 ^ 29 \<longrightarrow> val_ok v"
    and E: "\<forall>env\<in>E. session_env kv env" "E \<noteq> {}"
    and s0: "po_down s0 = None" "logger_ok (po_log s0)" "session_db pairs ok (po_db s0)"
      "\<forall>t\<in>set (po_threads s0). \<exists>q p. t = Ready q p \<and> pool_request key_ok (q, p)"
      "no_conflict (po_threads s0)"
    and run: "pool_run E s0 ds s"
  shows "\<exists>xs. serial (mixed_envs E) (po_db s0) xs (po_db s) \<and> mset xs = mset (answers (po_threads s))"
proof -
  have sv: "\<And>v. length v < 2 ^ 29 \<Longrightarrow> val_ok v" using store(2) by blast
  note start = gdpr_store_live.pool_start_ok [OF store(1) s0(1-4)]
  show ?thesis
    by (rule gdpr_store_live.pool_run_serial [OF store(1) E _ start s0(5) _ run]) (use sv s0(4) in blast)+
qed

text \<open>Two puts of different keys, the second read before the first is written.\<close>

definition demo_other :: query where
  "demo_other = demo_query ''put''\<lparr>q_key := ''j''\<rparr>"

lemma demo_other_selectors [simp]: "q_cmd demo_other = ''put''" "q_key demo_other = ''j''"
  by (simp_all add: demo_other_def)

lemma demo_other_request: "pool_request (\<lambda>_. True) (demo_other, empty_policy)"
  using demo_query_session [of "''put''"]
  by (simp add: demo_other_def pool_request_def session_request_def small_request_def query_typed_def clean_request_def
      clean_putm_def request_user_def query_within_def database_commands_def max_msg_size_def)

definition other_plan :: plan where
  "other_plan = \<lparr>pl_monitor = Some (monitor_first_put demo_other empty_policy), pl_valid = True,
     pl_logged = record_of demo_filter ''v'', pl_action = Store (record_of demo_filter ''v'')\<rparr>"

lemma other_plan_phases:
  "decide redis_env demo_other empty_policy None = Inr other_plan"
  "log_phase redis_env example_logger other_plan = Inr example_logger"
  "act_phase redis_env demo_other d other_plan = Inr (PUT_SUCCESS, d(''j'' \<mapsto> record_of demo_filter ''v''))"
proof -
  have "insert_metadata demo_other p t = insert_metadata (demo_query ''put'') p t" for p t
    by (simp add: insert_metadata_def demo_other_def request_user_def)
  then show "decide redis_env demo_other empty_policy None = Inr other_plan"
    by (simp add: decide_def other_plan_def rewriter_insert_eq get_expiration_time_def demo_insert) (simp add: demo_other_def demo_insert)
  show "log_phase redis_env example_logger other_plan = Inr example_logger"
    "act_phase redis_env demo_other d other_plan = Inr (PUT_SUCCESS, d(''j'' \<mapsto> record_of demo_filter ''v''))"
    by (simp_all add: other_plan_def log_phase_def monitor_query_def act_phase_def) (simp add: demo_other_def)
qed

theorem unconflicting_requests_are_serial_witness:
  "\<exists>ds s xs. pool_run {redis_env}
      (demo_pool Map.empty [Ready (demo_query ''put'') empty_policy, Ready demo_other empty_policy]) ds s \<and>
    serial (mixed_envs {redis_env}) Map.empty xs [''k'' \<mapsto> record_of demo_filter ''v'', ''j'' \<mapsto> record_of demo_filter ''v''] \<and>
    mset xs = {#(demo_query ''put'', empty_policy, PUT_SUCCESS), (demo_other, empty_policy, PUT_SUCCESS)#}"
proof -
  let ?q = "demo_query ''put''" let ?g = demo_other let ?r = "record_of demo_filter ''v''" let ?E = "{redis_env}"
  let ?start = "demo_pool Map.empty [Ready ?q empty_policy, Ready ?g empty_policy]"
  let ?stop = "demo_pool [''k'' \<mapsto> ?r, ''j'' \<mapsto> ?r] [Finished ?q empty_policy PUT_SUCCESS, Finished ?g empty_policy PUT_SUCCESS]"
  have c: "q_cmd ?q \<in> database_commands" "q_cmd ?g \<in> database_commands" by (simp_all add: database_commands_def)
  have 0: "pool_run ?E ?start [Map.empty] ?start" using pool_run.run_start [of ?E ?start] by simp
  have 1: "pool_run ?E ?start [Map.empty, Map.empty] (demo_pool Map.empty [Has_read ?q empty_policy None, Ready ?g empty_policy])"
    using pool_run.run_step [OF 0 demo_pool_read [of 0 _ ?q empty_policy]] c by simp
  have 2: "pool_run ?E ?start [Map.empty, Map.empty, Map.empty]
      (demo_pool Map.empty [Has_read ?q empty_policy None, Has_read ?g empty_policy None])"
    using pool_run.run_step [OF 1 demo_pool_read [of 1 _ ?g empty_policy]] c by simp
  have 3: "pool_run ?E ?start ([''k'' \<mapsto> ?r] # replicate 5 Map.empty)
      (demo_pool [''k'' \<mapsto> ?r] [Finished ?q empty_policy PUT_SUCCESS, Has_read ?g empty_policy None])"
    using demo_pool_finish [OF 2 _ _ demo_plan_phases(1,2) demo_plan_phases(3) [of Map.empty], of 0]
    by (simp add: numeral_eq_Suc)
  obtain ds where 4: "pool_run ?E ?start ds ?stop"
    using demo_pool_finish [OF 3 _ _ other_plan_phases(1,2) other_plan_phases(3) [of "[''k'' \<mapsto> ?r]"], of 1] by auto
  have env: "\<forall>env\<in>?E. session_env (rq_kv redis_env) env" "?E \<noteq> {}" using redis_session_env by simp_all
  have s0: "po_down ?start = None" "logger_ok (po_log ?start)" "session_db (\<lambda>d. d) (\<lambda>_. True) (po_db ?start)"
    "\<forall>t\<in>set (po_threads ?start). \<exists>q p. t = Ready q p \<and> pool_request (\<lambda>_. True) (q, p)" "no_conflict (po_threads ?start)"
    using example_logger_ok empty_session_db demo_pool_request demo_other_request
    by (auto simp: no_conflict_def less_Suc_eq database_commands_def)
  obtain xs where "serial (mixed_envs ?E) Map.empty xs (po_db ?stop)" "mset xs = mset (answers (po_threads ?stop))"
    using unconflicting_requests_are_serial [OF redis_env_live_store _ env s0 4] by auto
  with 4 show ?thesis by (auto simp: answers_def)
qed

end
