(* ===== verification/Console.thy ===== *)
theory Console
  imports Native_Controller
begin

text \<open>
  The two programs that read the standard input: \<^verbatim>\<open>direct_kv_client.cpp\<close>, which has the handlers of the
  native controller and reads requests line by line, and \<^verbatim>\<open>test_kv_client_driver.cpp\<close>, which reads words
  and times the calls of the client.

  Neither looks at the state of the stream. A read that fails because the stream is no longer good
  leaves its variable as it was, so both loops may go on for ever with the last input; they are
  partial functions, with \<open>None\<close> for a run that does not end. The theorems say when they end.
\<close>

section \<open>The standard input\<close>

record std_in =
  si_text :: string
  si_good :: bool

definition newline :: char where "newline = CHR 0x0A"

text \<open>
  \<^verbatim>\<open>std::getline\<close>: on a good stream the variable is cleared and takes the bytes up to the newline. At
  the end of the input the stream stops being good.
\<close>

definition getline :: "std_in \<Rightarrow> string \<Rightarrow> std_in \<times> string" where
  "getline s input =
     (if \<not> si_good s then (s, input)
      else
        (case dropWhile (\<lambda>c. c \<noteq> newline) (si_text s) of
           [] \<Rightarrow> \<lparr>si_text = [], si_good = False\<rparr>
         | _ # rest \<Rightarrow> \<lparr>si_text = rest, si_good = True\<rparr>,
         takeWhile (\<lambda>c. c \<noteq> newline) (si_text s)))"

text \<open>\<^verbatim>\<open>std::cin >> word\<close>: at the end of the input nothing is stored.\<close>

definition extract_word :: "string \<Rightarrow> string \<Rightarrow> string \<times> string" where
  "extract_word text word = (case next_token text of Some (t, rest) \<Rightarrow> (t, rest) | None \<Rightarrow> (word, []))"

section \<open>The direct client\<close>

definition direct_dispatch :: "('d, 'c) req_env \<Rightarrow> query \<Rightarrow> 'd \<Rightarrow> ('d, string) outcome" where
  "direct_dispatch env q d =
     (if q_cmd q = ''get'' then native_get env q d
      else if q_cmd q = ''put'' then native_put env q d
      else if q_cmd q = ''delete'' then native_delete env q d
      else (d, Inr INVALID_COMMAND))"

text \<open>\<open>printed\<close> is the standard output, one element per line.\<close>

partial_function (option) direct_loop ::
  "(nat \<Rightarrow> ('d, 'c) req_env) \<Rightarrow> nat \<Rightarrow> 'd \<Rightarrow> std_in \<Rightarrow> string \<Rightarrow> string list \<Rightarrow> ('d \<times> string list \<times> conn_end) option" where
  "direct_loop envs i d s input printed =
     (case getline s input of
        (s1, line) \<Rightarrow>
          (case query_of_input line of
             Inl e \<Rightarrow> Some (d, printed, Process_end e)
           | Inr q \<Rightarrow>
               if q_cmd q = ''exit'' then Some (d, printed @ [''Exiting...''], Conn_closed)
               else
                 (case direct_dispatch (envs i) q d of
                    (d1, r) \<Rightarrow>
                      (case r of
                         Inl e \<Rightarrow> Some (d1, printed, Process_end e)
                       | Inr result \<Rightarrow> direct_loop envs (Suc i) d1 s1 line (printed @ [result])))))"

definition direct_main ::
  "(kv_kind \<Rightarrow> string \<Rightarrow> 'd kv_backend result) \<Rightarrow> (nat \<Rightarrow> ('d, 'c) req_env) \<Rightarrow> string list \<Rightarrow> string \<Rightarrow> 'd
     \<Rightarrow> ('d \<times> string list \<times> conn_end) option" where
  "direct_main connect envs args text d =
     (let db_type = get_command_line_argument args ''--db''
      in if db_type = [] then Some (d, [], Process_end Quick_exit)
         else
           case kv_factory_create connect db_type (get_command_line_argument args ''--db_address'') of
             Inl e \<Rightarrow> Some (d, [], Process_end e)
           | Inr be \<Rightarrow> direct_loop (\<lambda>i. with_backend be (envs i)) 0 d \<lparr>si_text = text, si_good = True\<rparr> [] [])"

section \<open>The test driver\<close>

definition value_size :: nat where "value_size = 1024"

definition dummy_value :: string where "dummy_value = replicate value_size (CHR ''x'')"

text \<open>The latencies of an operation are the ones the clock gives, \<open>lat i\<close> for call number \<open>i\<close>.\<close>

type_synonym op_metrics = "string \<rightharpoonup> int list"

definition record_operation_latency :: "op_metrics \<Rightarrow> string \<Rightarrow> int \<Rightarrow> op_metrics" where
  "record_operation_latency ms command latency =
     ms(command \<mapsto> (case ms command of Some ls \<Rightarrow> ls | None \<Rightarrow> []) @ [latency])"

datatype driver_end = Told_to_exit | Invalid_word | Raised cpp_error

partial_function (option) driver_loop ::
  "(nat \<Rightarrow> ('d, 'c) req_env) \<Rightarrow> (nat \<Rightarrow> int) \<Rightarrow> 'd \<Rightarrow> string \<Rightarrow> string \<Rightarrow> string \<Rightarrow> op_metrics \<Rightarrow> nat
     \<Rightarrow> ('d \<times> op_metrics \<times> nat \<times> driver_end) option" where
  "driver_loop envs lat d text command key ms ops =
     (let kv = rq_kv (envs ops)
      in case extract_word text command of
        (command, text) \<Rightarrow>
          if command = ''get'' then
            (case extract_word text key of
               (key, text) \<Rightarrow>
                 (case gdpr_get kv d key of
                    Inl e \<Rightarrow> Some (d, ms, ops, Raised e)
                  | Inr _ \<Rightarrow>
                      driver_loop envs lat d text command key (record_operation_latency ms command (lat ops)) (Suc ops)))
          else if command = ''put'' then
            (case extract_word text key of
               (key, text) \<Rightarrow>
                 (case gdpr_put kv (rq_db_iv (envs ops)) d key dummy_value of
                    Inl e \<Rightarrow> Some (d, ms, ops, Raised e)
                  | Inr r \<Rightarrow>
                      driver_loop envs lat (snd r) (snd (extract_word text [])) command key
                        (record_operation_latency ms command (lat ops)) (Suc ops)))
          else if command = ''del'' then
            (case extract_word text key of
               (key, text) \<Rightarrow>
                 (case gdpr_del kv d key of
                    Inl e \<Rightarrow> Some (d, ms, ops, Raised e)
                  | Inr r \<Rightarrow>
                      driver_loop envs lat (snd r) text command key (record_operation_latency ms command (lat ops)) (Suc ops)))
          else if command = ''exit'' then Some (d, ms, ops, Told_to_exit)
          else Some (d, ms, ops, Invalid_word))"

definition driver_main ::
  "(kv_kind \<Rightarrow> string \<Rightarrow> 'd kv_backend result) \<Rightarrow> (nat \<Rightarrow> ('d, 'c) req_env) \<Rightarrow> (nat \<Rightarrow> int) \<Rightarrow> string list \<Rightarrow> string \<Rightarrow> 'd
     \<Rightarrow> ('d \<times> op_metrics \<times> nat \<times> driver_end) option" where
  "driver_main connect envs lat args text d =
     (let db_type = get_command_line_argument args ''--db''
      in if db_type = [] then Some (d, Map.empty, 0, Raised Quick_exit)
         else
           case kv_factory_create connect db_type (get_command_line_argument args ''--address'') of
             Inl e \<Rightarrow> Some (d, Map.empty, 0, Raised e)
           | Inr be \<Rightarrow> driver_loop (\<lambda>i. with_backend be (envs i)) lat d text [] [] Map.empty 0)"

section \<open>When the direct client ends\<close>

definition ends_loop :: "string \<Rightarrow> bool" where
  "ends_loop line \<longleftrightarrow> (case query_of_input line of Inl e \<Rightarrow> True | Inr q \<Rightarrow> q_cmd q = ''exit'')"

definition never_raises :: "(nat \<Rightarrow> ('d, 'c) req_env) \<Rightarrow> bool" where
  "never_raises envs \<longleftrightarrow> (\<forall>i q d. \<exists>d' r. direct_dispatch (envs i) q d = (d', Inr r))"

lemma never_raisesD: "never_raises envs \<Longrightarrow> \<exists>d' r. direct_dispatch (envs i) q d = (d', Inr r)"
  by (simp add: never_raises_def)

text \<open>After the end of the input the last line is handled again and again.\<close>

lemma direct_loop_spins:
  assumes loop: "direct_loop envs i d s input printed = Some r"
    and "never_raises envs" "\<not> si_good s" "\<not> ends_loop input"
  shows False
proof -
  let ?P = "\<lambda>envs i d s input printed r. never_raises envs \<longrightarrow> si_good s \<or> ends_loop input"
  have "?P envs i d s input printed r"
  proof (rule direct_loop.raw_induct [where P = ?P, OF _ loop], rule impI, rule ccontr, goal_cases)
    case (1 f envs i d s input printed r)
    obtain q where q: "query_of_input input = Inr q" "q_cmd q \<noteq> ''exit''"
      using 1(4) by (auto simp: ends_loop_def split: sum.splits)
    obtain d1 x where "direct_dispatch (envs i) q d = (d1, Inr x)" using never_raisesD [OF 1(3)] by blast
    then have "f envs (Suc i) d1 s input (printed @ [x]) = Some r" using 1(2,4) q by (simp add: getline_def)
    from 1(1) [OF this] 1(3,4) show ?case by blast
  qed
  with assms(2-4) show False by blast
qed

lemma direct_loop_ends:
  assumes "ends_loop (snd (getline s input))"
  shows "\<exists>r. direct_loop envs i d s input printed = Some r"
  using assms by (subst direct_loop.simps) (auto simp: ends_loop_def split: sum.splits prod.splits)

lemma direct_loop_continues:
  assumes "never_raises envs" "getline s input = (s1, line)" "\<not> ends_loop line"
  shows "\<exists>d1 result. direct_loop envs i d s input printed = direct_loop envs (Suc i) d1 s1 line (printed @ [result])"
proof -
  obtain q where q: "query_of_input line = Inr q" "q_cmd q \<noteq> ''exit''"
    using assms(3) by (auto simp: ends_loop_def split: sum.splits)
  obtain d1 result where "direct_dispatch (envs i) q d = (d1, Inr result)" using never_raisesD [OF assms(1)] by blast
  with q assms(2) show ?thesis by (subst direct_loop.simps) auto
qed

lemma line_no_newline:
  "newline \<notin> set bs \<Longrightarrow> takeWhile (\<lambda>c. c \<noteq> newline) bs = bs \<and> dropWhile (\<lambda>c. c \<noteq> newline) bs = []"
  by (induction bs) auto

lemma line_newline:
  "newline \<notin> set line \<Longrightarrow> takeWhile (\<lambda>c. c \<noteq> newline) (line @ newline # rest) = line \<and>
     dropWhile (\<lambda>c. c \<noteq> newline) (line @ newline # rest) = newline # rest"
  by (induction line) auto

lemma getline_last: "newline \<notin> set bs \<Longrightarrow>
  getline \<lparr>si_text = bs, si_good = True\<rparr> input = (\<lparr>si_text = [], si_good = False\<rparr>, bs)"
  by (simp add: getline_def line_no_newline)

lemma getline_more: "newline \<notin> set line \<Longrightarrow>
  getline \<lparr>si_text = line @ newline # rest, si_good = True\<rparr> input = (\<lparr>si_text = rest, si_good = True\<rparr>, line)"
  by (simp add: getline_def line_newline)

lemma ends_loop_Nil: "ends_loop []"
proof -
  have "query_of_input [] = Inl Out_of_range"
    by (simp add: query_of_input_split process_predicate_def substr_between_def substr_from_def
        strip_quotes_def find_from_def find_last_of_def)
  then show ?thesis by (simp add: ends_loop_def)
qed

lemma direct_loop_ends_iff:
  assumes total: "never_raises envs"
  shows "(\<exists>r. direct_loop envs i d \<lparr>si_text = bs, si_good = True\<rparr> input printed = Some r) \<longleftrightarrow>
    bs = [] \<or> last bs = newline \<or> (\<exists>l\<in>set (split_on newline bs). ends_loop l)"
proof (induction bs arbitrary: i d input printed rule: length_induct)
  case (1 bs)
  show ?case
  proof (cases "newline \<in> set bs")
    case False
    then have g: "getline \<lparr>si_text = bs, si_good = True\<rparr> input = (\<lparr>si_text = [], si_good = False\<rparr>, bs)"
      by (rule getline_last)
    have l: "bs \<noteq> [] \<Longrightarrow> last bs \<noteq> newline" using False last_in_set by metis
    show ?thesis
    proof (cases "ends_loop bs")
      case True
      then show ?thesis using direct_loop_ends [of "\<lparr>si_text = bs, si_good = True\<rparr>" input] g False by auto
    next
      case no: False
      then have "bs \<noteq> []" using ends_loop_Nil by auto
      moreover obtain d1 x where "direct_loop envs i d \<lparr>si_text = bs, si_good = True\<rparr> input printed =
          direct_loop envs (Suc i) d1 \<lparr>si_text = [], si_good = False\<rparr> bs (printed @ [x])"
        using direct_loop_continues [OF total g no] by blast
      moreover have "direct_loop envs (Suc i) d1 \<lparr>si_text = [], si_good = False\<rparr> bs (printed @ [x]) \<noteq> Some r" for r
        using direct_loop_spins [OF _ total _ no] by fastforce
      ultimately show ?thesis using no False l by simp
    qed
  next
    case True
    then obtain line rest where t: "bs = line @ newline # rest" "newline \<notin> set line" by (metis split_list_first)
    note g = getline_more [OF t(2), of rest input]
    show ?thesis
    proof (cases "ends_loop line")
      case True
      then show ?thesis using direct_loop_ends [of "\<lparr>si_text = bs, si_good = True\<rparr>" input] g t by auto
    next
      case False
      obtain d1 x where "direct_loop envs i d \<lparr>si_text = bs, si_good = True\<rparr> input printed =
          direct_loop envs (Suc i) d1 \<lparr>si_text = rest, si_good = True\<rparr> line (printed @ [x])"
        using direct_loop_continues [OF total g False] t(1) by blast
      moreover have "length rest < length bs" using t(1) by simp
      ultimately show ?thesis using 1 t False by (auto simp: ends_loop_Nil)
    qed
  qed
qed

section \<open>When the test driver ends\<close>

text \<open>A workload, as the scripts write it for the driver: one call per line.\<close>

datatype call = Get_call string | Put_call string string | Del_call string

fun call_name :: "call \<Rightarrow> string" where
  "call_name (Get_call k) = ''get''"
| "call_name (Put_call k v) = ''put''"
| "call_name (Del_call k) = ''del''"

fun call_key :: "call \<Rightarrow> string" where
  "call_key (Get_call k) = k"
| "call_key (Put_call k v) = k"
| "call_key (Del_call k) = k"

fun call_text :: "call \<Rightarrow> string" where
  "call_text (Get_call k) = ''get '' @ k @ [newline]"
| "call_text (Put_call k v) = ''put '' @ k @ '' '' @ v @ [newline]"
| "call_text (Del_call k) = ''del '' @ k @ [newline]"

fun call_ok :: "call \<Rightarrow> bool" where
  "call_ok (Put_call k v) \<longleftrightarrow> word_text k \<and> word_text v"
| "call_ok c \<longleftrightarrow> word_text (call_key c)"

text \<open>What the client does for a call, and the state and the latencies after a workload.\<close>

definition client_call :: "('d, 'c) req_env \<Rightarrow> string \<Rightarrow> string \<Rightarrow> 'd \<Rightarrow> 'd result" where
  "client_call env command key d =
     (if command = ''get'' then bind_result (gdpr_get (rq_kv env) d key) (\<lambda>_. Inr d)
      else if command = ''put'' then bind_result (gdpr_put (rq_kv env) (rq_db_iv env) d key dummy_value) (\<lambda>r. Inr (snd r))
      else bind_result (gdpr_del (rq_kv env) d key) (\<lambda>r. Inr (snd r)))"

fun after_calls :: "(nat \<Rightarrow> ('d, 'c) req_env) \<Rightarrow> nat \<Rightarrow> call list \<Rightarrow> 'd \<Rightarrow> 'd result" where
  "after_calls envs n [] d = Inr d"
| "after_calls envs n (c # cs) d = bind_result (client_call (envs n) (call_name c) (call_key c) d) (after_calls envs (Suc n) cs)"

fun metrics_of :: "(nat \<Rightarrow> int) \<Rightarrow> nat \<Rightarrow> call list \<Rightarrow> op_metrics \<Rightarrow> op_metrics" where
  "metrics_of lat n [] ms = ms"
| "metrics_of lat n (c # cs) ms = metrics_of lat (Suc n) cs (record_operation_latency ms (call_name c) (lat n))"

lemma extract_word_skip: "is_space x \<Longrightarrow> extract_word (x # s) w = extract_word s w"
  by (simp add: extract_word_def)

lemma extract_word_next: "word_text w \<Longrightarrow> is_space x \<Longrightarrow> extract_word (w @ x # s) old = (w, x # s)"
  by (simp add: extract_word_def word_text_def next_token_word)

lemma driver_loop_skip:
  "is_space x \<Longrightarrow> driver_loop envs lat d (x # s) command key ms n = driver_loop envs lat d s command key ms n"
  by (subst (1 2) driver_loop.simps) (simp only: extract_word_skip)

lemma newline_space: "is_space newline" "is_space CHR '' ''"
  by (simp_all add: newline_def is_space_def)

lemma driver_loop_call:
  assumes "extract_word s command = (call_name c, s1)" "extract_word s1 key = (call_key c, s2)"
    and "(case c of Put_call k v \<Rightarrow> snd (extract_word s2 []) | _ \<Rightarrow> s2) = s3"
    and "client_call (envs n) (call_name c) (call_key c) d = Inr d'"
  shows "driver_loop envs lat d s command key ms n =
    driver_loop envs lat d' s3 (call_name c) (call_key c) (record_operation_latency ms (call_name c) (lat n)) (Suc n)"
  using assms
  by (cases c; subst driver_loop.simps)
    (auto simp: client_call_def Let_def bind_result_eq_Inr_iff split: sum.splits)

lemma driver_loop_call_text:
  assumes ok: "call_ok c" and call: "client_call (envs n) (call_name c) (call_key c) d = Inr d'"
  shows "driver_loop envs lat d (call_text c @ rest) command key ms n =
    driver_loop envs lat d' rest (call_name c) (call_key c) (record_operation_latency ms (call_name c) (lat n)) (Suc n)"
proof -
  have w: "word_text (call_name c)" by (cases c) (simp_all add: word_text_def is_space_def)
  obtain s1 where s1: "call_text c @ rest = call_name c @ CHR '' '' # s1"
    and k: "\<exists>s2. extract_word (CHR '' '' # s1) key = (call_key c, s2) \<and>
      (case c of Put_call k v \<Rightarrow> snd (extract_word s2 []) | _ \<Rightarrow> s2) = newline # rest"
    using ok by (cases c) (auto simp: extract_word_next extract_word_skip newline_space)
  have "extract_word (call_text c @ rest) command = (call_name c, CHR '' '' # s1)"
    unfolding s1 using w by (rule extract_word_next) (rule newline_space)
  with k show ?thesis
    using driver_loop_call [where c = c and envs = envs and n = n, OF _ _ _ call] by (auto simp: driver_loop_skip newline_space)
qed

lemma driver_loop_calls:
  assumes "\<forall>c\<in>set cs. call_ok c" "after_calls envs n cs d = Inr d'"
  shows "driver_loop envs lat d (concat (map call_text cs) @ rest) command key ms n =
    driver_loop envs lat d' rest (if cs = [] then command else call_name (last cs)) (if cs = [] then key else call_key (last cs))
      (metrics_of lat n cs ms) (n + length cs)"
  using assms
proof (induction cs arbitrary: d command key ms n)
  case (Cons c cs)
  from Cons.prems obtain d1 where d1: "client_call (envs n) (call_name c) (call_key c) d = Inr d1"
    "after_calls envs (Suc n) cs d1 = Inr d'" by (auto simp: bind_result_eq_Inr_iff)
  show ?case
    using driver_loop_call_text [where envs = envs and n = n, OF _ d1(1), of lat "concat (map call_text cs) @ rest"] Cons d1(2) by simp
qed simp

text \<open>At the end of the input the last call is made again and again.\<close>

lemma driver_loop_spins:
  assumes loop: "driver_loop envs lat d [] command key ms n = Some r"
    and "command \<in> {''get'', ''put'', ''del''}" "\<And>i d. \<exists>d'. client_call (envs i) command key d = Inr d'"
  shows False
proof -
  let ?P = "\<lambda>envs (lat :: nat \<Rightarrow> int) d (s :: string) command key (ms :: op_metrics) (n :: nat) r.
    s = [] \<and> command \<in> {''get'', ''put'', ''del''} \<longrightarrow> (\<exists>i d. \<forall>d'. client_call (envs i) command key d \<noteq> Inr d')"
  have e: "extract_word [] w = (w, [])" for w by (simp add: extract_word_def next_token_def)
  have "?P envs lat d [] command key ms n r"
  proof (rule driver_loop.raw_induct [where P = ?P, OF _ loop], rule impI, goal_cases)
    case (1 f envs lat d s command key ms n r)
    show ?case
    proof (cases "\<exists>d'. client_call (envs n) command key d = Inr d'")
      case True
      then obtain d' where "client_call (envs n) command key d = Inr d'" by blast
      with 1(2,3) have "f envs lat d' [] command key (record_operation_latency ms command (lat n)) (Suc n) = Some r"
        by (auto simp: e client_call_def Let_def bind_result_eq_Inr_iff)
      from 1(1) [OF this] 1(3) show ?thesis by blast
    qed blast
  qed
  with assms(2,3) show False by blast
qed

end
