(* ===== verification/Console_Properties.thy ===== *)
theory Console_Properties
  imports Console Access_Properties
begin

text \<open>
  The properties of the programs on the standard input: what they compute, and exactly when they end.
\<close>

lemma redis_env_total: "\<exists>d' r. direct_dispatch redis_env q d = (d', Inr r)"
  by (auto simp: direct_dispatch_def native_get_def native_put_def native_delete_def gdpr_del_def redis_env_def
      plain_env_def sealed_env_def redis_backend_def map_redis_def redis_del_def redis_get_def redis_put_def
      gdpr_get_def gdpr_put_def)

text \<open>
  C38. When the direct client ends: over a backend that does not raise it comes to an end exactly if its
  input is empty, closes with a newline, or has a line that is \<^verbatim>\<open>exit\<close> or that the parser refuses.
  Otherwise the last line, which no newline ends, is executed for ever.
\<close>

theorem direct_client_ends_iff:
  assumes "\<forall>i q d. \<exists>d' r. direct_dispatch (envs i) q d = (d', Inr r)"
  shows "direct_loop envs 0 d \<lparr>si_text = input, si_good = True\<rparr> [] [] \<noteq> None \<longleftrightarrow>
    input = [] \<or> last input = newline \<or> (\<exists>l\<in>set (split_on newline input). ends_loop l)"
proof -
  have "never_raises envs" using assms by (simp add: never_raises_def)
  from direct_loop_ends_iff [OF this, of 0 d input "[]" "[]"] show ?thesis by (simp only: not_None_eq)
qed

theorem direct_client_ends_iff_witness:
  "direct_loop (\<lambda>i. redis_env) 0 Map.empty \<lparr>si_text = command1 ''get'' ''k'', si_good = True\<rparr> [] [] = None \<and>
   direct_loop (\<lambda>i. redis_env) 0 Map.empty \<lparr>si_text = command1 ''get'' ''k'' @ [newline], si_good = True\<rparr> [] [] \<noteq> None"
proof -
  have "\<not> ends_loop (command1 ''get'' ''k'')" "newline \<notin> set (command1 ''get'' ''k'')"
    "last (command1 ''get'' ''k'') \<noteq> newline" "command1 ''get'' ''k'' \<noteq> []"
    by (code_simp, code_simp, code_simp, code_simp)
  then show ?thesis
    using direct_client_ends_iff [of "\<lambda>i. redis_env" Map.empty "command1 ''get'' ''k''"]
      direct_client_ends_iff [of "\<lambda>i. redis_env" Map.empty "command1 ''get'' ''k'' @ [newline]"] redis_env_total
    by (simp del: not_None_eq)
qed

text \<open>
  The test driver runs its workload and ends only when told to: for every list of calls on words,
  over a client that does not raise, the text of the calls followed by \<^verbatim>\<open>exit\<close> leaves the state of the
  calls in sequence, one latency for each and their number; without the last word, and with at least
  one call, the driver never ends, since a failed read leaves the last command in place.
\<close>

theorem driver_needs_exit:
  assumes ok: "\<forall>c\<in>set cs. call_ok c" and total: "\<forall>i cmd key d. \<exists>d'. client_call (envs i) cmd key d = Inr d'"
  shows "(\<exists>d'. after_calls envs 0 cs d = Inr d' \<and>
      driver_loop envs lat d (concat (map call_text cs) @ ''exit'' @ [newline]) [] [] Map.empty 0 =
        Some (d', metrics_of lat 0 cs Map.empty, length cs, Told_to_exit)) \<and>
    (cs \<noteq> [] \<longrightarrow> driver_loop envs lat d (concat (map call_text cs)) [] [] Map.empty 0 = None)"
proof -
  have "\<exists>d'. after_calls envs n cs d = Inr d'" for n d
    by (induction cs arbitrary: n d) (simp, metis total after_calls.simps(2) bind_result_eq_Inr_iff)
  then obtain d' where d': "after_calls envs 0 cs d = Inr d'" by blast
  have "extract_word (''exit'' @ [newline]) w = (''exit'', [newline])" for w
    by (simp add: extract_word_def next_token_def is_space_def newline_def)
  then have "driver_loop envs lat d1 (''exit'' @ [newline]) command key ms n = Some (d1, ms, n, Told_to_exit)" for d1 command key ms n
    by (subst driver_loop.simps) (simp add: Let_def)
  then have "driver_loop envs lat d (concat (map call_text cs) @ ''exit'' @ [newline]) [] [] Map.empty 0 =
      Some (d', metrics_of lat 0 cs Map.empty, length cs, Told_to_exit)"
    using driver_loop_calls [OF ok d', of lat "''exit'' @ [newline]" "[]" "[]" Map.empty] by simp
  moreover have "driver_loop envs lat d (concat (map call_text cs)) [] [] Map.empty 0 = None" if "cs \<noteq> []"
  proof -
    have "call_name (last cs) \<in> {''get'', ''put'', ''del''}" by (cases "last cs") auto
    then have "driver_loop envs lat d' [] (call_name (last cs)) (call_key (last cs)) ms n \<noteq> Some r" for ms n r
      using driver_loop_spins [of envs lat d' _ _ ms n r] total by blast
    then show ?thesis
      using driver_loop_calls [OF ok d', of lat "[]" "[]" "[]" Map.empty] that by (simp flip: not_Some_eq)
  qed
  ultimately show ?thesis using d' by blast
qed

lemma redis_env_calls: "\<exists>d'. client_call redis_env cmd key d = Inr d'"
  by (auto simp: client_call_def gdpr_del_def redis_env_def plain_env_def sealed_env_def redis_backend_def map_redis_def
      redis_del_def redis_get_def redis_put_def gdpr_get_def gdpr_put_def)

theorem driver_needs_exit_witness:
  "driver_loop (\<lambda>i. redis_env) (\<lambda>i. 0) Map.empty (concat (map call_text [Put_call ''a'' ''1'', Get_call ''a''])) [] [] Map.empty 0 = None"
  using driver_needs_exit [of "[Put_call ''a'' ''1'', Get_call ''a'']" "\<lambda>i. redis_env" Map.empty "\<lambda>i. 0"] redis_env_calls
  by (simp add: word_text_def is_space_def)

end
