(* ===== verification/Cipher_Print.thy ===== *)
theory Cipher_Print
  imports Cpp_Number
begin

text \<open>
  \<^verbatim>\<open>encryption/cipher_print_utils.hpp\<close>: keys, vectors and ciphertexts printed as hexadecimal digits.

  The output stream has the formatting state that the manipulators change: the base, the fill
  character and the width of the next field, which every insertion resets; \<open>os_out\<close> is what was
  printed. The base is set back to decimal at the end, the fill character is not.
\<close>

record ostream =
  os_out :: string
  os_base :: nat
  os_fill :: char
  os_width :: nat

definition hex_char :: "nat \<Rightarrow> char" where
  "hex_char n = (if n < 10 then char_of (48 + n) else char_of (87 + n))"

fun radix_nat :: "nat \<Rightarrow> nat \<Rightarrow> string" where
  "radix_nat base n = (if base < 2 \<or> n < base then [hex_char n] else radix_nat base (n div base) @ [hex_char (n mod base)])"

declare radix_nat.simps [simp del]

text \<open>Insertion of a non-negative \<^verbatim>\<open>int\<close>: the digits in the base of the stream, filled on the left.\<close>

definition put_int :: "ostream \<Rightarrow> nat \<Rightarrow> ostream" where
  "put_int os n =
     (let ds = radix_nat (os_base os) n
      in os\<lparr>os_out := os_out os @ replicate (os_width os - length ds) (os_fill os) @ ds, os_width := 0\<rparr>)"

definition put_endl :: "ostream \<Rightarrow> ostream" where
  "put_endl os = os\<lparr>os_out := os_out os @ [CHR 0x0A], os_width := 0\<rparr>"

text \<open>The loop all three functions have.\<close>

fun print_loop :: "ostream \<Rightarrow> string \<Rightarrow> ostream" where
  "print_loop os [] = os"
| "print_loop os (b # bs) =
     print_loop (put_int (os\<lparr>os_base := 16, os_width := 2, os_fill := CHR ''0''\<rparr>) (of_char b)) bs"

definition print_bytes :: "ostream \<Rightarrow> string \<Rightarrow> ostream" where
  "print_bytes os data = put_endl ((print_loop os data)\<lparr>os_base := 10\<rparr>)"

definition print_int_bytes :: "ostream \<Rightarrow> int \<Rightarrow> ostream" where
  "print_int_bytes os value = put_endl ((print_loop os (le_bytes 4 (from_signed 32 value)))\<lparr>os_base := 10\<rparr>)"

definition print_buffer_bytes :: "ostream \<Rightarrow> string \<Rightarrow> nat \<Rightarrow> ostream result" where
  "print_buffer_bytes os data len =
     (if length data < len then Inl Undefined_behaviour
      else Inr (put_endl ((print_loop os (take len data))\<lparr>os_base := 10\<rparr>)))"

section \<open>Reading the digits back\<close>

definition hex_byte :: "char \<Rightarrow> string" where
  "hex_byte b = [hex_char (of_char b div 16), hex_char (of_char b mod 16)]"

definition hex_val :: "char \<Rightarrow> nat" where
  "hex_val c = (let n = of_char c in if n < 58 then n - 48 else n - 87)"

fun unhex :: "string \<Rightarrow> string" where
  "unhex (a # b # s) = char_of (16 * hex_val a + hex_val b) # unhex s"
| "unhex _ = []"

lemma of_char_less_256: "(of_char b :: nat) < 256"
  by (cases b) (simp add: of_char_def)

lemma high_digit: "(of_char b :: nat) div 16 < 16"
  using of_char_less_256 [of b] by (intro less_mult_imp_div_less) simp

lemma hex_val_char: "n < 16 \<Longrightarrow> hex_val (hex_char n) = n"
  by (simp add: hex_val_def hex_char_def Let_def)

lemma unhex_bytes: "unhex (concat (map hex_byte bs)) = bs"
proof (induction bs)
  case (Cons b bs)
  then show ?case
    using high_digit [of b] by (simp add: hex_byte_def hex_val_char)
qed simp

lemma print_loop_out: "os_out (print_loop os bs) = os_out os @ concat (map hex_byte bs)"
proof (induction bs arbitrary: os)
  case (Cons b bs)
  have "char_of (48 :: nat) = CHR ''0''" by (simp add: char_of_def bit_iff_odd)
  then have "replicate (2 - length (radix_nat 16 (of_char b))) (CHR ''0'') @ radix_nat 16 (of_char b) = hex_byte b"
    using high_digit [of b] by (simp add: radix_nat.simps [of 16] hex_byte_def hex_char_def)
  with Cons show ?case by (simp add: put_int_def Let_def)
qed simp

text \<open>
  The printed digits determine the bytes: every function prints two hexadecimal digits for each byte
  and a newline, from which the bytes are read back; the bytes of an integer are those of its memory,
  least significant first, so the value is not in reading order.
\<close>

theorem printed_bytes_read_back:
  "(\<exists>ds. os_out (print_bytes os data) = os_out os @ ds @ [CHR 0x0A] \<and> length ds = 2 * length data \<and> unhex ds = data) \<and>
   (\<exists>ds. os_out (print_int_bytes os v) = os_out os @ ds @ [CHR 0x0A] \<and> length ds = 8 \<and>
      le_val (unhex ds) = from_signed 32 v mod 2 ^ 32)"
proof -
  have "length (concat (map hex_byte bs)) = 2 * length bs" for bs by (induction bs) (simp_all add: hex_byte_def)
  then show ?thesis
    by (simp add: print_bytes_def print_int_bytes_def put_endl_def print_loop_out unhex_bytes)
qed

end
