(* ===== verification/Microbench.thy ===== *)
theory Microbench
  imports Console
begin

text \<open>
  The micro-benchmark over pipes (\<^verbatim>\<open>evaluation/microbenchmarks/cpp_test\<close>): \<^verbatim>\<open>direct_setup.cpp\<close> makes two
  pipes, starts \<^verbatim>\<open>direct_server.cpp\<close> and \<^verbatim>\<open>direct_client.cpp\<close> on them, closes its own ends and waits.

  A process has a descriptor table, a list with the open file of each descriptor, so that \<^verbatim>\<open>pipe\<close> takes
  the lowest free ones and \<^verbatim>\<open>fork\<close> copies it. A read of a pipe ends only when no process has its write end,
  and a write to a pipe without a reader kills the writer: both depend on which ends the processes
  closed. The three processes run as a step relation, one step per system call that can block; the
  standard streams are flushed at each \<^verbatim>\<open>endl\<close>, so a line is written by one call, and it is below the size
  up to which a write to a pipe is atomic. The random numbers of \<^verbatim>\<open>random_string\<close> and the outcomes of the
  system calls are arguments. \<open>direct_run_length\<close> says that a run with every call successful has exactly
  \<open>4 * n + 9\<close> steps, whatever the order, and \<open>failed_start_ends\<close> that it also ends when a process could not
  be started.
\<close>

section \<open>The requests\<close>

definition bench_rounds :: nat where "bench_rounds = 1000000"
definition KEY_SIZE :: nat where "KEY_SIZE = 16"
definition VALUE_SIZE :: nat where "VALUE_SIZE = 64"

definition bench_characters :: string where
  "bench_characters = ''0123456789ABCDEFGHIJKLMNOPQRSTUVWXYZabcdefghijklmnopqrstuvwxyz''"

text \<open>
  \<open>draw i\<close> is number \<open>i\<close> of the values of the generator, which is static: a call goes on at the position
  the one before has left, which is \<open>from\<close>.
\<close>

primrec random_string :: "(nat \<Rightarrow> nat) \<Rightarrow> nat \<Rightarrow> nat \<Rightarrow> string" where
  "random_string draw from 0 = []"
| "random_string draw from (Suc n) = bench_characters ! draw from # random_string draw (Suc from) n"

definition bench_line :: "(nat \<Rightarrow> nat) \<Rightarrow> string" where
  "bench_line draw =
     (let key = random_string draw 0 KEY_SIZE; val = random_string draw KEY_SIZE VALUE_SIZE
      in key @ '' '' @ val @ [newline])"

section \<open>Descriptors\<close>

datatype pipe_id = Client_to_server | Server_to_client

datatype open_file = Terminal | Read_end pipe_id | Write_end pipe_id

type_synonym fd_table = "open_file option list"

fun alloc_fd :: "open_file \<Rightarrow> fd_table \<Rightarrow> nat \<times> fd_table" where
  "alloc_fd f [] = (0, [Some f])"
| "alloc_fd f (None # t) = (0, Some f # t)"
| "alloc_fd f (Some g # t) = (case alloc_fd f t of (n, t') \<Rightarrow> (Suc n, Some g # t'))"

definition make_pipe :: "pipe_id \<Rightarrow> fd_table \<Rightarrow> (nat \<times> nat) \<times> fd_table" where
  "make_pipe p t =
     (case alloc_fd (Read_end p) t of
        (r, t1) \<Rightarrow> (case alloc_fd (Write_end p) t1 of (w, t2) \<Rightarrow> ((r, w), t2)))"

definition close_fd :: "nat \<Rightarrow> fd_table \<Rightarrow> fd_table" where
  "close_fd fd t = t[fd := None]"

definition dup2 :: "nat \<Rightarrow> nat \<Rightarrow> fd_table \<Rightarrow> fd_table" where
  "dup2 old new t = (if old < length t \<and> t ! old \<noteq> None then t[new := t ! old] else t)"

section \<open>The processes\<close>

datatype bench_proc = Setup | Server | Client

datatype bench_exit = Not_started | Exited nat | Killed_by_sigpipe

text \<open>The program counters; the client keeps its loop counter, also when it ends.\<close>

datatype client_pc = Client_failing | Client_sends nat | Client_awaits nat | Client_ended nat bench_exit

datatype server_pc = Server_failing | Server_reads | Server_answers | Server_ended bench_exit

text \<open>
  \<open>ds_to_close\<close> and \<open>ds_waits\<close> are what is left of the calls of the setup process: the descriptors to close
  and the children to wait for, \<open>None\<close> where \<^verbatim>\<open>fork\<close> returned \<open>-1\<close>. \<open>ds_children\<close> are the children not yet
  waited for. \<open>ds_errors\<close> has the unexpected responses the client reported.
\<close>

record direct_sys =
  ds_fds :: "bench_proc \<Rightarrow> fd_table"
  ds_c2s :: string
  ds_s2c :: string
  ds_client :: client_pc
  ds_client_good :: bool
  ds_server :: server_pc
  ds_server_good :: bool
  ds_to_close :: "nat list"
  ds_waits :: "bench_proc option list"
  ds_children :: "bench_proc set"
  ds_exit :: "nat option"
  ds_errors :: "string list"

record direct_script =
  sd_pipe_c2s :: bool
  sd_pipe_s2c :: bool
  sd_fork_server :: bool
  sd_exec_server :: bool
  sd_fork_client :: bool
  sd_exec_client :: bool

definition server_fds :: "nat \<times> nat \<Rightarrow> nat \<times> nat \<Rightarrow> fd_table \<Rightarrow> fd_table" where
  "server_fds c2s s2c t =
     (let t1 = dup2 (fst c2s) 0 t;
          t2 = dup2 (snd s2c) 1 t1;
          t3 = close_fd (snd c2s) t2
      in close_fd (fst s2c) t3)"

definition client_fds :: "nat \<times> nat \<Rightarrow> nat \<times> nat \<Rightarrow> fd_table \<Rightarrow> fd_table" where
  "client_fds c2s s2c t =
     (let t1 = dup2 (snd c2s) 1 t;
          t2 = dup2 (fst s2c) 0 t1;
          t3 = close_fd (fst c2s) t2
      in close_fd (snd s2c) t3)"

text \<open>
  \<^verbatim>\<open>direct_setup.cpp\<close> up to the second \<^verbatim>\<open>fork\<close>; \<open>None\<close> if \<^verbatim>\<open>main\<close> returned 1 because a pipe could not be made.
  Nothing but the failure to start can happen in a child before: the server waits for the client's
  first line.
\<close>

definition direct_setup :: "direct_script \<Rightarrow> direct_sys option" where
  "direct_setup sc =
     (if \<not> sd_pipe_c2s sc \<or> \<not> sd_pipe_s2c sc then None
      else
        case make_pipe Client_to_server [Some Terminal, Some Terminal, Some Terminal] of
          (c2s, t1) \<Rightarrow>
            (case make_pipe Server_to_client t1 of
               (s2c, t2) \<Rightarrow>
                 Some
                   \<lparr>ds_fds = (\<lambda>_. t2)
                      (Server := if sd_fork_server sc then server_fds c2s s2c t2 else [],
                       Client := if sd_fork_client sc then client_fds c2s s2c t2 else []),
                    ds_c2s = [], ds_s2c = [],
                    ds_client =
                      (if \<not> sd_fork_client sc then Client_ended 0 Not_started
                       else if sd_exec_client sc then Client_sends 0 else Client_failing),
                    ds_client_good = True,
                    ds_server =
                      (if \<not> sd_fork_server sc then Server_ended Not_started
                       else if sd_exec_server sc then Server_reads else Server_failing),
                    ds_server_good = True,
                    ds_to_close = [fst c2s, snd c2s, fst s2c, snd s2c],
                    ds_waits = [if sd_fork_client sc then Some Client else None, if sd_fork_server sc then Some Server else None],
                    ds_children = (if sd_fork_client sc then {Client} else {}) \<union> (if sd_fork_server sc then {Server} else {}),
                    ds_exit = None, ds_errors = []\<rparr>))"

section \<open>Steps\<close>

definition someone_has :: "direct_sys \<Rightarrow> open_file \<Rightarrow> bool" where
  "someone_has s f \<longleftrightarrow> Some f \<in> set (ds_fds s Setup) \<union> set (ds_fds s Server) \<union> set (ds_fds s Client)"

definition pipe_capacity :: nat where "pipe_capacity = 65536"

definition proc_ended :: "direct_sys \<Rightarrow> bench_proc \<Rightarrow> bool" where
  "proc_ended s c =
     (case c of
        Setup \<Rightarrow> ds_exit s \<noteq> None
      | Server \<Rightarrow> (case ds_server s of Server_ended _ \<Rightarrow> True | _ \<Rightarrow> False)
      | Client \<Rightarrow> (case ds_client s of Client_ended _ _ \<Rightarrow> True | _ \<Rightarrow> False))"

text \<open>A process that ends has its descriptors closed.\<close>

definition end_client :: "direct_sys \<Rightarrow> nat \<Rightarrow> bench_exit \<Rightarrow> direct_sys" where
  "end_client s i e = s\<lparr>ds_client := Client_ended i e, ds_fds := (ds_fds s)(Client := [])\<rparr>"

definition end_server :: "direct_sys \<Rightarrow> bench_exit \<Rightarrow> direct_sys" where
  "end_server s e = s\<lparr>ds_server := Server_ended e, ds_fds := (ds_fds s)(Server := [])\<rparr>"

text \<open>A line can be read from a pipe when it is complete or when nobody can write the rest of it.\<close>

definition line_ready :: "direct_sys \<Rightarrow> pipe_id \<Rightarrow> string \<Rightarrow> bool" where
  "line_ready s p contents \<longleftrightarrow> newline \<in> set contents \<or> \<not> someone_has s (Write_end p)"

text \<open>The end of \<^verbatim>\<open>direct_setup.cpp\<close>: the four calls of \<^verbatim>\<open>close\<close>, the two of \<^verbatim>\<open>waitpid\<close> and the return.\<close>

inductive direct_setup_step :: "direct_sys \<Rightarrow> direct_sys \<Rightarrow> bool" where
  close: "ds_to_close s = fd # rest \<Longrightarrow>
    direct_setup_step s (s\<lparr>ds_to_close := rest, ds_fds := (ds_fds s)(Setup := close_fd fd (ds_fds s Setup))\<rparr>)"
| wait: "\<lbrakk>ds_to_close s = []; ds_waits s = Some c # rest; c \<notin> ds_children s \<or> proc_ended s c\<rbrakk> \<Longrightarrow>
    direct_setup_step s (s\<lparr>ds_waits := rest, ds_children := ds_children s - {c}\<rparr>)"
| wait_any: "\<lbrakk>ds_to_close s = []; ds_waits s = None # rest; c \<in> ds_children s; proc_ended s c\<rbrakk> \<Longrightarrow>
    direct_setup_step s (s\<lparr>ds_waits := rest, ds_children := ds_children s - {c}\<rparr>)"
| wait_none: "\<lbrakk>ds_to_close s = []; ds_waits s = None # rest; ds_children s = {}\<rbrakk> \<Longrightarrow>
    direct_setup_step s (s\<lparr>ds_waits := rest\<rparr>)"
| return: "\<lbrakk>ds_to_close s = []; ds_waits s = []; ds_exit s = None\<rbrakk> \<Longrightarrow>
    direct_setup_step s (s\<lparr>ds_exit := Some 0, ds_fds := (ds_fds s)(Setup := [])\<rparr>)"

text \<open>The loop of \<^verbatim>\<open>direct_client.cpp\<close>, for \<open>n\<close> rounds with the request \<open>line\<close>.\<close>

inductive direct_client_step :: "nat \<Rightarrow> string \<Rightarrow> direct_sys \<Rightarrow> direct_sys \<Rightarrow> bool" for n line where
  fails: "ds_client s = Client_failing \<Longrightarrow> direct_client_step n line s (end_client s 0 (Exited 1))"
| sends: "\<lbrakk>ds_client s = Client_sends i; i < n; someone_has s (Read_end Client_to_server);
      length (ds_c2s s) + length line \<le> pipe_capacity\<rbrakk> \<Longrightarrow>
    direct_client_step n line s (s\<lparr>ds_client := Client_awaits i, ds_c2s := ds_c2s s @ line\<rparr>)"
| sigpipe: "\<lbrakk>ds_client s = Client_sends i; i < n; \<not> someone_has s (Read_end Client_to_server)\<rbrakk> \<Longrightarrow>
    direct_client_step n line s (end_client s i Killed_by_sigpipe)"
| answered: "\<lbrakk>ds_client s = Client_awaits i; \<not> ds_client_good s \<or> line_ready s Server_to_client (ds_s2c s);
      getline \<lparr>si_text = ds_s2c s, si_good = ds_client_good s\<rparr> [] = (inp, response); response = ''true''\<rbrakk> \<Longrightarrow>
    direct_client_step n line s
      (s\<lparr>ds_client := Client_sends (Suc i), ds_s2c := si_text inp, ds_client_good := si_good inp\<rparr>)"
| breaks: "\<lbrakk>ds_client s = Client_awaits i; \<not> ds_client_good s \<or> line_ready s Server_to_client (ds_s2c s);
      getline \<lparr>si_text = ds_s2c s, si_good = ds_client_good s\<rparr> [] = (inp, response); response \<noteq> ''true''\<rbrakk> \<Longrightarrow>
    direct_client_step n line s
      (end_client (s\<lparr>ds_s2c := si_text inp, ds_errors := ds_errors s @ [''Unexpected response: '' @ response]\<rparr>) i (Exited 0))"
| returns: "\<lbrakk>ds_client s = Client_sends i; \<not> i < n\<rbrakk> \<Longrightarrow> direct_client_step n line s (end_client s i (Exited 0))"

text \<open>The loop of \<^verbatim>\<open>direct_server.cpp\<close>.\<close>

inductive direct_server_step :: "direct_sys \<Rightarrow> direct_sys \<Rightarrow> bool" where
  fails: "ds_server s = Server_failing \<Longrightarrow> direct_server_step s (end_server s (Exited 1))"
| reads: "\<lbrakk>ds_server s = Server_reads; line_ready s Client_to_server (ds_c2s s); ds_server_good s; ds_c2s s \<noteq> [];
      getline \<lparr>si_text = ds_c2s s, si_good = True\<rparr> [] = (inp, request)\<rbrakk> \<Longrightarrow>
    direct_server_step s (s\<lparr>ds_server := Server_answers, ds_c2s := si_text inp, ds_server_good := si_good inp\<rparr>)"
| returns: "\<lbrakk>ds_server s = Server_reads;
      \<not> ds_server_good s \<or> ds_c2s s = [] \<and> line_ready s Client_to_server []\<rbrakk> \<Longrightarrow>
    direct_server_step s (end_server s (Exited 0))"
| answers: "\<lbrakk>ds_server s = Server_answers; someone_has s (Read_end Server_to_client);
      length (ds_s2c s) + 5 \<le> pipe_capacity\<rbrakk> \<Longrightarrow>
    direct_server_step s (s\<lparr>ds_server := Server_reads, ds_s2c := ds_s2c s @ ''true'' @ [newline]\<rparr>)"
| sigpipe: "\<lbrakk>ds_server s = Server_answers; \<not> someone_has s (Read_end Server_to_client)\<rbrakk> \<Longrightarrow>
    direct_server_step s (end_server s Killed_by_sigpipe)"

definition direct_step :: "nat \<Rightarrow> string \<Rightarrow> direct_sys \<Rightarrow> direct_sys \<Rightarrow> bool" where
  "direct_step n line s s' \<longleftrightarrow> direct_setup_step s s' \<or> direct_client_step n line s s' \<or> direct_server_step s s'"

lemma direct_stepI:
  "direct_setup_step s s' \<Longrightarrow> direct_step n line s s'"
  "direct_client_step n line s s' \<Longrightarrow> direct_step n line s s'"
  "direct_server_step s s' \<Longrightarrow> direct_step n line s s'"
  by (simp_all add: direct_step_def)

lemma direct_step_cases [consumes 1, case_names by_setup by_client by_server]:
  assumes "direct_step n line s s'"
  obtains "direct_setup_step s s'" | "direct_client_step n line s s'" | "direct_server_step s s'"
  using assms by (auto simp: direct_step_def)

lemmas setup_close = direct_setup_step.close [THEN direct_stepI(1)]
lemmas setup_wait = direct_setup_step.wait [THEN direct_stepI(1)]
lemmas setup_wait_any = direct_setup_step.wait_any [THEN direct_stepI(1)]
lemmas setup_wait_none = direct_setup_step.wait_none [THEN direct_stepI(1)]
lemmas setup_return = direct_setup_step.return [THEN direct_stepI(1)]
lemmas client_fails = direct_client_step.fails [THEN direct_stepI(2)]
lemmas client_sends = direct_client_step.sends [THEN direct_stepI(2)]
lemmas client_sigpipe = direct_client_step.sigpipe [THEN direct_stepI(2)]
lemmas client_answered = direct_client_step.answered [THEN direct_stepI(2)]
lemmas client_breaks = direct_client_step.breaks [THEN direct_stepI(2)]
lemmas client_returns = direct_client_step.returns [THEN direct_stepI(2)]
lemmas server_fails = direct_server_step.fails [THEN direct_stepI(3)]
lemmas server_reads = direct_server_step.reads [THEN direct_stepI(3)]
lemmas server_returns = direct_server_step.returns [THEN direct_stepI(3)]
lemmas server_answers = direct_server_step.answers [THEN direct_stepI(3)]
lemmas server_sigpipe = direct_server_step.sigpipe [THEN direct_stepI(3)]

section \<open>Which process holds which end\<close>

definition server_table :: fd_table where
  "server_table = [Some (Read_end Client_to_server), Some (Write_end Server_to_client), Some Terminal,
     Some (Read_end Client_to_server), None, None, Some (Write_end Server_to_client)]"

definition client_table :: fd_table where
  "client_table = [Some (Read_end Server_to_client), Some (Write_end Client_to_server), Some Terminal,
     None, Some (Write_end Client_to_server), Some (Read_end Server_to_client), None]"

text \<open>
  The ends of a process are those of its role until it ends, and the setup process has no end but those
  it will still close.
\<close>

definition ends_inv :: "direct_sys \<Rightarrow> bool" where
  "ends_inv s \<longleftrightarrow>
     ds_fds s Client = (if proc_ended s Client then [] else client_table) \<and>
     ds_fds s Server = (if proc_ended s Server then [] else server_table) \<and>
     (\<forall>fd < length (ds_fds s Setup). ds_fds s Setup ! fd \<in> {None, Some Terminal} \<or> fd \<in> set (ds_to_close s))"

definition waits_inv :: "direct_sys \<Rightarrow> bool" where
  "waits_inv s \<longleftrightarrow> (\<forall>c\<in>ds_children s. Some c \<in> set (ds_waits s)) \<and> ds_children s \<subseteq> {Client, Server} \<and>
     (\<forall>c\<in>{Client, Server}. c \<in> ds_children s \<or> proc_ended s c) \<and>
     (ds_exit s = None \<or> ds_exit s = Some 0 \<and> ds_to_close s = [] \<and> ds_waits s = [])"

lemma proc_ended_simps [simp]:
  "proc_ended (end_client s i e) c \<longleftrightarrow> c = Client \<or> proc_ended s c"
  "proc_ended (end_server s e) c \<longleftrightarrow> c = Server \<or> proc_ended s c"
  by (cases c; simp add: proc_ended_def end_client_def end_server_def)+

lemma end_fields [simp]:
  "ds_fds (end_client s i e) = (ds_fds s)(Client := [])" "ds_fds (end_server s e) = (ds_fds s)(Server := [])"
  "ds_to_close (end_client s i e) = ds_to_close s" "ds_to_close (end_server s e) = ds_to_close s"
  "ds_waits (end_client s i e) = ds_waits s" "ds_waits (end_server s e) = ds_waits s"
  "ds_children (end_client s i e) = ds_children s" "ds_children (end_server s e) = ds_children s"
  "ds_exit (end_client s i e) = ds_exit s" "ds_exit (end_server s e) = ds_exit s"
  "ds_server (end_client s i e) = ds_server s" "ds_client (end_server s e) = ds_client s"
  "ds_client (end_client s i e) = Client_ended i e" "ds_server (end_server s e) = Server_ended e"
  "ds_c2s (end_client s i e) = ds_c2s s" "ds_c2s (end_server s e) = ds_c2s s"
  "ds_s2c (end_client s i e) = ds_s2c s" "ds_s2c (end_server s e) = ds_s2c s"
  "ds_errors (end_client s i e) = ds_errors s" "ds_errors (end_server s e) = ds_errors s"
  "ds_client_good (end_client s i e) = ds_client_good s" "ds_client_good (end_server s e) = ds_client_good s"
  "ds_server_good (end_client s i e) = ds_server_good s" "ds_server_good (end_server s e) = ds_server_good s"
  by (simp_all add: end_client_def end_server_def)

lemma close_fd_nth: "k < length t \<Longrightarrow> close_fd fd t ! k = (if k = fd then None else t ! k)"
  by (cases "k = fd") (simp_all add: close_fd_def)

lemma length_close_fd [simp]: "length (close_fd fd t) = length t"
  by (simp add: close_fd_def)

lemma ends_inv_step: "direct_step n line s s' \<Longrightarrow> ends_inv s \<Longrightarrow> ends_inv s'"
  by (elim direct_step_cases direct_setup_step.cases direct_client_step.cases direct_server_step.cases)
    (auto simp: ends_inv_def proc_ended_def close_fd_nth split: if_splits)

lemma waits_inv_step: "direct_step n line s s' \<Longrightarrow> waits_inv s \<Longrightarrow> waits_inv s'"
  by (elim direct_step_cases direct_setup_step.cases direct_client_step.cases direct_server_step.cases)
    (auto simp: waits_inv_def proc_ended_def split: if_splits)

lemma direct_setup_inv:
  assumes "direct_setup sc = Some s"
  shows "ends_inv s" "waits_inv s"
  using assms
  by (auto simp: direct_setup_def ends_inv_def waits_inv_def proc_ended_def make_pipe_def server_fds_def client_fds_def
      server_table_def client_table_def dup2_def close_fd_def less_Suc_eq nth_Cons' split: if_splits)

lemma pipe_ends:
  assumes "ends_inv s"
  shows "\<not> proc_ended s Server \<Longrightarrow> someone_has s (Read_end Client_to_server)"
    and "\<not> proc_ended s Client \<Longrightarrow> someone_has s (Read_end Server_to_client)"
    and "ds_to_close s = [] \<Longrightarrow> someone_has s (Write_end Client_to_server) \<longleftrightarrow> \<not> proc_ended s Client"
    and "ds_to_close s = [] \<Longrightarrow> someone_has s (Write_end Server_to_client) \<longleftrightarrow> \<not> proc_ended s Server"
    and "\<not> proc_ended s Client \<Longrightarrow> someone_has s (Write_end Client_to_server)"
    and "\<not> proc_ended s Server \<Longrightarrow> someone_has s (Write_end Server_to_client)"
proof -
  have "set (ds_fds s Setup) \<subseteq> {None, Some Terminal}" if "ds_to_close s = []"
    using assms that unfolding subset_iff in_set_conv_nth ends_inv_def by fastforce
  then show "\<not> proc_ended s Server \<Longrightarrow> someone_has s (Read_end Client_to_server)"
    and "\<not> proc_ended s Client \<Longrightarrow> someone_has s (Read_end Server_to_client)"
    and "ds_to_close s = [] \<Longrightarrow> someone_has s (Write_end Client_to_server) \<longleftrightarrow> \<not> proc_ended s Client"
    and "ds_to_close s = [] \<Longrightarrow> someone_has s (Write_end Server_to_client) \<longleftrightarrow> \<not> proc_ended s Server"
    and "\<not> proc_ended s Client \<Longrightarrow> someone_has s (Write_end Client_to_server)"
    and "\<not> proc_ended s Server \<Longrightarrow> someone_has s (Write_end Server_to_client)"
    using assms by (auto simp: ends_inv_def someone_has_def server_table_def client_table_def)
qed

text \<open>When its children have ended, the setup process runs to its end.\<close>

lemma setup_progress:
  assumes "waits_inv s" "ds_to_close s = []" "proc_ended s Server" "proc_ended s Client" "ds_exit s = None \<or> ds_waits s \<noteq> []"
  shows "\<exists>s'. direct_step n line s s'"
proof (cases "ds_waits s")
  case Nil
  then show ?thesis using assms setup_return by blast
next
  case (Cons w rest)
  show ?thesis
  proof (cases w)
    case None
    show ?thesis
    proof (cases "ds_children s = {}")
      case True
      then show ?thesis using setup_wait_none [OF assms(2)] Cons None by blast
    next
      case False
      then obtain c where "c \<in> ds_children s" "proc_ended s c" using assms(1,3,4) by (auto simp: waits_inv_def)
      then show ?thesis using setup_wait_any [OF assms(2)] Cons None by blast
    qed
  next
    case (Some c)
    have "c \<notin> ds_children s \<or> proc_ended s c" using assms(1,3,4) by (auto simp: waits_inv_def)
    then show ?thesis using setup_wait [OF assms(2)] Cons Some by blast
  qed
qed

section \<open>The benchmark\<close>

lemma random_string_chars: "\<lbrakk>\<And>i. draw i < 62; c \<in> set (random_string draw from n)\<rbrakk> \<Longrightarrow> c \<in> set bench_characters"
proof (induction n arbitrary: "from")
  case (Suc n)
  have "bench_characters ! draw from \<in> set bench_characters"
    by (intro nth_mem) (use Suc.prems(1) [of "from"] in \<open>simp add: bench_characters_def\<close>)
  with Suc show ?case by auto
qed simp

lemma length_random_string [simp]: "length (random_string draw from n) = n"
  by (induction n arbitrary: "from") auto

lemma bench_line_line:
  assumes "\<And>i. draw i < 62"
  shows "\<exists>l. bench_line draw = l @ [newline] \<and> newline \<notin> set l \<and> length l = 81"
proof -
  have "newline \<notin> set (random_string draw from n)" for "from" n
    using random_string_chars [OF assms, where c = newline] by (fastforce simp: bench_characters_def newline_def)
  then show ?thesis
    by (intro exI [of _ "random_string draw 0 KEY_SIZE @ '' '' @ random_string draw KEY_SIZE VALUE_SIZE"])
      (simp add: bench_line_def KEY_SIZE_def VALUE_SIZE_def newline_def)
qed

text \<open>One line is at most under way, in one of the two pipes or in the hands of the server.\<close>

definition true_line :: string where "true_line = ''true'' @ [newline]"

definition lockstep :: "nat \<Rightarrow> string \<Rightarrow> direct_sys \<Rightarrow> bool" where
  "lockstep n line s \<longleftrightarrow> ds_client_good s \<and> ds_server_good s \<and> ds_errors s = [] \<and>
     (case ds_client s of
        Client_failing \<Rightarrow> False
      | Client_sends i \<Rightarrow> i \<le> n \<and> ds_server s = Server_reads \<and> ds_c2s s = [] \<and> ds_s2c s = []
      | Client_awaits i \<Rightarrow> i < n \<and>
          (ds_server s = Server_reads \<and> ds_c2s s = line \<and> ds_s2c s = [] \<or>
           ds_server s = Server_answers \<and> ds_c2s s = [] \<and> ds_s2c s = [] \<or>
           ds_server s = Server_reads \<and> ds_c2s s = [] \<and> ds_s2c s = true_line)
      | Client_ended i e \<Rightarrow> i = n \<and> e = Exited 0 \<and> ds_server s \<in> {Server_reads, Server_ended (Exited 0)} \<and>
          ds_c2s s = [] \<and> ds_s2c s = [])"

text \<open>The steps a state is from the end.\<close>

definition steps_left :: "nat \<Rightarrow> direct_sys \<Rightarrow> nat" where
  "steps_left n s =
     (case ds_client s of
        Client_sends i \<Rightarrow> 4 * (n - i) + 2
      | Client_awaits i \<Rightarrow>
          4 * (n - i) + (if ds_server s = Server_answers then 0 else 1) - (if ds_s2c s \<noteq> [] then 2 else 0)
      | _ \<Rightarrow> if proc_ended s Server then 0 else 1) +
     length (ds_to_close s) + length (ds_waits s) + (if ds_exit s = None then 1 else 0)"

lemma getline_line:
  "newline \<notin> set l \<Longrightarrow>
    getline \<lparr>si_text = l @ newline # rest, si_good = True\<rparr> x = (\<lparr>si_text = rest, si_good = True\<rparr>, l)"
  by (auto simp: getline_def takeWhile_append dropWhile_append)

definition direct_inv :: "nat \<Rightarrow> string \<Rightarrow> direct_sys \<Rightarrow> bool" where
  "direct_inv n line s \<longleftrightarrow> ends_inv s \<and> waits_inv s \<and> lockstep n line s"

lemma lockstep_ready:
  assumes "ends_inv s" "lockstep n line s" "line = l @ [newline]"
  shows "ds_client s = Client_awaits i \<Longrightarrow> line_ready s Server_to_client (ds_s2c s) \<longleftrightarrow> ds_s2c s = true_line"
    and "ds_client s = Client_sends i \<Longrightarrow> someone_has s (Read_end Client_to_server) \<and> \<not> line_ready s Client_to_server (ds_c2s s)"
    and "ds_client s = Client_awaits i \<Longrightarrow> line_ready s Client_to_server (ds_c2s s) \<longleftrightarrow> ds_c2s s = line"
    and "ds_server s = Server_answers \<Longrightarrow> someone_has s (Read_end Server_to_client)"
  using assms pipe_ends [OF assms(1)]
  by (auto simp: lockstep_def line_ready_def proc_ended_def true_line_def split: client_pc.splits)

lemma true_line_read: "getline \<lparr>si_text = true_line, si_good = True\<rparr> x = (\<lparr>si_text = [], si_good = True\<rparr>, ''true'')"
  using getline_line [of "''true''" "[]" x] by (simp add: true_line_def newline_def)

lemma client_lockstep:
  assumes "direct_client_step n line s s'" "ends_inv s" "lockstep n line s" and l: "line = l @ [newline]"
  shows "lockstep n line s' \<and> steps_left n s = Suc (steps_left n s')"
  using assms(1)
proof (cases rule: direct_client_step.cases)
  case (answered i inp response)
  then have "ds_s2c s = true_line" "inp = \<lparr>si_text = [], si_good = True\<rparr>"
    using lockstep_ready(1) [OF assms(2-4)] assms(3) true_line_read by (auto simp: lockstep_def)
  with answered assms(3) show ?thesis by (auto simp: lockstep_def steps_left_def true_line_def)
next
  case (breaks i inp response)
  then have "ds_s2c s = true_line" using lockstep_ready(1) [OF assms(2-4)] assms(3) by (auto simp: lockstep_def)
  with breaks assms(3) show ?thesis by (auto simp: lockstep_def true_line_read)
next
  case (sigpipe i)
  then show ?thesis using lockstep_ready(2) [OF assms(2-4)] by blast
qed (use assms(3) in \<open>auto simp: lockstep_def steps_left_def proc_ended_def\<close>)

lemma server_lockstep:
  assumes "direct_server_step s s'" "ends_inv s" "lockstep n line s" and l: "line = l @ [newline]" "newline \<notin> set l"
  shows "lockstep n line s' \<and> steps_left n s = Suc (steps_left n s')"
  using assms(1)
proof (cases rule: direct_server_step.cases)
  case (reads inp request)
  then have "ds_c2s s = line" "inp = \<lparr>si_text = [], si_good = True\<rparr>"
    using lockstep_ready(2,3) [OF assms(2,3) l(1)] assms(3) getline_line [OF l(2), of "[]" "[]"] l(1)
    by (auto simp: lockstep_def split: client_pc.splits)
  with reads assms(3) l show ?thesis by (auto simp: lockstep_def steps_left_def split: client_pc.splits)
next
  case returns
  then show ?thesis
    using lockstep_ready(2,3) [OF assms(2,3) l(1)] assms(3) l
    by (auto simp: lockstep_def steps_left_def proc_ended_def split: client_pc.splits)
next
  case answers
  then show ?thesis using assms(3) by (auto simp: lockstep_def steps_left_def true_line_def split: client_pc.splits)
next
  case sigpipe
  then show ?thesis using lockstep_ready(4) [OF assms(2,3) l(1)] by blast
qed (use assms(3) in \<open>auto simp: lockstep_def split: client_pc.splits\<close>)

lemma direct_inv_step:
  assumes "direct_step n line s s'" "ends_inv s" "lockstep n line s" and l: "line = l @ [newline]" "newline \<notin> set l"
  shows "lockstep n line s' \<and> steps_left n s = Suc (steps_left n s')"
  using assms(1)
proof (cases rule: direct_step_cases)
  case by_setup
  then show ?thesis
    using assms(3)
    by (cases rule: direct_setup_step.cases) (auto simp: lockstep_def steps_left_def proc_ended_def split: client_pc.splits)
next
  case by_client
  then show ?thesis using client_lockstep assms by blast
next
  case by_server
  then show ?thesis using server_lockstep assms by blast
qed

lemma awaiting_client_progress:
  assumes c: "ds_client s = Client_awaits i" and "ends_inv s" "lockstep n line s" "line = l @ [newline]"
  shows "\<exists>s'. direct_step n line s s'"
proof -
  note ready = lockstep_ready [OF assms(2-4)]
  obtain inp response where g: "getline \<lparr>si_text = ds_s2c s, si_good = ds_client_good s\<rparr> [] = (inp, response)" by fastforce
  obtain inp2 request where g2: "getline \<lparr>si_text = ds_c2s s, si_good = True\<rparr> [] = (inp2, request)" by fastforce
  from c assms(3) consider "ds_s2c s = true_line"
    | "ds_server s = Server_answers" "ds_s2c s = []" | "ds_server s = Server_reads" "ds_c2s s = line" "ds_server_good s"
    by (auto simp: lockstep_def)
  then show ?thesis
  proof cases
    case 1
    then show ?thesis using ready(1) [OF c] client_answered [OF c _ g] client_breaks [OF c _ g] by blast
  next
    case 2
    then show ?thesis using ready(4) server_answers by (fastforce simp: pipe_capacity_def)
  next
    case 3
    then show ?thesis using ready(3) [OF c] server_reads [OF 3(1) _ 3(3) _ g2] assms(4) by auto
  qed
qed

lemma direct_progress:
  assumes "ends_inv s" "waits_inv s" "lockstep n line s" "0 < steps_left n s" "line = l @ [newline]" "length line \<le> pipe_capacity"
  shows "\<exists>s'. direct_step n line s s'"
proof (cases "ds_to_close s")
  case (Cons fd rest)
  then show ?thesis by (blast intro: setup_close)
next
  case Nil
  show ?thesis
  proof (cases "ds_client s")
    case Client_failing
    then show ?thesis by (blast intro: client_fails)
  next
    case (Client_sends i)
    then show ?thesis
      using assms(3,6) lockstep_ready(2) [OF assms(1,3,5) Client_sends] client_sends [OF Client_sends, of n line]
        client_returns [OF Client_sends, of n line]
      by (cases "i < n") (auto simp: lockstep_def)
  next
    case (Client_awaits i)
    then show ?thesis using awaiting_client_progress assms(1,3,5) by blast
  next
    case (Client_ended i e)
    then have c: "proc_ended s Client" by (simp add: proc_ended_def)
    show ?thesis
    proof (cases "proc_ended s Server")
      case False
      then have "ds_server s = Server_reads" "ds_c2s s = []" using assms(3) Client_ended by (auto simp: lockstep_def proc_ended_def)
      then show ?thesis using pipe_ends(3) [OF assms(1) Nil] c server_returns by (auto simp: line_ready_def)
    next
      case True
      then show ?thesis using setup_progress [OF assms(2) Nil _ c] assms(4) Client_ended by (auto simp: steps_left_def Nil split: if_splits)
    qed
  qed
qed

lemma direct_reachable:
  assumes "(direct_step n line ^^ k) s0 s" "ends_inv s0" "waits_inv s0" "lockstep n line s0"
    and "line = l @ [newline]" "newline \<notin> set l"
  shows "ends_inv s \<and> waits_inv s \<and> lockstep n line s \<and> steps_left n s0 = k + steps_left n s"
  using assms(1)
proof (induction k arbitrary: s)
  case 0
  then show ?case using assms by simp
next
  case (Suc k)
  then obtain s1 where 1: "(direct_step n line ^^ k) s0 s1" "direct_step n line s1 s" by auto
  note inv = Suc.IH [OF 1(1)]
  then show ?case
    using direct_inv_step [OF 1(2) _ _ assms(5,6)] ends_inv_step [OF 1(2)] waits_inv_step [OF 1(2)] by auto
qed

lemma direct_finished:
  assumes "waits_inv s" "lockstep n line s" "steps_left n s = 0"
  shows "ds_client s = Client_ended n (Exited 0)" "ds_server s = Server_ended (Exited 0)" "ds_exit s = Some 0" "ds_errors s = []"
  using assms
  by (auto simp: waits_inv_def lockstep_def steps_left_def proc_ended_def split: client_pc.splits server_pc.splits if_splits)

definition all_started :: direct_script where
  "all_started = \<lparr>sd_pipe_c2s = True, sd_pipe_s2c = True, sd_fork_server = True, sd_exec_server = True,
     sd_fork_client = True, sd_exec_client = True\<rparr>"

lemma direct_start:
  assumes "direct_setup all_started = Some s"
  shows "lockstep n line s" "steps_left n s = 4 * n + 9"
  using assms
  by (auto simp: direct_setup_def all_started_def lockstep_def steps_left_def make_pipe_def)

text \<open>
  C39. The benchmark over pipes completes: however the three processes are scheduled, a run of \<open>n\<close> rounds
  cannot block before it is over, is over after exactly \<open>4 * n + 9\<close> steps, and then the client has had its
  \<open>n\<close> answers and reported none as unexpected, and all three processes have returned 0; none is killed
  by writing to a pipe without a reader. In particular the server sees the end of its input, because no
  other process keeps the write end of its pipe.
\<close>

theorem direct_benchmark_completes:
  assumes draws: "\<forall>i. draw i < 62" and start: "direct_setup all_started = Some s0"
    and run: "(direct_step n (bench_line draw) ^^ k) s0 s"
  shows "k \<le> 4 * n + 9 \<and> (k < 4 * n + 9 \<longrightarrow> (\<exists>s'. direct_step n (bench_line draw) s s')) \<and>
    (k = 4 * n + 9 \<longrightarrow> ds_client s = Client_ended n (Exited 0) \<and> ds_server s = Server_ended (Exited 0) \<and>
      ds_exit s = Some 0 \<and> ds_errors s = [])"
proof -
  obtain l where l: "bench_line draw = l @ [newline]" "newline \<notin> set l" "length l = 81"
    using bench_line_line draws by blast
  note inv = direct_reachable [OF run direct_setup_inv [OF start] direct_start(1) [OF start] l(1,2)]
  moreover have "length (bench_line draw) \<le> pipe_capacity" using l by (simp add: pipe_capacity_def)
  ultimately show ?thesis
    using direct_progress [of s n "bench_line draw" l] direct_finished [of s n "bench_line draw"] direct_start(2) [OF start, of n] l(1)
    by auto
qed

theorem direct_benchmark_completes_witness:
  "\<exists>s0. direct_setup all_started = Some s0 \<and> (\<exists>s'. direct_step 1 (bench_line (\<lambda>_. 0)) s0 s')"
proof -
  obtain s0 where s0: "direct_setup all_started = Some s0"
    by (simp add: direct_setup_def all_started_def make_pipe_def)
  then show ?thesis using direct_benchmark_completes [where draw = "\<lambda>_. 0" and ?s0.0 = s0 and n = 1 and k = 0 and s = s0] by auto
qed

section \<open>A process that is not started\<close>

text \<open>Without a server the client's first answer is the end of its input; without a client so is the server's first line.\<close>

definition unanswered :: "direct_sys \<Rightarrow> bool" where
  "unanswered s \<longleftrightarrow>
     (ds_server s \<noteq> Server_reads \<and> ds_server s \<noteq> Server_answers \<and> ds_s2c s = [] \<and>
       (case ds_client s of
          Client_failing \<Rightarrow> True
        | Client_sends i \<Rightarrow> i = 0 \<and> ds_c2s s = []
        | Client_awaits i \<Rightarrow> i = 0
        | Client_ended i e \<Rightarrow> i = 0)) \<or>
     ((ds_client s = Client_failing \<or> (\<exists>e. ds_client s = Client_ended 0 e)) \<and> ds_server s \<noteq> Server_answers \<and> ds_c2s s = [])"

definition unanswered_left :: "direct_sys \<Rightarrow> nat" where
  "unanswered_left s =
     (case ds_client s of Client_failing \<Rightarrow> 1 | Client_sends i \<Rightarrow> 2 | Client_awaits i \<Rightarrow> 1 | Client_ended i e \<Rightarrow> 0) +
     (if proc_ended s Server then 0 else 1) +
     length (ds_to_close s) + length (ds_waits s) + (if ds_exit s = None then 1 else 0)"

lemma getline_empty: "getline \<lparr>si_text = [], si_good = g\<rparr> [] = (\<lparr>si_text = [], si_good = False\<rparr>, [])"
  by (cases g) (simp_all add: getline_def)

lemma unanswered_step:
  assumes "direct_step n line s s'" "unanswered s"
  shows "unanswered s' \<and> unanswered_left s' < unanswered_left s"
  using assms
  by (elim direct_step_cases direct_setup_step.cases direct_client_step.cases direct_server_step.cases)
    (auto simp: unanswered_def unanswered_left_def proc_ended_def getline_empty split: client_pc.splits server_pc.splits)

lemma unanswered_progress:
  assumes "ends_inv s" "waits_inv s" "unanswered s" "0 < unanswered_left s" "length line \<le> pipe_capacity"
  shows "\<exists>s'. direct_step n line s s'"
proof (cases "ds_to_close s")
  case (Cons fd rest)
  then show ?thesis by (blast intro: setup_close)
next
  case Nil
  note ends = pipe_ends [OF assms(1)]
  consider "ds_server s = Server_failing" | "ds_client s = Client_failing" | i where "ds_client s = Client_sends i" "ds_c2s s = []"
    | i where "ds_client s = Client_awaits i" "proc_ended s Server"
    | "ds_server s = Server_reads" "ds_c2s s = []" "proc_ended s Client"
    | "proc_ended s Server" "proc_ended s Client"
    using assms(3) by (cases "ds_server s"; cases "ds_client s"; auto simp: unanswered_def proc_ended_def)
  then show ?thesis
  proof cases
    case 1
    then show ?thesis by (blast intro: server_fails)
  next
    case 2
    then show ?thesis by (blast intro: client_fails)
  next
    case (3 i)
    then show ?thesis
      using client_sends [OF 3(1), of n line] client_sigpipe [OF 3(1), of n line] client_returns [OF 3(1), of n line] assms(5)
      by (cases "i < n") auto
  next
    case (4 i)
    obtain inp response where g: "getline \<lparr>si_text = ds_s2c s, si_good = ds_client_good s\<rparr> [] = (inp, response)" by fastforce
    have "line_ready s Server_to_client (ds_s2c s)" using ends(4) [OF Nil] 4(2) by (simp add: line_ready_def)
    then show ?thesis using client_answered [OF 4(1) _ g] client_breaks [OF 4(1) _ g] by blast
  next
    case 5
    then show ?thesis using ends(3) [OF Nil] server_returns [OF 5(1)] by (auto simp: line_ready_def)
  next
    case 6
    then show ?thesis
      using setup_progress [OF assms(2) Nil 6] assms(4) by (auto simp: unanswered_left_def proc_ended_def Nil split: client_pc.splits if_splits)
  qed
qed

lemma unanswered_reachable:
  assumes "(direct_step n line ^^ k) s0 s" "ends_inv s0" "waits_inv s0" "unanswered s0"
  shows "ends_inv s \<and> waits_inv s \<and> unanswered s \<and> k + unanswered_left s \<le> unanswered_left s0"
  using assms(1)
proof (induction k arbitrary: s)
  case 0
  then show ?case using assms by simp
next
  case (Suc k)
  then obtain s1 where 1: "(direct_step n line ^^ k) s0 s1" "direct_step n line s1 s" by auto
  with Suc.IH [OF 1(1)] show ?case
    using unanswered_step [OF 1(2)] ends_inv_step [OF 1(2)] waits_inv_step [OF 1(2)] by fastforce
qed

text \<open>
  A start that fails goes unnoticed: when the pipes could be made but the server or the client could
  not be started, by a failed \<^verbatim>\<open>fork\<close> or \<^verbatim>\<open>exec\<close>, the setup still ends, within ten steps and in every
  schedule, and returns 0 as after a measurement, with no round of the client answered.
\<close>

theorem failed_start_ends:
  assumes start: "direct_setup sc = Some s0" and draws: "\<forall>i. draw i < 62"
    and fails: "\<not> (sd_fork_server sc \<and> sd_exec_server sc \<and> sd_fork_client sc \<and> sd_exec_client sc)"
    and run: "(direct_step n (bench_line draw) ^^ k) s0 s"
  shows "k \<le> 10 \<and> ((\<exists>s'. direct_step n (bench_line draw) s s') \<or>
    ds_exit s = Some 0 \<and> (\<exists>e. ds_client s = Client_ended 0 e) \<and> proc_ended s Server)"
proof -
  have s0: "unanswered s0" "unanswered_left s0 \<le> 10"
    using start fails by (auto simp: direct_setup_def unanswered_def unanswered_left_def make_pipe_def split: if_splits)
  note inv = unanswered_reachable [OF run direct_setup_inv [OF start] s0(1)]
  have "length (bench_line draw) \<le> pipe_capacity"
    using bench_line_line [of draw] draws by (auto simp: pipe_capacity_def)
  then have "0 < unanswered_left s \<Longrightarrow> \<exists>s'. direct_step n (bench_line draw) s s'"
    using unanswered_progress inv by blast
  moreover have "ds_exit s = Some 0 \<and> (\<exists>e. ds_client s = Client_ended 0 e) \<and> proc_ended s Server" if "unanswered_left s = 0"
    using that inv by (auto simp: unanswered_left_def unanswered_def waits_inv_def split: client_pc.splits if_splits)
  ultimately show ?thesis using inv s0(2) by (cases "unanswered_left s = 0") auto
qed

theorem failed_start_ends_witness:
  "\<exists>s0. direct_setup (all_started\<lparr>sd_exec_server := False\<rparr>) = Some s0 \<and> (\<exists>s'. direct_step 1 (bench_line (\<lambda>_. 0)) s0 s')"
proof -
  obtain s0 where s0: "direct_setup (all_started\<lparr>sd_exec_server := False\<rparr>) = Some s0" "ds_exit s0 = None"
    by (simp add: direct_setup_def all_started_def make_pipe_def)
  then show ?thesis
    using failed_start_ends [OF s0(1), where draw = "\<lambda>_. 0" and n = 1 and k = 0 and s = s0] by (auto simp: all_started_def)
qed

end
