(* ===== verification/Microbench_Proxy.thy ===== *)
theory Microbench_Proxy
  imports Microbench
begin

text \<open>
  The micro-benchmark over a socket: \<^verbatim>\<open>proxy_setup.cpp\<close> starts \<^verbatim>\<open>proxy_server.cpp\<close>, pauses for a second,
  starts \<^verbatim>\<open>proxy_client.cpp\<close> and waits for both.

  The connection is a pair of byte queues. A \<^verbatim>\<open>recv\<close> takes some of the bytes that are there, at least one
  and at most the 1024 of the buffer; \<open>whole\<close> restricts it to take all it can. A \<^verbatim>\<open>send\<close> waits until there
  is room, \<open>cap\<close> being the size of a queue. When the client closes its socket with bytes unread the
  connection is reset, and a send of the server on it may end the server. The outcomes of the other
  calls are the argument \<open>sc\<close>. The pause of the setup process is a step with no bound on the speed of the
  server, so the client may come before the server listens.
\<close>

section \<open>The processes\<close>

record proxy_script =
  py_fork_server :: bool
  py_exec_server :: bool
  py_server_socket :: bool
  py_server_nodelay :: bool
  py_bind :: bool
  py_listen :: bool
  py_accept :: bool
  py_fork_client :: bool
  py_exec_client :: bool
  py_client_socket :: bool
  py_client_nodelay :: bool
  py_connect :: bool

datatype proxy_server_pc = Px_starting | Px_accepting | Px_receiving | Px_responding | Px_server_ended bench_exit

datatype proxy_client_pc = Px_absent | Px_connecting | Px_sends nat | Px_awaits nat | Px_client_ended nat bench_exit

datatype proxy_setup_pc = Px_sleeps | Px_waits_client | Px_waits_server | Px_returned nat

text \<open>
  \<open>px_pending\<close> is a connection that was made and not yet accepted. \<open>px_reports\<close> has the messages of the
  client on its standard error; \<open>None\<close> stands for the text of a buffer without a terminating null,
  which is read past its end.
\<close>

record proxy_sys =
  px_setup :: proxy_setup_pc
  px_server :: proxy_server_pc
  px_client :: proxy_client_pc
  px_c2s :: string
  px_s2c :: string
  px_pending :: bool
  px_reset :: bool
  px_buffer :: string
  px_reports :: "string option list"

definition proxy_buffer_size :: nat where "proxy_buffer_size = 1024"

text \<open>The request is the one of the other benchmark; \<^verbatim>\<open>random_string\<close> is repeated in the client.\<close>

definition proxy_request :: "(nat \<Rightarrow> nat) \<Rightarrow> string" where
  "proxy_request draw =
     (let key = random_string draw 0 KEY_SIZE; val = random_string draw KEY_SIZE VALUE_SIZE
      in ((key @ '' '') @ val) @ [newline])"

definition proxy_response :: string where "proxy_response = ''true''"

text \<open>The calls of \<^verbatim>\<open>proxy_server.cpp\<close> up to \<^verbatim>\<open>listen\<close> and of \<^verbatim>\<open>proxy_client.cpp\<close> up to \<^verbatim>\<open>connect\<close>, each with an early return.\<close>

definition proxy_server_listen :: "proxy_script \<Rightarrow> proxy_server_pc" where
  "proxy_server_listen sc =
     (if \<not> py_server_socket sc then Px_server_ended (Exited 1)
      else if \<not> py_server_nodelay sc then Px_server_ended (Exited 1)
      else if \<not> py_bind sc then Px_server_ended (Exited 1)
      else if \<not> py_listen sc then Px_server_ended (Exited 1)
      else Px_accepting)"

definition proxy_client_connect :: "proxy_script \<Rightarrow> bool \<Rightarrow> proxy_client_pc" where
  "proxy_client_connect sc listening =
     (if \<not> py_client_socket sc then Px_client_ended 0 (Exited 1)
      else if \<not> py_client_nodelay sc then Px_client_ended 0 (Exited 1)
      else if \<not> (py_connect sc \<and> listening) then Px_client_ended 0 (Exited 1)
      else Px_sends 0)"

definition proxy_setup :: "proxy_script \<Rightarrow> proxy_sys" where
  "proxy_setup sc =
     \<lparr>px_setup = Px_sleeps,
      px_server =
        (if \<not> py_fork_server sc then Px_server_ended Not_started
         else if py_exec_server sc then Px_starting else Px_server_ended (Exited 1)),
      px_client = Px_absent, px_c2s = [], px_s2c = [], px_pending = False, px_reset = False,
      px_buffer = replicate proxy_buffer_size (CHR 0x00), px_reports = []\<rparr>"

definition px_client_gone :: "proxy_sys \<Rightarrow> bool" where
  "px_client_gone s = (case px_client s of Px_client_ended _ _ \<Rightarrow> True | _ \<Rightarrow> False)"

definition px_server_gone :: "proxy_sys \<Rightarrow> bool" where
  "px_server_gone s = (case px_server s of Px_server_ended _ \<Rightarrow> True | _ \<Rightarrow> False)"

definition received :: "bool \<Rightarrow> string \<Rightarrow> nat \<Rightarrow> bool" where
  "received whole queue k \<longleftrightarrow> 0 < k \<and> k \<le> min proxy_buffer_size (length queue) \<and>
     (whole \<longrightarrow> k = min proxy_buffer_size (length queue))"

text \<open>The client's check looks at the first four bytes of the buffer, which keeps what earlier responses left in it.\<close>

definition fill_buffer :: "string \<Rightarrow> string \<Rightarrow> string" where
  "fill_buffer buffer bytes = bytes @ drop (length bytes) buffer"

definition check_response :: "string \<Rightarrow> string option list" where
  "check_response buffer =
     (if take 4 buffer = ''true'' then []
      else [if CHR 0x00 \<in> set buffer then Some (''Unexpected response: '' @ takeWhile (\<lambda>c. c \<noteq> CHR 0x00) buffer) else None])"

definition close_client :: "proxy_sys \<Rightarrow> nat \<Rightarrow> bench_exit \<Rightarrow> proxy_sys" where
  "close_client s i e = s\<lparr>px_client := Px_client_ended i e, px_reset := px_reset s \<or> px_s2c s \<noteq> []\<rparr>"

section \<open>Steps\<close>

text \<open>\<^verbatim>\<open>proxy_setup.cpp\<close> from the pause on.\<close>

inductive proxy_setup_step :: "proxy_script \<Rightarrow> proxy_sys \<Rightarrow> proxy_sys \<Rightarrow> bool" for sc where
  forks_client: "px_setup s = Px_sleeps \<Longrightarrow>
    proxy_setup_step sc s
      (s\<lparr>px_setup := Px_waits_client,
         px_client :=
           (if \<not> py_fork_client sc then Px_client_ended 0 Not_started
            else if py_exec_client sc then Px_connecting else Px_client_ended 0 (Exited 1))\<rparr>)"
| waited_client: "\<lbrakk>px_setup s = Px_waits_client; if py_fork_client sc then px_client_gone s else px_server_gone s\<rbrakk> \<Longrightarrow>
    proxy_setup_step sc s (s\<lparr>px_setup := Px_waits_server\<rparr>)"
| waited_server: "\<lbrakk>px_setup s = Px_waits_server; px_server_gone s\<rbrakk> \<Longrightarrow>
    proxy_setup_step sc s (s\<lparr>px_setup := Px_returned 0\<rparr>)"

text \<open>\<^verbatim>\<open>proxy_server.cpp\<close>.\<close>

inductive proxy_server_step :: "proxy_script \<Rightarrow> nat \<Rightarrow> bool \<Rightarrow> proxy_sys \<Rightarrow> proxy_sys \<Rightarrow> bool" for sc cap whole where
  listens: "px_server s = Px_starting \<Longrightarrow> proxy_server_step sc cap whole s (s\<lparr>px_server := proxy_server_listen sc\<rparr>)"
| accepts: "\<lbrakk>px_server s = Px_accepting; px_pending s\<rbrakk> \<Longrightarrow>
    proxy_server_step sc cap whole s
      (s\<lparr>px_server := if py_accept sc then Px_receiving else Px_server_ended (Exited 1), px_pending := False\<rparr>)"
| receives: "\<lbrakk>px_server s = Px_receiving; \<not> px_reset s; received whole (px_c2s s) k\<rbrakk> \<Longrightarrow>
    proxy_server_step sc cap whole s (s\<lparr>px_server := Px_responding, px_c2s := drop k (px_c2s s)\<rparr>)"
| stops: "\<lbrakk>px_server s = Px_receiving; px_client_gone s; px_c2s s = [] \<or> px_reset s\<rbrakk> \<Longrightarrow>
    proxy_server_step sc cap whole s (s\<lparr>px_server := Px_server_ended (Exited 0)\<rparr>)"
| responds: "\<lbrakk>px_server s = Px_responding; \<not> px_client_gone s; length (px_s2c s) + length proxy_response \<le> cap\<rbrakk> \<Longrightarrow>
    proxy_server_step sc cap whole s (s\<lparr>px_server := Px_receiving, px_s2c := px_s2c s @ proxy_response\<rparr>)"
| responds_late: "\<lbrakk>px_server s = Px_responding; px_client_gone s\<rbrakk> \<Longrightarrow>
    proxy_server_step sc cap whole s (s\<lparr>px_server := Px_receiving, px_reset := True\<rparr>)"
| killed: "\<lbrakk>px_server s = Px_responding; px_client_gone s; px_reset s\<rbrakk> \<Longrightarrow>
    proxy_server_step sc cap whole s (s\<lparr>px_server := Px_server_ended Killed_by_sigpipe\<rparr>)"

text \<open>\<^verbatim>\<open>proxy_client.cpp\<close>, for \<open>n\<close> rounds with the request \<open>line\<close>.\<close>

inductive proxy_client_step :: "proxy_script \<Rightarrow> nat \<Rightarrow> bool \<Rightarrow> nat \<Rightarrow> string \<Rightarrow> proxy_sys \<Rightarrow> proxy_sys \<Rightarrow> bool"
  for sc cap whole n line where
  connects: "px_client s = Px_connecting \<Longrightarrow>
    proxy_client_step sc cap whole n line s
      (s\<lparr>px_client := proxy_client_connect sc (px_server s = Px_accepting),
         px_pending := (proxy_client_connect sc (px_server s = Px_accepting) = Px_sends 0)\<rparr>)"
| sends: "\<lbrakk>px_client s = Px_sends i; i < n; \<not> px_server_gone s; length (px_c2s s) + length line \<le> cap\<rbrakk> \<Longrightarrow>
    proxy_client_step sc cap whole n line s (s\<lparr>px_client := Px_awaits i, px_c2s := px_c2s s @ line\<rparr>)"
| sends_lost: "\<lbrakk>px_client s = Px_sends i; i < n; px_server_gone s\<rbrakk> \<Longrightarrow>
    proxy_client_step sc cap whole n line s (s\<lparr>px_client := Px_awaits i\<rparr>)"
| killed: "\<lbrakk>px_client s = Px_sends i; i < n; px_server_gone s\<rbrakk> \<Longrightarrow>
    proxy_client_step sc cap whole n line s (close_client s i Killed_by_sigpipe)"
| receives: "\<lbrakk>px_client s = Px_awaits i; received whole (px_s2c s) k;
      b = fill_buffer (px_buffer s) (take k (px_s2c s))\<rbrakk> \<Longrightarrow>
    proxy_client_step sc cap whole n line s
      (s\<lparr>px_client := Px_sends (Suc i), px_s2c := drop k (px_s2c s), px_buffer := b,
         px_reports := px_reports s @ check_response b\<rparr>)"
| lost: "\<lbrakk>px_client s = Px_awaits i; px_server_gone s\<rbrakk> \<Longrightarrow>
    proxy_client_step sc cap whole n line s
      (close_client (s\<lparr>px_reports := px_reports s @ [Some ''Failed to receive response.'']\<rparr>) i (Exited 0))"
| returns: "\<lbrakk>px_client s = Px_sends i; \<not> i < n\<rbrakk> \<Longrightarrow>
    proxy_client_step sc cap whole n line s (close_client s i (Exited 0))"

definition proxy_step :: "proxy_script \<Rightarrow> nat \<Rightarrow> bool \<Rightarrow> nat \<Rightarrow> string \<Rightarrow> proxy_sys \<Rightarrow> proxy_sys \<Rightarrow> bool" where
  "proxy_step sc cap whole n line s s' \<longleftrightarrow>
     proxy_setup_step sc s s' \<or> proxy_server_step sc cap whole s s' \<or> proxy_client_step sc cap whole n line s s'"

lemma proxy_stepI:
  "proxy_setup_step sc s s' \<Longrightarrow> proxy_step sc cap whole n line s s'"
  "proxy_server_step sc cap whole s s' \<Longrightarrow> proxy_step sc cap whole n line s s'"
  "proxy_client_step sc cap whole n line s s' \<Longrightarrow> proxy_step sc cap whole n line s s'"
  by (simp_all add: proxy_step_def)

lemma proxy_step_cases [consumes 1, case_names by_setup by_server by_client]:
  assumes "proxy_step sc cap whole n line s s'"
  obtains "proxy_setup_step sc s s'" | "proxy_server_step sc cap whole s s'" | "proxy_client_step sc cap whole n line s s'"
  using assms by (auto simp: proxy_step_def)

lemmas px_forks_client = proxy_setup_step.forks_client [THEN proxy_stepI(1)]
lemmas px_waited_client = proxy_setup_step.waited_client [THEN proxy_stepI(1)]
lemmas px_waited_server = proxy_setup_step.waited_server [THEN proxy_stepI(1)]
lemmas px_listens = proxy_server_step.listens [THEN proxy_stepI(2)]
lemmas px_accepts = proxy_server_step.accepts [THEN proxy_stepI(2)]
lemmas px_receives = proxy_server_step.receives [THEN proxy_stepI(2)]
lemmas px_stops = proxy_server_step.stops [THEN proxy_stepI(2)]
lemmas px_responds = proxy_server_step.responds [THEN proxy_stepI(2)]
lemmas px_responds_late = proxy_server_step.responds_late [THEN proxy_stepI(2)]
lemmas px_server_killed = proxy_server_step.killed [THEN proxy_stepI(2)]
lemmas px_connects = proxy_client_step.connects [THEN proxy_stepI(3)]
lemmas px_client_sends = proxy_client_step.sends [THEN proxy_stepI(3)]
lemmas px_client_sends_lost = proxy_client_step.sends_lost [THEN proxy_stepI(3)]
lemmas px_client_killed = proxy_client_step.killed [THEN proxy_stepI(3)]
lemmas px_client_receives = proxy_client_step.receives [THEN proxy_stepI(3)]
lemmas px_client_lost = proxy_client_step.lost [THEN proxy_stepI(3)]
lemmas px_client_returns = proxy_client_step.returns [THEN proxy_stepI(3)]

section \<open>The exchange\<close>

definition all_calls_succeed :: proxy_script where
  "all_calls_succeed = \<lparr>py_fork_server = True, py_exec_server = True, py_server_socket = True, py_server_nodelay = True,
     py_bind = True, py_listen = True, py_accept = True, py_fork_client = True, py_exec_client = True,
     py_client_socket = True, py_client_nodelay = True, py_connect = True\<rparr>"

lemma all_calls [simp]:
  "py_fork_client all_calls_succeed" "py_exec_client all_calls_succeed" "py_accept all_calls_succeed"
  "proxy_server_listen all_calls_succeed = Px_accepting"
  "proxy_client_connect all_calls_succeed b = (if b then Px_sends 0 else Px_client_ended 0 (Exited 1))"
  by (simp_all add: all_calls_succeed_def proxy_server_listen_def proxy_client_connect_def)

text \<open>
  While the client waits for a byte there is one on its way to it, or a request from which the server
  will make one. The bytes in the queues are bounded by the requests sent so far.
\<close>

definition queues_bounded :: "nat \<Rightarrow> nat \<Rightarrow> proxy_sys \<Rightarrow> bool" where
  "queues_bounded len j s \<longleftrightarrow> length (px_c2s s) \<le> len * j \<and>
     length (px_s2c s) + 4 * length (px_c2s s) + (if px_server s = Px_responding then 4 else 0) \<le> 4 * (len * j)"

definition serving :: "proxy_sys \<Rightarrow> bool" where
  "serving s \<longleftrightarrow> px_server s \<noteq> Px_starting \<and> (px_server s = Px_accepting \<longleftrightarrow> px_pending s)"

definition exchange_inv :: "nat \<Rightarrow> string \<Rightarrow> proxy_sys \<Rightarrow> bool" where
  "exchange_inv n line s \<longleftrightarrow> (px_reset s \<longrightarrow> px_client_gone s) \<and>
     (case px_client s of
        Px_sends i \<Rightarrow> i \<le> n \<and> serving s \<and> \<not> px_server_gone s \<and> queues_bounded (length line) i s
      | Px_awaits i \<Rightarrow> i < n \<and> serving s \<and> \<not> px_server_gone s \<and> queues_bounded (length line) (Suc i) s \<and>
          (px_c2s s \<noteq> [] \<or> px_s2c s \<noteq> [] \<or> px_server s = Px_responding)
      | Px_client_ended i e \<Rightarrow> i = n \<and> e = Exited 0 \<and> serving s
      | _ \<Rightarrow> px_server s = Px_accepting \<and> \<not> px_pending s \<and> px_c2s s = [] \<and> px_s2c s = []) \<and>
     (case px_setup s of
        Px_sleeps \<Rightarrow> px_client s = Px_absent
      | Px_waits_client \<Rightarrow> px_client s \<noteq> Px_absent
      | Px_waits_server \<Rightarrow> px_client_gone s
      | Px_returned r \<Rightarrow> px_client_gone s \<and> px_server_gone s \<and> r = 0)"

definition exchange_left :: "nat \<Rightarrow> string \<Rightarrow> proxy_sys \<Rightarrow> nat" where
  "exchange_left n line s =
     (case px_setup s of Px_sleeps \<Rightarrow> 3 | Px_waits_client \<Rightarrow> 2 | Px_waits_server \<Rightarrow> 1 | Px_returned _ \<Rightarrow> 0) +
     (case px_client s of
        Px_absent \<Rightarrow> (2 * length line + 2) * n + 3
      | Px_connecting \<Rightarrow> (2 * length line + 2) * n + 2
      | Px_sends i \<Rightarrow> (2 * length line + 2) * (n - i) + 1
      | Px_awaits i \<Rightarrow> (2 * length line + 2) * (n - Suc i) + 2
      | Px_client_ended i e \<Rightarrow> 0) +
     2 * length (px_c2s s) +
     (case px_server s of Px_starting \<Rightarrow> 3 | Px_accepting \<Rightarrow> 2 | Px_receiving \<Rightarrow> 1 | Px_responding \<Rightarrow> 2 | Px_server_ended e \<Rightarrow> 0)"

lemma close_client_fields [simp]:
  "px_setup (close_client s i e) = px_setup s" "px_server (close_client s i e) = px_server s"
  "px_client (close_client s i e) = Px_client_ended i e" "px_c2s (close_client s i e) = px_c2s s"
  "px_s2c (close_client s i e) = px_s2c s" "px_pending (close_client s i e) = px_pending s"
  "px_reports (close_client s i e) = px_reports s" "px_reset (close_client s i e) \<longleftrightarrow> px_reset s \<or> px_s2c s \<noteq> []"
  by (simp_all add: close_client_def)

lemma received_drop: "received whole queue k \<Longrightarrow> length (drop k queue) < length queue"
  by (auto simp: received_def)

lemma received_some: "queue \<noteq> [] \<Longrightarrow> \<exists>k. received whole queue k"
  by (intro exI [of _ "min proxy_buffer_size (length queue)"]) (auto simp: received_def proxy_buffer_size_def)

lemmas exchange_defs = exchange_inv_def exchange_left_def px_client_gone_def px_server_gone_def serving_def queues_bounded_def

lemma server_exchange:
  assumes "proxy_server_step all_calls_succeed cap whole s s'" "exchange_inv n line s"
  shows "exchange_inv n line s' \<and> exchange_left n line s' < exchange_left n line s"
  using assms(1)
proof (cases rule: proxy_server_step.cases)
  case (receives k)
  then have k: "length (px_c2s s) - k < length (px_c2s s)" "0 < k" "k \<le> length (px_c2s s)"
    by (auto simp: received_def)
  with receives assms(2) show ?thesis
    by (auto simp: exchange_defs split: proxy_client_pc.splits proxy_setup_pc.splits)
next
  case responds
  with assms(2) show ?thesis
    by (auto simp: exchange_defs proxy_response_def split: proxy_client_pc.splits proxy_setup_pc.splits)
qed (use assms(2) in \<open>auto simp: exchange_defs split: proxy_client_pc.splits proxy_setup_pc.splits\<close>)

lemma client_exchange:
  assumes "proxy_client_step all_calls_succeed cap whole n line s s'" "exchange_inv n line s" "line \<noteq> []"
  shows "exchange_inv n line s' \<and> exchange_left n line s' < exchange_left n line s"
  using assms(1)
proof (cases rule: proxy_client_step.cases)
  case (sends i)
  then obtain d where n: "n - i = Suc d" "n - Suc i = d" by (metis Suc_diff_Suc)
  with sends assms show ?thesis by (auto simp: exchange_defs split: proxy_setup_pc.splits)
next
  case (receives i k b)
  with assms(2) show ?thesis by (auto simp: exchange_defs received_def split: proxy_setup_pc.splits)
qed (use assms(2) in \<open>auto simp: exchange_defs split: proxy_setup_pc.splits proxy_server_pc.splits\<close>)

lemma exchange_step:
  assumes "proxy_step all_calls_succeed cap whole n line s s'" "exchange_inv n line s" "line \<noteq> []"
  shows "exchange_inv n line s' \<and> exchange_left n line s' < exchange_left n line s"
  using assms(1)
proof (cases rule: proxy_step_cases)
  case by_setup
  then show ?thesis
    using assms(2) by (cases rule: proxy_setup_step.cases) (auto simp: exchange_defs split: proxy_client_pc.splits)
next
  case by_server
  then show ?thesis using server_exchange assms(2) by blast
next
  case by_client
  then show ?thesis using client_exchange assms(2,3) by blast
qed

lemma awaiting_progress:
  assumes c: "px_client s = Px_awaits i" and s: "serving s" "\<not> px_server_gone s" "\<not> px_reset s"
    and q: "px_c2s s \<noteq> [] \<or> px_s2c s \<noteq> [] \<or> px_server s = Px_responding"
    and room: "px_server s = Px_responding \<Longrightarrow> length (px_s2c s) + length proxy_response \<le> cap"
  shows "\<exists>s'. proxy_step all_calls_succeed cap whole n line s s'"
proof -
  consider "px_s2c s \<noteq> []" | "px_server s = Px_accepting" "px_pending s" | "px_server s = Px_receiving" "px_c2s s \<noteq> []"
    | "px_server s = Px_responding"
    using s q by (cases "px_server s") (auto simp: serving_def px_server_gone_def)
  then show ?thesis
  proof cases
    case 1
    then show ?thesis using received_some px_client_receives [OF c] by blast
  next
    case 2
    then show ?thesis by (blast intro: px_accepts)
  next
    case 3
    then show ?thesis using received_some px_receives s(3) by blast
  next
    case 4
    moreover have "\<not> px_client_gone s" using c by (simp add: px_client_gone_def)
    ultimately show ?thesis using px_responds room by blast
  qed
qed

lemma closing_progress:
  assumes g: "px_client_gone s" and s: "serving s" and p: "px_setup s \<noteq> Px_sleeps" "\<And>r. px_setup s \<noteq> Px_returned r"
  shows "\<exists>s'. proxy_step all_calls_succeed cap whole n line s s'"
proof (cases "px_server s")
  case Px_starting
  then show ?thesis using px_listens by blast
next
  case Px_accepting
  then have "px_pending s" using s by (simp add: serving_def)
  then show ?thesis using px_accepts [OF Px_accepting] by blast
next
  case Px_receiving
  obtain k where "received whole (px_c2s s) k \<or> px_c2s s = []" using received_some by blast
  then show ?thesis using px_stops [OF Px_receiving g] px_receives [OF Px_receiving, where whole = whole and k = k] by blast
next
  case Px_responding
  then show ?thesis using px_responds_late g by blast
next
  case (Px_server_ended x)
  then have "px_server_gone s" by (simp add: px_server_gone_def)
  moreover have "px_setup s = Px_waits_client \<or> px_setup s = Px_waits_server" using p by (cases "px_setup s") auto
  ultimately show ?thesis using g px_waited_client [of s all_calls_succeed] px_waited_server [of s] by force
qed

lemma exchange_progress:
  assumes "exchange_inv n line s" "px_setup s \<noteq> Px_returned 0"
    and room: "\<And>i. px_client s = Px_sends i \<Longrightarrow> i < n \<Longrightarrow> length (px_c2s s) + length line \<le> cap"
      "px_server s = Px_responding \<Longrightarrow> \<not> px_client_gone s \<Longrightarrow> length (px_s2c s) + length proxy_response \<le> cap"
  shows "\<exists>s'. proxy_step all_calls_succeed cap whole n line s s'"
proof (cases "px_client s")
  case Px_absent
  then have "px_setup s = Px_sleeps" using assms(1) by (auto simp: exchange_inv_def px_client_gone_def split: proxy_setup_pc.splits)
  then show ?thesis by (blast intro: px_forks_client)
next
  case Px_connecting
  then show ?thesis by (blast intro: px_connects)
next
  case (Px_sends i)
  then show ?thesis
    using px_client_sends [OF Px_sends] px_client_returns [OF Px_sends] room(1) [OF Px_sends] assms(1)
    by (cases "i < n") (fastforce simp: exchange_inv_def)+
next
  case (Px_awaits i)
  then show ?thesis
    using assms(1) room(2) by (intro awaiting_progress [OF Px_awaits]) (auto simp: exchange_inv_def px_client_gone_def)
next
  case (Px_client_ended i e)
  then show ?thesis
    using assms(1,2)
    by (intro closing_progress) (auto simp: exchange_inv_def px_client_gone_def split: proxy_setup_pc.splits)
qed

section \<open>Receives that take everything\<close>

text \<open>When each receive takes all that is there, requests and responses keep their boundaries.\<close>

definition in_turn :: "string \<Rightarrow> proxy_sys \<Rightarrow> bool" where
  "in_turn line s \<longleftrightarrow> px_reports s = [] \<and> \<not> px_reset s \<and>
     (case px_client s of
        Px_awaits i \<Rightarrow>
          px_server s \<in> {Px_accepting, Px_receiving} \<and> px_c2s s = line \<and> px_s2c s = [] \<or>
          px_server s = Px_responding \<and> px_c2s s = [] \<and> px_s2c s = [] \<or>
          px_server s = Px_receiving \<and> px_c2s s = [] \<and> px_s2c s = proxy_response
      | _ \<Rightarrow> px_server s \<in> {Px_accepting, Px_receiving, Px_server_ended (Exited 0)} \<and> px_c2s s = [] \<and> px_s2c s = [])"

lemma check_full_response: "check_response (fill_buffer b proxy_response) = []"
  by (simp add: check_response_def fill_buffer_def proxy_response_def)

lemma in_turn_step:
  assumes "proxy_step all_calls_succeed cap True n line s s'" "exchange_inv n line s" "in_turn line s"
    and "line \<noteq> []" "length line \<le> proxy_buffer_size"
  shows "in_turn line s'"
  using assms(1)
proof (cases rule: proxy_step_cases)
  case by_setup
  then show ?thesis
    using assms(2,3) by (cases rule: proxy_setup_step.cases) (auto simp: in_turn_def exchange_inv_def split: proxy_client_pc.splits)
next
  case by_server
  then show ?thesis
    using assms(2-5)
    by (cases rule: proxy_server_step.cases)
      (auto simp: in_turn_def received_def exchange_defs split: proxy_client_pc.splits)
next
  case by_client
  then show ?thesis
  proof (cases rule: proxy_client_step.cases)
    case (receives i k b)
    then have "k = length (px_s2c s)" "px_s2c s = proxy_response" "px_server s = Px_receiving"
      using assms(3) by (auto simp: in_turn_def received_def proxy_buffer_size_def proxy_response_def)
    moreover have "proxy_response \<noteq> []" by (simp add: proxy_response_def)
    ultimately show ?thesis using receives assms(3) by (auto simp: in_turn_def check_full_response)
  qed (use assms(2,3) in \<open>auto simp: in_turn_def exchange_defs\<close>)
qed

lemma exchange_reachable:
  assumes "(proxy_step all_calls_succeed cap whole n line ^^ k) s0 s" "exchange_inv n line s0" "in_turn line s0"
    and "line \<noteq> []" "length line \<le> proxy_buffer_size"
  shows "exchange_inv n line s \<and> (whole \<longrightarrow> in_turn line s) \<and> k + exchange_left n line s \<le> exchange_left n line s0"
  using assms(1)
proof (induction k arbitrary: s)
  case 0
  then show ?case using assms by simp
next
  case (Suc k)
  then obtain s1 where 1: "(proxy_step all_calls_succeed cap whole n line ^^ k) s0 s1"
    "proxy_step all_calls_succeed cap whole n line s1 s" by auto
  note inv = Suc.IH [OF 1(1)]
  show ?case
    using exchange_step [OF 1(2) _ assms(4)] in_turn_step [of cap n line s1 s] 1(2) inv assms(4,5) by (cases whole) auto
qed

lemma proxy_request_eq: "proxy_request = bench_line"
  by (rule ext) (simp add: proxy_request_def bench_line_def)

definition listening_start :: proxy_sys where
  "listening_start = (proxy_setup all_calls_succeed)\<lparr>px_server := proxy_server_listen all_calls_succeed\<rparr>"

lemma listening_start_inv:
  "exchange_inv n line listening_start" "in_turn line listening_start"
  "exchange_left n line listening_start = (2 * length line + 2) * n + 8"
  by (simp_all add: listening_start_def proxy_setup_def exchange_inv_def exchange_left_def in_turn_def px_client_gone_def)

lemma exchange_room:
  assumes "exchange_inv n line s" "whole \<Longrightarrow> in_turn line s" "4 \<le> length line"
    and "4 * (length line * n) \<le> cap \<or> whole \<and> length line \<le> cap"
  shows "px_client s = Px_sends i \<Longrightarrow> i < n \<Longrightarrow> length (px_c2s s) + length line \<le> cap"
    and "px_server s = Px_responding \<Longrightarrow> \<not> px_client_gone s \<Longrightarrow> length (px_s2c s) + length proxy_response \<le> cap"
proof -
  have mono: "Suc j \<le> n \<Longrightarrow> length line + length line * j \<le> length line * n" for j
    using mult_le_mono2 [of "Suc j" n "length line"] by simp
  show "px_client s = Px_sends i \<Longrightarrow> i < n \<Longrightarrow> length (px_c2s s) + length line \<le> cap"
    using assms mono [of i] by (auto simp: exchange_inv_def queues_bounded_def in_turn_def)
  assume r: "px_server s = Px_responding" and g: "\<not> px_client_gone s"
  have "\<exists>j\<le>n. queues_bounded (length line) j s"
    using assms(1) r g by (auto simp: exchange_inv_def px_client_gone_def split: proxy_client_pc.splits intro: Suc_leI)
  then obtain j where "j \<le> n" "length (px_s2c s) + 4 \<le> 4 * (length line * j)" using r by (auto simp: queues_bounded_def)
  then have "length (px_s2c s) + 4 \<le> 4 * (length line * n)" using mult_le_mono2 [of j n "length line"] by linarith
  moreover have "in_turn line s \<Longrightarrow> px_s2c s = []" using r by (auto simp: in_turn_def split: proxy_client_pc.splits)
  ultimately show "length (px_s2c s) + length proxy_response \<le> cap"
    using assms(2-4) by (auto simp: proxy_response_def)
qed

text \<open>
  The benchmark over a socket completes if the server listens when the client connects: however the
  processes are scheduled and however the stream is cut into pieces, as long as the queues have room for
  what \<open>n\<close> rounds can put into them, a run does not block before it is over and is over after at most
  \<open>166 * n + 8\<close> steps, with \<open>n\<close> rounds of the client. If each receive takes all that is there, room for
  one request is enough, every response is the expected one and the server ends by itself.
\<close>

theorem proxy_benchmark_completes:
  assumes draws: "\<forall>i. draw i < 62" and room: "4 * (82 * n) \<le> cap \<or> whole \<and> 82 \<le> cap"
    and run: "(proxy_step all_calls_succeed cap whole n (proxy_request draw) ^^ k) listening_start s"
  shows "k \<le> 166 * n + 8 \<and>
    ((\<exists>s'. proxy_step all_calls_succeed cap whole n (proxy_request draw) s s') \<or>
     px_setup s = Px_returned 0 \<and> px_client s = Px_client_ended n (Exited 0) \<and> px_server_gone s \<and>
       (whole \<longrightarrow> px_reports s = [] \<and> px_server s = Px_server_ended (Exited 0)))"
proof -
  have l: "length (proxy_request draw) = 82" using bench_line_line [of draw] draws by (auto simp: proxy_request_eq)
  then have l': "proxy_request draw \<noteq> []" "length (proxy_request draw) \<le> proxy_buffer_size" by (auto simp: proxy_buffer_size_def)
  note inv = exchange_reachable [OF run listening_start_inv(1,2) l']
  then have "px_setup s \<noteq> Px_returned 0 \<Longrightarrow> \<exists>s'. proxy_step all_calls_succeed cap whole n (proxy_request draw) s s'"
    using exchange_room [of n "proxy_request draw" s whole cap] room l by (intro exchange_progress) auto
  moreover have "px_client s = Px_client_ended n (Exited 0) \<and> px_server_gone s \<and>
      (whole \<longrightarrow> px_reports s = [] \<and> px_server s = Px_server_ended (Exited 0))" if "px_setup s = Px_returned 0"
    using that inv by (auto simp: exchange_inv_def px_client_gone_def px_server_gone_def in_turn_def
        split: proxy_client_pc.splits)
  ultimately show ?thesis using inv listening_start_inv(3) [of n "proxy_request draw"] l by (cases "px_setup s = Px_returned 0") auto
qed

theorem proxy_benchmark_completes_witness:
  "\<exists>s'. proxy_step all_calls_succeed 82 True 3 (proxy_request (\<lambda>_. 0)) listening_start s'"
  using proxy_benchmark_completes
    [where draw = "\<lambda>_. 0" and n = 3 and cap = 82 and whole = True and k = 0 and s = listening_start]
  by (auto simp: listening_start_def proxy_setup_def)

text \<open>
  The pause of the setup process is all that orders the two children: when the client comes before the
  server listens it is refused, the server then waits for a client that will not come, and the setup
  process, which waits for the server, is stuck with it, although no other call has failed.
\<close>

theorem proxy_setup_can_hang:
  "\<exists>s. (proxy_step all_calls_succeed cap whole n line)\<^sup>*\<^sup>* (proxy_setup all_calls_succeed) s \<and>
    px_setup s = Px_waits_server \<and> px_server s = Px_accepting \<and> px_client s = Px_client_ended 0 (Exited 1) \<and>
    (\<forall>s'. \<not> proxy_step all_calls_succeed cap whole n line s s')"
proof -
  let ?step = "proxy_step all_calls_succeed cap whole n line"
  define a where "a = proxy_setup all_calls_succeed"
  define b where "b = a\<lparr>px_setup := Px_waits_client, px_client := Px_connecting\<rparr>"
  define c where "c = b\<lparr>px_client := Px_client_ended 0 (Exited 1)\<rparr>"
  define d where "d = c\<lparr>px_setup := Px_waits_server\<rparr>"
  define e where "e = d\<lparr>px_server := Px_accepting\<rparr>"
  have "?step a b" using px_forks_client [of a all_calls_succeed] by (simp add: b_def a_def proxy_setup_def)
  moreover have "?step b c"
    using px_connects [of b all_calls_succeed cap whole n line]
    by (simp add: c_def b_def a_def proxy_setup_def all_calls_succeed_def proxy_client_connect_def)
  moreover have "?step c d" using px_waited_client [of c all_calls_succeed] by (simp add: d_def c_def b_def px_client_gone_def)
  moreover have "?step d e"
    using px_listens [of d all_calls_succeed] by (simp add: e_def d_def c_def b_def a_def proxy_setup_def all_calls_succeed_def proxy_server_listen_def)
  ultimately have "?step\<^sup>*\<^sup>* a e" by (meson converse_rtranclp_into_rtranclp rtranclp.rtrancl_refl)
  moreover have e: "px_setup e = Px_waits_server" "px_server e = Px_accepting" "px_client e = Px_client_ended 0 (Exited 1)"
    "\<not> px_pending e"
    by (simp_all add: e_def d_def c_def b_def a_def proxy_setup_def)
  then have "\<not> ?step e s'" for s'
    by (auto simp: proxy_step_def px_server_gone_def elim: proxy_setup_step.cases proxy_server_step.cases proxy_client_step.cases)
  ultimately show ?thesis unfolding a_def using e by (intro exI [of _ e]) simp
qed

end
