(* ===== verification/Unit_Tests.thy ===== *)
theory Unit_Tests
  imports Audit_Interleaving Store_Properties Connection
begin

text \<open>
  The test programs under \<^verbatim>\<open>test/source\<close>: \<^verbatim>\<open>encryption_test.cpp\<close>, which encrypts and decrypts a text and
  asserts that it comes back, and \<^verbatim>\<open>gdpr_logger_perf_test.cpp\<close>, which logs the same request many times,
  first as text and then encoded. The tests run one case; the theorems say what they show for every
  OpenSSL with the contract and for any number of iterations. The third test, \<^verbatim>\<open>gdpr_controller_test.cpp\<close>,
  calls a member function that \<^verbatim>\<open>default_policy\<close> does not have.
\<close>

section \<open>The encryption test\<close>

datatype test_end = Test_returns nat | Assertion_fails | Test_raises cpp_error

definition test_key :: string where "test_key = ''0123456789012345''"

definition test_plaintext :: string where "test_plaintext = ''Hello, world!''"

text \<open>The result of setting the key is not looked at. The lines are what the program prints.\<close>

definition encryption_test :: "'c openssl \<Rightarrow> cipher_engine \<Rightarrow> string option \<Rightarrow> string list \<times> test_end" where
  "encryption_test ossl eng0 iv =
     (let eng = snd (init_encryption_key eng0 test_key db_key);
          out0 = [''Plain text: '' @ test_plaintext];
          r = encrypt ossl eng iv test_plaintext db_key
      in if er_success r then
           let out1 = out0 @ [''Encryption successful!'', ''Result string: '' @ er_ciphertext r]
           in case decrypt ossl eng (er_ciphertext r) db_key of
                Inl e \<Rightarrow> (out1, Test_raises e)
              | Inr d \<Rightarrow>
                  if dr_success d then
                    (out1 @ [''Decryption successful!'', ''Decrypted text: '' @ dr_plaintext d],
                     if test_plaintext = dr_plaintext d then Test_returns 0 else Assertion_fails)
                  else (out1 @ [''Decryption failed!''], Test_returns 0)
         else (out0 @ [''Encryption failed!''], Test_returns 0))"

text \<open>
  The test passes: with an OpenSSL whose sealed texts open again the assertion holds, and when the
  encryption succeeds the text that is printed last is the plaintext.
\<close>

theorem encryption_test_passes:
  assumes "openssl_contract ossl" "engine_inv eng" "length iv = initialization_vector_len"
  shows "snd (encryption_test ossl eng (Some iv)) = Test_returns 0 \<and>
    (er_success (encrypt ossl (snd (init_encryption_key eng test_key db_key)) (Some iv) test_plaintext db_key) \<longrightarrow>
      last (fst (encryption_test ossl eng (Some iv))) = ''Decrypted text: '' @ test_plaintext)"
proof -
  let ?eng = "snd (init_encryption_key eng test_key db_key)"
  have "engine_inv ?eng" using init_encryption_key_keeps_keys [OF assms(2), of db_key test_key] by simp
  moreover have "length test_plaintext < 2 ^ 31" by (simp add: test_plaintext_def)
  ultimately have "er_success (encrypt ossl ?eng (Some iv) test_plaintext db_key) \<Longrightarrow>
      decrypt ossl ?eng (er_ciphertext (encrypt ossl ?eng (Some iv) test_plaintext db_key)) db_key =
        Inr \<lparr>dr_plaintext = test_plaintext, dr_success = True\<rparr>"
    using openssl_contract.decrypt_encrypt [OF assms(1) _ assms(3)] by blast
  then show ?thesis by (simp add: encryption_test_def Let_def)
qed

theorem encryption_test_passes_witness:
  "snd (encryption_test plain_openssl default_engine (Some ''abcdefghijkl'')) = Test_returns 0"
  using encryption_test_passes [OF plain_ossl.openssl_contract_axioms default_engine_inv, of "''abcdefghijkl''"]
  by (simp add: initialization_vector_len_def)

section \<open>The logger test\<close>

definition perf_iterations :: nat where "perf_iterations = 1000000"

text \<open>The loop \<^verbatim>\<open>for (int i = 0; i < iterations; i++)\<close> around a call of the logger, from iteration \<open>i\<close> on.\<close>

primrec repeat_log :: "(nat \<Rightarrow> logger \<Rightarrow> logger result) \<Rightarrow> nat \<Rightarrow> nat \<Rightarrow> logger \<Rightarrow> logger result" where
  "repeat_log call i 0 lg = Inr lg"
| "repeat_log call i (Suc n) lg = bind_result (call i lg) (repeat_log call (Suc i) n)"

definition perf_value :: string where "perf_value = replicate 1024 (CHR ''x'')"

definition perf_query1 :: query where "perf_query1 = query_of_parts ''user1'' ''key1'' ''put''"

definition perf_query2 :: query where "perf_query2 = query_of_parts ''user2'' ''key2'' ''put''"

text \<open>\<open>raw_time i\<close> and \<open>entry_time i\<close> are the readings of the clock, \<open>cipher i\<close> has the vector of a call.\<close>

definition logger_perf_test ::
  "nat option \<Rightarrow> (string \<Rightarrow> bool) \<Rightarrow> (string \<Rightarrow> bool) \<Rightarrow> (string \<Rightarrow> bool) \<Rightarrow> (nat \<Rightarrow> int) \<Rightarrow> (nat \<Rightarrow> int) \<Rightarrow> (nat \<Rightarrow> 'c log_cipher)
     \<Rightarrow> nat \<Rightarrow> (string \<rightharpoonup> string) \<Rightarrow> logger result" where
  "logger_perf_test rlimit dir_exists can_create can_open raw_time entry_time cipher iterations fs =
     bind_result (new_logger rlimit fs) (\<lambda>lg0.
     bind_result (init_log_path dir_exists can_create lg0 (Some ''/scratch/dimitrios/logs/'')) (\<lambda>lg1.
     bind_result (repeat_log (\<lambda>i lg. log_raw_query (\<lambda>_. False) can_open (raw_time i) lg perf_query1 empty_policy True perf_value)
         0 iterations lg1) (\<lambda>lg2.
       repeat_log (\<lambda>i lg. log_encoded_query (\<lambda>_. False) can_open (cipher i) (entry_time i) lg perf_query2 empty_policy True perf_value)
         0 iterations lg2)))"

lemma repeat_log_appends:
  assumes "\<And>i lg. logger_ok lg \<Longrightarrow> lg_dir lg = dir \<Longrightarrow>
      \<exists>lg'. call i lg = Inr lg' \<and> log_grows lg lg' \<and> (\<forall>k. file_content lg' k = file_content lg k @ (if k = key then entry i else []))"
    and "logger_ok lg" "lg_dir lg = dir"
  shows "\<exists>lg'. repeat_log call i n lg = Inr lg' \<and> logger_ok lg' \<and> lg_dir lg' = dir \<and>
    (\<forall>k. file_content lg' k = file_content lg k @ (if k = key then concat (map entry [i..<i + n]) else []))"
  using assms(2,3)
proof (induction n arbitrary: i lg)
  case 0
  then show ?case by simp
next
  case (Suc n)
  obtain lg1 where 1: "call i lg = Inr lg1" "logger_ok lg1" "lg_dir lg1 = dir"
    "\<forall>k. file_content lg1 k = file_content lg k @ (if k = key then entry i else [])"
    using assms(1) [OF Suc.prems, of i] Suc.prems(2) unfolding log_grows_def by auto
  obtain lg2 where 2: "repeat_log call (Suc i) n lg1 = Inr lg2" "logger_ok lg2" "lg_dir lg2 = dir"
    "\<forall>k. file_content lg2 k = file_content lg1 k @ (if k = key then concat (map entry [Suc i..<Suc i + n]) else [])"
    using Suc.IH [OF 1(2,3)] by blast
  with 1 show ?case by (intro exI [of _ lg2]) (simp add: upt_conv_Cons del: upt_Suc)
qed

lemma perf_queries [simp]:
  "q_key perf_query1 = ''key1''" "q_key perf_query2 = ''key2''" "q_cmd perf_query1 = ''put''" "q_cmd perf_query2 = ''put''"
  "request_user perf_query1 p = ''user1''" "request_user perf_query2 p = ''user2''"
  by (simp_all add: perf_query1_def perf_query2_def query_of_parts_def request_user_def)

definition perf_raw_entry :: "int \<Rightarrow> string" where
  "perf_raw_entry t = raw_line t ''user1'' (operation_code (convert_operation_to_enum ''put'')) True perf_value"

definition perf_encoded_entry :: "'c log_cipher \<Rightarrow> int \<Rightarrow> string" where
  "perf_encoded_entry cipher t =
     entry_bytes (stored_entry cipher (encode_entry t ''user2'' (operation_result ''put'' True) perf_value))"

lemma raw_loop_appends:
  assumes "\<forall>path. can_open path" "logger_ok lg"
  shows "\<exists>lg'. repeat_log (\<lambda>i lg. log_raw_query (\<lambda>_. False) can_open (t i) lg perf_query1 empty_policy True perf_value) 0 n lg = Inr lg' \<and>
    logger_ok lg' \<and> lg_dir lg' = lg_dir lg \<and>
    (\<forall>k. file_content lg' k = file_content lg k @ (if k = ''key1'' then concat (map (\<lambda>i. perf_raw_entry (t i)) [0..<0 + n]) else []))"
proof (rule repeat_log_appends)
  fix i lg assume "logger_ok lg"
  then show "\<exists>lg'. log_raw_query (\<lambda>_. False) can_open (t i) lg perf_query1 empty_policy True perf_value = Inr lg' \<and> log_grows lg lg' \<and>
      (\<forall>k. file_content lg' k = file_content lg k @ (if k = ''key1'' then perf_raw_entry (t i) else []))"
    using log_raw_query_appends [of lg can_open perf_query1] assms(1) unfolding perf_queries perf_raw_entry_def by blast
qed (simp_all add: assms)

lemma encoded_loop_appends:
  assumes "\<forall>path. can_open path" "logger_ok lg"
  shows "\<exists>lg'. repeat_log (\<lambda>i lg. log_encoded_query (\<lambda>_. False) can_open (cipher i) (t i) lg perf_query2 empty_policy True perf_value)
      0 n lg = Inr lg' \<and> logger_ok lg' \<and> lg_dir lg' = lg_dir lg \<and>
    (\<forall>k. file_content lg' k =
      file_content lg k @ (if k = ''key2'' then concat (map (\<lambda>i. perf_encoded_entry (cipher i) (t i)) [0..<0 + n]) else []))"
proof (rule repeat_log_appends)
  fix i lg assume "logger_ok lg"
  then show "\<exists>lg'. log_encoded_query (\<lambda>_. False) can_open (cipher i) (t i) lg perf_query2 empty_policy True perf_value = Inr lg' \<and>
      log_grows lg lg' \<and>
      (\<forall>k. file_content lg' k = file_content lg k @ (if k = ''key2'' then perf_encoded_entry (cipher i) (t i) else []))"
    using log_encoded_query_appends [of lg can_open perf_query2] assms(1)
    unfolding perf_queries perf_encoded_entry_def request_entry_def by blast
qed (simp_all add: assms)

text \<open>
  What the measured program does: after \<open>n\<close> iterations of each loop the log of the first key has \<open>n\<close> more
  lines, that of the second one the frames of the \<open>n\<close> entries that could be encrypted, both in order, and
  no other file of the logger has changed.
\<close>

theorem logger_perf_test_logs:
  assumes rlimit: "-1 \<le> get_max_fds rlimit" and files: "\<forall>path. can_open path"
    and dir: "dir_exists ''/scratch/dimitrios/logs/'' \<or> can_create ''/scratch/dimitrios/logs/''"
  shows "\<exists>lg. logger_perf_test rlimit dir_exists can_create can_open raw_time entry_time cipher n fs = Inr lg \<and> logger_ok lg \<and>
    (\<forall>k. file_content lg k =
      (case fs (''/scratch/dimitrios/logs//'' @ k @ ''.log'') of Some c \<Rightarrow> c | None \<Rightarrow> []) @
      (if k = ''key1'' then concat (map (\<lambda>i. perf_raw_entry (raw_time i)) [0..<n])
       else if k = ''key2'' then concat (map (\<lambda>i. perf_encoded_entry (cipher i) (entry_time i)) [0..<n])
       else []))"
proof -
  let ?lg = "\<lparr>lg_dir = ''/scratch/dimitrios/logs/'', lg_files = [], lg_used = [],
      lg_max = nat ((4 * get_max_fds rlimit + 4) div 5), lg_fs = fs\<rparr>"
  have ok: "logger_ok ?lg" by (simp add: logger_ok_def stream_inv_def streams_exist_def)
  have content: "file_content ?lg k = (case fs (''/scratch/dimitrios/logs//'' @ k @ ''.log'') of Some c \<Rightarrow> c | None \<Rightarrow> [])" for k
    by (simp add: file_content_def log_file_path_def log_file_extension_def)
  obtain lg1 where 1: "repeat_log (\<lambda>i lg. log_raw_query (\<lambda>_. False) can_open (raw_time i) lg perf_query1 empty_policy True perf_value)
      0 n ?lg = Inr lg1" "logger_ok lg1"
    "\<forall>k. file_content lg1 k = file_content ?lg k @ (if k = ''key1'' then concat (map (\<lambda>i. perf_raw_entry (raw_time i)) [0..<0 + n]) else [])"
    using raw_loop_appends [OF files ok] by blast
  obtain lg2 where 2: "repeat_log (\<lambda>i lg. log_encoded_query (\<lambda>_. False) can_open (cipher i) (entry_time i) lg perf_query2 empty_policy True perf_value)
      0 n lg1 = Inr lg2" "logger_ok lg2"
    "\<forall>k. file_content lg2 k = file_content lg1 k @ (if k = ''key2'' then concat (map (\<lambda>i. perf_encoded_entry (cipher i) (entry_time i)) [0..<0 + n]) else [])"
    using encoded_loop_appends [OF files 1(2)] by blast
  have "logger_perf_test rlimit dir_exists can_create can_open raw_time entry_time cipher n fs = Inr lg2"
    using rlimit dir 1(1) 2(1) by (auto simp: logger_perf_test_def new_logger_def init_log_path_def)
  with 1 2 content show ?thesis by auto
qed

theorem logger_perf_test_logs_witness:
  "\<exists>lg. logger_perf_test None (\<lambda>_. True) (\<lambda>_. True) (\<lambda>_. True) int int (\<lambda>_. None :: string log_cipher) 2 Map.empty = Inr lg \<and>
    file_content lg ''key1'' = perf_raw_entry 0 @ perf_raw_entry 1"
proof -
  have "[0..<2] = [0, 1 :: nat]" by (simp add: upt_rec)
  then show ?thesis
    using logger_perf_test_logs [of None "\<lambda>_. True" "\<lambda>_. True" "\<lambda>_. True" int int "\<lambda>_. None :: string log_cipher" 2 Map.empty]
    by (auto simp: get_max_fds_def)
qed

end
