(* ===== verification/Spec2Isabelle.thy ===== *)
theory Spec2Isabelle
  imports Server_Sessions Session_Refinement Accountability Pool_Sessions Console_Properties Cipher_Print
    Microbench_Proxy Unit_Tests
begin

text \<open>
  \<^bold>\<open>GDPRuler: a verified model of the GDPR controller and its key-value clients.\<close>

  GDPRuler puts a controller between clients and a key-value store. A client connects, sends a default
  policy and then requests (get, put, delete, getm, putm, getLogs) with GDPR predicates. The controller
  stores every value with eight metadata fields in front of it, checks each request against the fields
  of the value it names, encrypts what it stores, and writes an audit log per key that a regulator
  may read.

  \<^bold>\<open>Parts of the program and the theories that model them\<close> (paths under \<^verbatim>\<open>src/controller/source\<close>)

  \<^item> C++ library: \<open>Prelude\<close> (exceptions as \<open>cpp_error\<close>, the result type), \<open>Cpp_String\<close> (searches and
    substrings with \<^verbatim>\<open>npos\<close>, token extraction), \<open>Cpp_Number\<close> (\<^verbatim>\<open>stoi\<close>, \<^verbatim>\<open>stoll\<close>, \<^verbatim>\<open>stoull\<close>, \<^verbatim>\<open>to_string\<close>,
    little- and big-endian bytes).
  \<^item> \<^verbatim>\<open>gdpr_metadata.hpp\<close>: \<open>Gdpr_Metadata\<close>, the field layout, purposes as a 64-bit set, expiration times
    and the loop over the fields that three components share.
  \<^item> \<^verbatim>\<open>query.hpp/.cpp\<close>: \<open>Query\<close>, the request parser. \<^verbatim>\<open>default_policy.hpp/.cpp\<close>: \<open>Default_Policy\<close>.
  \<^item> \<^verbatim>\<open>gdpr_filter.hpp/.cpp\<close>: \<open>Gdpr_Filter\<close>, the metadata of a stored value and the access check.
    \<^verbatim>\<open>query_rewriter.hpp/.cpp\<close>: \<open>Query_Rewriter\<close>, the text that is stored.
  \<^item> \<^verbatim>\<open>encryption/cipher_engine.hpp\<close>: \<open>Cipher_Engine\<close>. \<open>Codec\<close> is the contract of an encoder and a decoder.
    \<^verbatim>\<open>encryption/cipher_print_utils.hpp\<close>: \<open>Cipher_Print\<close>, the debug output of bytes.
  \<^item> \<^verbatim>\<open>kv_client/\<close>: \<open>Kv_Client\<close> (the interface and the encrypting operations), \<open>Redis_Client\<close>,
    \<open>Rocksdb_Client\<close>; \<^verbatim>\<open>rocksdb_server/\<close>: \<open>Rocksdb_Message\<close>, \<open>Rocksdb_Server\<close> (proxy and session) and
    \<open>Server_Sessions\<close> (start, acceptor, several sessions at once). \<open>Stores\<close> puts the contracts together.
  \<^item> \<^verbatim>\<open>logging/\<close>: \<open>Log_Common\<close>, \<open>Logger\<close>, \<open>Logger_Facts\<close>, \<open>Logger_Threads\<close> (the mutexes), \<open>Monitor\<close>;
    \<^verbatim>\<open>gdpr_regulator.hpp/.cpp\<close>: \<open>Gdpr_Regulator\<close>.
  \<^item> \<^verbatim>\<open>common.hpp\<close>: \<open>Common\<close> (response codes, command line, framed messages over a socket).
    \<^verbatim>\<open>controller.cpp\<close>: \<open>Controller\<close> (the handlers), \<open>Connection\<close> (policy, request loop, set-up; with
    \<^verbatim>\<open>kv_client/factory.hpp\<close>) and \<open>Process\<close> (\<^verbatim>\<open>main\<close>: listening socket and accept loop). Several
    connections at once: \<open>Interleaving\<close>, \<open>Interleaving_Facts\<close>, \<open>Audit_Interleaving\<close>, \<open>Pool_Sessions\<close>.
  \<^item> \<^verbatim>\<open>native_controller.cpp\<close>: \<open>Native_Controller\<close>. \<^verbatim>\<open>direct_kv_client.cpp\<close> and
    \<^verbatim>\<open>test_kv_client_driver.cpp\<close>, which read the standard input: \<open>Console\<close>.
  \<^item> \<^verbatim>\<open>evaluation/microbenchmarks/cpp_test\<close> (under \<^verbatim>\<open>src/\<close>): \<open>Microbench\<close> (three processes and two pipes) and
    \<open>Microbench_Proxy\<close> (three processes and a socket). \<^verbatim>\<open>controller/test/source\<close>: \<open>Unit_Tests\<close>.

  \<^bold>\<open>How code becomes definitions.\<close> A class is a record with its members, a constructor that parses is
  a function to \<open>result\<close>, whose left side is the exception that would leave it; nothing in the program
  catches these, so at the top of a connection they end the process (\<open>Process_end\<close>). Reads and writes
  outside an object and signed overflow are \<open>Undefined_behaviour\<close>. Loops are recursive functions that
  are proved to terminate; none needs fuel. The two loops over the standard input may run for ever and
  are partial functions, with \<open>None\<close> for that; it is proved when they return. The accept loop runs
  over the list of its accept results. Threads are lists of states with an inductive step relation;
  the processes of a benchmark are program counters in one record, each with a step relation of its
  own. A handler takes and returns the \<open>world\<close> (database and logger) and the environment of its
  request (\<open>req_env\<close>).

  \<^bold>\<open>Parameters.\<close> Code outside the repository is a parameter: OpenSSL (\<open>openssl\<close>), redis-plus-plus
  (\<open>redis_lib\<close>), RocksDB (\<open>rocksdb_lib\<close>), connecting (\<open>connect\<close>), whether a write to or a read from the
  connection of the RocksDB client fails (\<open>rdb_write\<close>, \<open>rdb_read\<close>), the results of the system calls on
  sockets (\<open>os_script\<close>) and mappings, and of \<^verbatim>\<open>DB::Open\<close>; so are clock readings, random vectors,
  the mutexes other threads hold, which paths can be opened, directory listings, and what C++ leaves
  unspecified (uninitialised bytes \<open>junk\<close>, dangling views \<open>stale\<close>). What the code relies on is stated as
  locales: \<open>openssl_contract\<close>, \<open>redis_contract\<close> and \<open>rocksdb_contract\<close> for the libraries, \<open>kv_contract\<close>
  (what a backend promises) and \<open>gdpr_store\<close> (what the controllers rely on). Sublocales prove the
  later ones from the former ones on the program's own clients, and interpretations instantiate them
  on concrete libraries.

  \<^bold>\<open>What is shown.\<close>
  \<^item> \<open>Access_Properties\<close>: over any backend and any stored bytes, a read returns data only with a grant of
    the stored record, and a write happens only with such a grant or as a put on a key under which the
    backend has nothing or, with encryption, has bytes that do not decrypt: these are overwritten without
    a check. The handlers refine the abstract store \<open>gdpr_state\<close> (a map from keys to metadata and value),
    responses, database and log entries included, for requests and records without a delimiter in their
    metadata fields (\<open>clean_request\<close>, \<open>wf_filter\<close>). Values may be any text; of one with a delimiter a get
    shows the last part (\<open>shown_value\<close>), a put keeps the others (\<open>value_head\<close>), and a metadata update drops
    the first delimiter. Keys with a blank, which the RocksDB server cuts, are outside of that store and
    evade the log of their record.
  \<^item> \<open>Session_Refinement\<close>: the abstract store as a state machine (\<open>spec_step\<close>), which whole sequences of
    requests refine. The requests (\<open>session_request\<close>) are parsed ones with values that are not empty, no
    delimiter in values, users, origins and shares, a 32-bit policy expiration, and no getLogs of the
    regulator; the store carries their keys, answers every call, and is Redis with or without encryption
    or RocksDB with encryption (without it the server drops what putm writes). The bounds on the
    size of a record follow from the size of a message;
    this theory puts it together with the connection.
  \<^item> \<open>Accountability\<close>: for a monitored record that the session does not get to write, and whose log holds
    no written record, every access of the session, granted or refused, is a line of what the regulator
    reads afterwards, and no other line is; and what a session reads was put by it or was there before.
  \<^item> \<open>Data_Properties\<close>: the filter decides exactly the access rule \<open>permitted\<close>; the parsers read what
    the formats they implement write (which differ from the documented ones in blanks and in the names of
    some options); rewriting and reading of records are inverse; the cases the formats
    cannot carry.
  \<^item> \<open>Log_Properties\<close>: audit trails are append-only and read back; the stream table keeps its invariant
    and its bound; and where reading or opening fails.
  \<^item> \<open>Store_Properties\<close>: encryption, both backends as stores while they are reachable, the RocksDB message
    format, and what a server session does with any bytes, over an open database and without one.
  \<^item> \<open>Concurrency_Properties\<close>: the handlers equal a sequence of four phases, each with at most one access
    to shared state. Under every interleaving of the phases a write was granted by a record of the
    run (with the same exceptions as above), and a monitored request has its own entry in the log before
    it has an effect, if its log file opens and its entry encrypts; a put can undo a concurrent metadata
    update. At the level of the logger's mutexes, entries are whole and written once, without deadlock.
  \<^item> \<open>Pool_Sessions\<close>: over a store that answers and for the requests of \<open>Session_Refinement\<close>, every
    interleaving completes without a crash, with responses of the abstract store; and requests that do not
    conflict behave as in some serial order.
  \<^item> \<open>Server_Sessions\<close>: each step of a session of the RocksDB server executes one query, so the database
    and the responses of any interleaving are those of some sequence of the queries, with the queries of
    a client in their order. That a call of the library is atomic is part of the model.
  \<^item> \<open>Console_Properties\<close>: the programs on the standard input, and exactly when they end.
  \<^item> \<open>Microbench\<close>, \<open>Microbench_Proxy\<close>: the benchmarks complete in every schedule of their processes, within a
    number of steps that is given; what a start that failed leads to. \<open>Unit_Tests\<close>: the encryption test passes with every
    OpenSSL that has the contract, and what the logger test writes.
  \<^item> This theory: whole connections from the policy to the last request, and the life of the process.

  \<^bold>\<open>What is not modelled.\<close> Terminal output other than that of the clients, the statistics the test
  driver prints (floating point), the times the benchmarks and tests print, and the scripts. The test \<^verbatim>\<open>gdpr_controller_test.cpp\<close> cannot
  be compiled, as it calls a function that is not there. The buffered
  bytes of a log stream count as written, and files are told apart by the text of their path, so that
  keys with slashes that lead to one file by two paths are not identified. The threads of \<open>Interleaving\<close> call the logger in one step,
  which \<open>Logger_Threads\<close> refines for the calls of the logger alone; memory is sequentially consistent,
  so the unprotected map of mutexes in the logger, a data race, has no model.
\<close>

section \<open>Expired data\<close>

definition expired :: "int \<Rightarrow> gdpr_filter \<Rightarrow> bool" where
  "expired now f \<longleftrightarrow> f_expiration f \<noteq> 0 \<and> f_expiration f < trunc_div now s2ns"

lemma expired_denied: "expired now f \<Longrightarrow> \<not> permitted now f q p"
  by (auto simp: expired_def permitted_def)

text \<open>
  C15. Expired data is out of reach: when a record is past its expiration at every check, no client
  connection, whatever bytes it sends and whoever it claims to be, changes or removes the record.
  This is for stores that carry every key and value, as Redis without encryption does.
\<close>

theorem connection_cannot_touch_expired:
  assumes store: "gdpr_store kv pairs ok (\<lambda>_. True) (\<lambda>_. True)"
    and envs: "\<And>i. rq_kv (envs i) = kv" "\<And>i. \<exists>iv. rq_db_iv (envs i) = Some iv \<and> length iv = initialization_vector_len"
    and w: "ok (w_db w)" "pairs (w_db w) k = Some (record_of f v)" "wf_filter f"
    and e: "\<And>i. expired (rq_check_now (envs i)) f"
  shows "pairs (w_db (fst (connection_loop junk envs p w c))) k = Some (record_of f v)"
proof -
  let ?P = "\<lambda>w. ok (w_db w) \<and> pairs (w_db w) k = Some (record_of f v)"
  have "?P (fst (dispatch (envs i) q p w))" if P: "?P w" for i q w
  proof -
    obtain iv where iv: "rq_db_iv (envs i) = Some iv" "length iv = initialization_vector_len" using envs(2) by blast
    show ?thesis
      using gdpr_store.dispatch_keeps_denied_record [OF store envs(1) iv _ _ conjunct1 [OF P] conjunct2 [OF P] w(3)]
        expired_denied [OF e] by blast
  qed
  then have "?P (fst (request_loop junk (\<lambda>i q w. dispatch (envs i) q p w) 0 w c))"
    using w by (intro request_loop_keeps [where P = ?P]) auto
  then show ?thesis by (simp add: connection_loop_def)
qed

definition expired_filter :: gdpr_filter where
  "expired_filter = demo_filter\<lparr>f_expiration := 5\<rparr>"

definition late_env :: "(string \<rightharpoonup> string, string) req_env" where
  "late_env = redis_env\<lparr>rq_check_now := 9000000000\<rparr>"

theorem connection_cannot_touch_expired_witness:
  "w_db (fst (connection_loop (\<lambda>_. []) (\<lambda>i. late_env) empty_policy
      (demo_world [''k'' \<mapsto> record_of expired_filter ''v''])
      \<lparr>cn_in = message_frame (command1 ''delete'' ''k''), cn_reset = False, cn_out = [], cn_sends = 1\<rparr>)) ''k'' =
    Some (record_of expired_filter ''v'')"
proof -
  have "expired (rq_check_now late_env) expired_filter" "wf_filter expired_filter"
    by (simp_all add: late_env_def expired_def expired_filter_def trunc_div_def s2ns_def demo_filter_def
        wf_filter_def empty_filter_def int64_range_def)
  moreover have "rq_kv late_env = rq_kv redis_env" "rq_db_iv late_env = Some ''abcdefghijkl''"
    by (simp_all add: late_env_def redis_env_def)
  ultimately show ?thesis
    using connection_cannot_touch_expired [OF redis_env_store, where envs = "\<lambda>i. late_env" and k = "''k''"
        and w = "demo_world [''k'' \<mapsto> record_of expired_filter ''v'']" and f = expired_filter and v = "''v''"]
    by (simp add: initialization_vector_len_def)
qed

section \<open>Sessions\<close>

text \<open>
  C16. A connection serves its client from the policy to the last request: the policy message is
  acknowledged and parsed, the requests that follow are answered one by one and in order, each
  response in its own frame, and the state is the one the handlers leave when run in sequence under
  that policy and over the backend of the command line. The socket is closed at the end; the buffer
  of the policy message stays mapped.
\<close>

theorem connection_serves_client:
  assumes policy: "request_text ptext" "default_policy_of_input ptext = Inr p"
    and backend: "kv_factory_create connect db_type db_address = Inr be"
    and requests: "list_all2 (\<lambda>s q. request_text s \<and> query_of_input s = Inr q \<and> q_cmd q \<noteq> ''exit'') ss qs"
    and handled: "run_requests (\<lambda>i q w. dispatch (with_backend be (envs i)) q p w) 0 w qs = (w', Inr responses)"
    and sizes: "\<forall>r\<in>set responses. length r \<le> max_msg_size" "length qs \<le> n"
  shows "\<exists>c. handle_connection connect True True junk0 junk envs db_type db_address w
      \<lparr>cn_in = message_frame ptext @ concat (map message_frame ss), cn_reset = reset, cn_out = [], cn_sends = Suc n\<rparr> =
     (w', c, \<lparr>h_maps = 1, h_socket = False\<rparr>, Conn_closed) \<and>
    cn_out c = message_frame ''ACK'' @ concat (map message_frame responses)"
proof -
  obtain c where "connection_loop junk (\<lambda>i. with_backend be (envs i)) p w
      \<lparr>cn_in = concat (map message_frame ss), cn_reset = reset, cn_out = [] @ message_frame ''ACK'', cn_sends = n\<rparr> =
      (w', c, Conn_closed)" "cn_out c = ([] @ message_frame ''ACK'') @ concat (map message_frame responses)"
    using request_loop_session [OF requests handled sizes] unfolding connection_loop_def by blast
  then show ?thesis
    using policy backend receive_policy_frame [OF policy(1), of junk0 "concat (map message_frame ss)" reset "[]" n]
    by (simp add: handle_connection_def)
qed

definition demo_text :: string where
  "demo_text = join_with (CHR ''&'') [command2 ''put'' ''k'' ''v'', option_text (''sessionKey'', ''u'')]"

lemma demo_text_parses: "query_of_input demo_text = Inr (demo_query ''put'')"
  unfolding demo_text_def demo_query_def by code_simp

lemma demo_text_ok: "request_text demo_text"
  by (simp add: demo_text_def request_text_def command2_def max_msg_size_def)

definition demo_policy :: default_policy where
  "demo_policy = \<lparr>dp_user_key = ''u'', dp_encryption = True, dp_purpose = set_bitmap 0 [''purpose0''],
     dp_objection = set_bitmap 0 [''purpose2''], dp_origin = ''web'', dp_expiration = 0, dp_share = ''bob'',
     dp_monitor = False\<rparr>"

definition demo_policy_text :: string where
  "demo_policy_text = render_options
     [(''-sessionKey'', ''u''), (''-encryption'', ''true''), (''-purpose'', ''purpose0''),
      (''-objection'', ''purpose2''), (''-origin'', ''web''), (''-expTime'', ''0''), (''-objShare'', ''bob''),
      (''-monitor'', ''false'')]"

lemma demo_policy_parses: "default_policy_of_input demo_policy_text = Inr demo_policy"
  unfolding demo_policy_text_def demo_policy_def by code_simp

lemma demo_policy_text_ok: "request_text demo_policy_text"
  by (simp add: demo_policy_text_def render_options_def request_text_def max_msg_size_def)

lemma demo_backend: "with_backend (redis_backend map_redis) redis_env = redis_env"
  by (simp add: with_backend_def redis_env_def plain_env_def sealed_env_def)

lemma demo_policy_put:
  "handle_put redis_env (demo_query ''put'') demo_policy (demo_world Map.empty) =
     (demo_world [''k'' \<mapsto> record_of (insert_metadata (demo_query ''put'') demo_policy 0) ''v''], Inr PUT_SUCCESS)"
  by (simp add: handle_put_def rewriter_insert_eq get_expiration_time_def monitored_def monitor_query_def
      demo_world_def demo_policy_def)

theorem connection_serves_client_witness:
  "\<exists>c. handle_connection (\<lambda>_ _. Inr (redis_backend map_redis)) True True [] (\<lambda>_. []) (\<lambda>i. redis_env) ''redis'' []
      (demo_world Map.empty)
      \<lparr>cn_in = message_frame demo_policy_text @ concat (map message_frame [demo_text]), cn_reset = False, cn_out = [],
       cn_sends = Suc 1\<rparr> =
     (demo_world [''k'' \<mapsto> record_of (insert_metadata (demo_query ''put'') demo_policy 0) ''v''], c,
      \<lparr>h_maps = 1, h_socket = False\<rparr>, Conn_closed) \<and>
    cn_out c = message_frame ''ACK'' @ concat (map message_frame [PUT_SUCCESS])"
  by (rule connection_serves_client
      [OF demo_policy_text_ok demo_policy_parses, where be = "redis_backend map_redis" and qs = "[demo_query ''put'']"])
    (simp_all add: kv_factory_create_def get_default_address_def demo_text_ok demo_text_parses demo_backend dispatch_def
      demo_policy_put PUT_SUCCESS_def max_msg_size_def)

text \<open>
  C10. A connection is a client of the abstract store: over a backend that answers every call and carries
  the keys of the requests and every value below \<open>2 ^ 29\<close> bytes (Redis with or without encryption, RocksDB
  with encryption and keys without blanks), the requests of a session under a parsed policy get exactly
  the responses of a run of the abstract store, whose final state the database represents; if the
  responses fit in messages and the client takes them, they are sent in order and the connection is closed;
  and the log stays usable. The requests are any mix of reads, writes, metadata updates and deletions,
  and getLogs by others than the regulator, with values that are not empty, no delimiter in values,
  users, origins and shares, and a policy expiration of 32 bits (\<open>session_request\<close>); the records there
  before are of that kind too; log files open and entries encrypt. That no record outgrows the store
  follows from the size of a message.
\<close>

theorem connection_refines_store:
  assumes store: "gdpr_store_live kv pairs ok key_ok val_ok" "\<forall>v. length v < 2 ^ 29 \<longrightarrow> val_ok v"
    and envs: "\<forall>i. session_env kv (envs i)"
    and policy: "request_text ps" "default_policy_of_input ps = Inr p"
    and requests: "list_all2 (\<lambda>s q. request_text s \<and> query_of_input s = Inr q \<and> q_cmd q \<noteq> ''exit'') ss qs"
      "\<forall>q\<in>set qs. session_request p q \<and> (q_cmd q \<in> database_commands \<longrightarrow> key_ok (q_key q))"
    and w: "ok (w_db w)" "represents (pairs (w_db w)) st" "session_state st" "logger_ok (w_log w)"
  shows "\<exists>w' responses st'. spec_run (\<lambda>i. (rq_check_now (envs i), rq_rewrite_now (envs i))) p 0 st qs responses st' \<and>
    ok (w_db w') \<and> represents (pairs (w_db w')) st' \<and> session_state st' \<and> logger_ok (w_log w') \<and>
    ((\<forall>r\<in>set responses. length r \<le> max_msg_size) \<and> length qs \<le> n \<longrightarrow>
      (\<exists>c. connection_loop junk envs p w
          \<lparr>cn_in = concat (map message_frame ss), cn_reset = reset, cn_out = [], cn_sends = n\<rparr> = (w', c, Conn_closed) \<and>
        cn_out c = concat (map message_frame responses)))"
proof -
  have "small_request p q" if "q \<in> set qs" for q
    using that requests(1) small_request_of_texts [OF policy] by (auto simp: list_all2_conv_all_nth in_set_conv_nth)
  then have qs: "\<forall>q\<in>set qs. session_request p q \<and> small_request p q \<and> (q_cmd q \<in> database_commands \<longrightarrow> key_ok (q_key q))"
    using requests(2) by blast
  obtain w' responses st' where
    run: "run_requests (\<lambda>i q w. dispatch (envs i) q p w) 0 w qs = (w', Inr responses)"
    and spec: "spec_run (\<lambda>i. (rq_check_now (envs i), rq_rewrite_now (envs i))) p 0 st qs responses st'"
      "ok (w_db w')" "represents (pairs (w_db w')) st'" "session_state st'" "logger_ok (w_log w')"
    using gdpr_store_live.run_requests_refines [OF store(1) envs qs _ w(1,2,4,3), of 0] store(2) by blast
  show ?thesis
    unfolding connection_loop_def
    using request_loop_session [OF requests(1) run, of n junk reset "[]"] spec
    by (intro exI [of _ w'] exI [of _ responses] exI [of _ st']) auto
qed

lemma demo_session_env: "session_env (rq_kv rocksdb_env) rocksdb_env"
  using rocksdb_log_ready [OF example_logger_ok]
  by (simp add: session_env_def log_ready_def) (simp add: rocksdb_env_def redis_env_def initialization_vector_len_def)

lemma demo_session_request: "session_request demo_policy (demo_query ''put'')"
  by (simp add: session_request_def query_typed_def clean_request_def clean_putm_def request_user_def demo_policy_def
      int32_range_def to_lower_def) (simp add: demo_query_def empty_query_def)

theorem connection_refines_store_witness:
  "\<exists>w' responses st'. spec_run (\<lambda>i. (0, 0)) demo_policy 0 Map.empty [demo_query ''put''] responses st' \<and>
    represents (sealed_view plain_openssl default_engine (\<lambda>d. d) (w_db w')) st' \<and>
    ((\<forall>r\<in>set responses. length r \<le> max_msg_size) \<longrightarrow>
      (\<exists>c. connection_loop (\<lambda>_. []) (\<lambda>i. rocksdb_env) demo_policy (demo_world Map.empty)
          \<lparr>cn_in = concat (map message_frame [demo_text]), cn_reset = False, cn_out = [], cn_sends = 1\<rparr> = (w', c, Conn_closed) \<and>
        cn_out c = concat (map message_frame responses)))"
proof -
  have clock: "rq_check_now rocksdb_env = 0" "rq_rewrite_now rocksdb_env = 0" by (simp_all add: rocksdb_env_def redis_env_def)
  have requests: "list_all2 (\<lambda>s q. request_text s \<and> query_of_input s = Inr q \<and> q_cmd q \<noteq> ''exit'') [demo_text] [demo_query ''put'']"
      "\<forall>q\<in>set [demo_query ''put'']. session_request demo_policy q \<and> (q_cmd q \<in> database_commands \<longrightarrow> rocksdb_key (q_key q))"
    using demo_text_ok demo_text_parses demo_session_request rocksdb_key_demo by simp_all
  have empty: "rocksdb_inv (\<lambda>d. d) (w_db (demo_world Map.empty)) \<and> readable plain_openssl default_engine (\<lambda>d. d) (w_db (demo_world Map.empty))"
    "represents (sealed_view plain_openssl default_engine (\<lambda>d. d) (w_db (demo_world Map.empty))) Map.empty"
    "session_state Map.empty" "logger_ok (w_log (demo_world Map.empty))"
    using sealed_empty_facts example_logger_ok by (simp_all add: represents_def session_state_def)
  have "\<forall>v. length v < 2 ^ 29 \<longrightarrow> length v < 2 ^ 29" "\<forall>i. session_env (rq_kv rocksdb_env) rocksdb_env"
    using demo_session_env by simp_all
  from connection_refines_store [OF rocksdb_env_store this demo_policy_text_ok demo_policy_parses requests empty,
      where n = 1 and junk = "\<lambda>_. []" and reset = False]
  show ?thesis unfolding clock by auto
qed

text \<open>
  A request the parser refuses ends the controller process, not only the connection: the
  exception is not caught. The state is left as it was before the request.
\<close>

theorem refused_request_ends_process:
  assumes "request_text s" "query_of_input s = Inl e"
  shows "connection_loop junk envs p w
      \<lparr>cn_in = message_frame s @ rest, cn_reset = reset, cn_out = out, cn_sends = n\<rparr> =
    (w, \<lparr>cn_in = rest, cn_reset = reset, cn_out = out, cn_sends = n\<rparr>, Process_end e)"
  unfolding connection_loop_def using assms by (rule request_loop_raises)

theorem refused_request_ends_process_witness:
  "connection_loop (\<lambda>_. []) (\<lambda>i. redis_env) empty_policy (demo_world Map.empty)
      \<lparr>cn_in = message_frame ''hello'' @ [], cn_reset = False, cn_out = [], cn_sends = 1\<rparr> =
    (demo_world Map.empty, \<lparr>cn_in = [], cn_reset = False, cn_out = [], cn_sends = 1\<rparr>,
     Process_end (Invalid_argument ''Error: predicate hello not supported.''))"
proof (rule refused_request_ends_process)
  show "request_text ''hello''" by (simp add: request_text_def max_msg_size_def)
  show "query_of_input ''hello'' = Inl (Invalid_argument ''Error: predicate hello not supported.'')"
    by code_simp
qed

text \<open>
  C40. A message of exactly the maximal size passes the size check of the receive and makes the
  controller write the terminating null byte one past the end of its buffer.
\<close>

theorem full_message_overruns_buffer:
  assumes "length s = max_msg_size"
  shows "connection_loop junk envs p w
      \<lparr>cn_in = message_frame s @ rest, cn_reset = reset, cn_out = out, cn_sends = n\<rparr> =
    (w, \<lparr>cn_in = rest, cn_reset = reset, cn_out = out, cn_sends = n\<rparr>, Process_end Undefined_behaviour)"
  unfolding connection_loop_def using assms by (rule request_loop_full)

theorem full_message_overruns_buffer_witness:
  "connection_loop (\<lambda>_. []) (\<lambda>i. redis_env) empty_policy (demo_world Map.empty)
      \<lparr>cn_in = message_frame (replicate 4096 (CHR ''a'')) @ [], cn_reset = False, cn_out = [], cn_sends = 1\<rparr> =
    (demo_world Map.empty, \<lparr>cn_in = [], cn_reset = False, cn_out = [], cn_sends = 1\<rparr>, Process_end Undefined_behaviour)"
  by (rule full_message_overruns_buffer) (simp only: length_replicate max_msg_size_def)

section \<open>Start of the process\<close>

lemma startup_invariants:
  assumes "controller_startup rlimit fs dir_exists can_create args = Inr su"
  shows "engine_inv (su_engine su) \<and> logger_ok (su_logger su) \<and> lg_fs (su_logger su) = fs \<and>
    lg_dir (su_logger su) = get_command_line_argument args ''--logpath'' \<and> su_db_type su \<noteq> [] \<and>
    su_address su = get_command_line_argument args ''--controller_address'' \<and>
    su_port su = get_command_line_argument args ''--controller_port''"
proof -
  have key: "engine_inv (snd (init_encryption_key eng k kt))" if "engine_inv eng" "kt \<noteq> max_key" for eng k kt
    using that by (cases kt) (auto simp: init_encryption_key_def engine_inv_def get_encryption_key_def set_key_def
        encryption_key_len_def)
  show ?thesis
    using assms key [OF key [OF default_engine_inv]]
    by (auto simp: controller_startup_def new_logger_def init_log_path_def Let_def bind_result_eq_Inr_iff logger_ok_def
        stream_inv_def streams_exist_def split: if_splits prod.splits) (metis key default_engine_inv cipher_key_type.distinct snd_conv)+
qed

text \<open>
  C34. What becomes of a controller process, whatever the command line and the system calls return. It
  may abort in its set-up, with nothing open. Otherwise it has what the other theorems ask for: keys of
  the right length and an empty and consistent stream table over the log directory of the command
  line. Then it aborts on a port that is no number; or it returns 1 with its socket closed again; or it
  listens at the given address, on the port modulo \<open>2 ^ 16\<close>, with one thread for each client accepted so
  far, and the first failed accept returns 0 and ends them all.
\<close>

theorem controller_main_outcome:
  "case controller_main rlimit fs dir_exists can_create sc args of
      (None, pr, done) \<Rightarrow> pr = new_proc \<and> (\<exists>e. done = Aborted e)
    | (Some su, pr, done) \<Rightarrow>
        (engine_inv (su_engine su) \<and> logger_ok (su_logger su) \<and> lg_fs (su_logger su) = fs \<and>
         lg_dir (su_logger su) = get_command_line_argument args ''--logpath'' \<and> su_db_type su \<noteq> []) \<and>
        ((\<exists>e. done = Aborted e \<and> stoi (get_command_line_argument args ''--controller_port'') = Inl e \<and>
            pr_threads pr = []) \<or>
         done = Returned 1 \<and> pr = new_proc \<or>
         (\<exists>n. stoi (get_command_line_argument args ''--controller_port'') = Inr n \<and>
            pr_listens pr = Some (sc_inet_addr sc (get_command_line_argument args ''--controller_address''), nat (n mod 2 ^ 16)) \<and>
            pr_threads pr = map the (takeWhile (\<lambda>a. a \<noteq> None) (sc_accepts sc)) \<and>
            done = (if None \<in> set (sc_accepts sc) then Returned 0 else Serving)))"
proof (cases "controller_startup rlimit fs dir_exists can_create args")
  case (Inr su)
  then show ?thesis
    using startup_invariants [OF Inr] serve_cases [of sc "su_address su" "su_port su"]
    by (auto simp: controller_main_def split: prod.splits)
qed (simp add: controller_main_def)

definition demo_args :: "string list" where
  "demo_args = [''controller'', ''--db'', ''rocksdb'', ''--logpath'', ''logs'', ''--controller_port'', ''1312'']"

definition demo_script :: os_script where
  "demo_script = \<lparr>sc_socket = Some 3, sc_reuse = True, sc_nodelay = True, sc_inet_addr = (\<lambda>_. 0),
     sc_bind = (\<lambda>_ _. True), sc_listen = True, sc_accepts = [Some 4, Some 5, None]\<rparr>"

text \<open>A run of the process on which the last case is taken.\<close>

lemma controller_main_serves:
  "\<exists>su. controller_main (Some 1024) Map.empty (\<lambda>_. True) (\<lambda>_. True) demo_script demo_args =
     (Some su, \<lparr>pr_sockets = {3, 4, 5}, pr_listens = Some (0, 1312), pr_threads = [4, 5]\<rparr>, Returned 0)"
proof -
  have "stoi ''1312'' = Inr 1312" by code_simp
  then show ?thesis
    by (auto simp add: controller_main_def controller_startup_def demo_args_def get_command_line_argument_def new_logger_def
        init_log_path_def get_max_fds_def int_of_size_def to_signed_def init_encryption_key_def demo_script_def serve_def
        open_listener_def new_proc_def)
qed

text \<open>
  Without \<^verbatim>\<open>--logpath\<close> the controller does not start: the absent argument is an empty text, not an
  absent value, so it replaces the default directory, and an empty path can neither exist nor be
  created.
\<close>

theorem startup_needs_log_path:
  assumes "''--logpath'' \<notin> set args" "\<not> dir_exists []" "\<not> can_create []"
  shows "\<exists>e. controller_startup rlimit fs dir_exists can_create args = Inl e"
  using assms get_command_line_argument_absent [OF assms(1)]
  by (auto simp: controller_startup_def init_log_path_def new_logger_def Let_def)

theorem startup_needs_log_path_witness:
  "\<exists>e. controller_startup (Some 1024) Map.empty (\<lambda>path. path = ''./logs'') (\<lambda>path. path \<noteq> [])
     [''controller'', ''--db'', ''redis'', ''--controller_port'', ''1312''] = Inl e"
  by (rule startup_needs_log_path) simp_all

end
